(* ===== verification/Kernel_Prelude.thy ===== *)
theory Kernel_Prelude
  imports Main "HOL-Library.Word" "HOL-Library.Multiset"
begin

text \<open>
  Shared vocabulary of the DFOS development: the fixed-width integer types of
  \<^verbatim>\<open>libc/include/stdint.h\<close>, the theorem collections the component theories fill,
  and the generic facts on words, lists and bit masks they share.
\<close>

unbundle bit_operations_syntax

subsection \<open>Machine integers\<close>

type_synonym u8 = "8 word"
type_synonym i8 = "8 word"
type_synonym u16 = "16 word"
type_synonym u32 = "32 word"
type_synonym u64 = "64 word"

text \<open>
  \<open>word_nat\<close> collects the facts that move a word expression to \<^typ>\<open>nat\<close>;
  \<open>kernel_inv\<close> the invariant-preservation facts of the components.
\<close>

named_theorems word_nat
named_theorems kernel_inv

lemma unat_succ_less [word_nat]:
  fixes i n :: "'a::len word"
  assumes "i < n"
  shows "unat (i + 1) = Suc (unat i)"
proof -
  have "unat i < unat n" using assms by (simp add: word_less_nat_alt)
  moreover have "unat n < 2 ^ LENGTH('a)" by (rule unsigned_less)
  ultimately have "unat i + 1 < 2 ^ LENGTH('a)" by linarith
  then show ?thesis
    by (metis Suc_eq_plus1 unat_1 unat_add_lem)
qed

text \<open>The decrease of every counting loop \<open>for (i = a; i < b; i++)\<close> on words.\<close>

lemma word_loop_measure [word_nat]:
  fixes i n :: "'a::len word"
  assumes "i < n"
  shows "unat n - unat (i + 1) < unat n - unat i"
proof -
  have "unat i < unat n" using assms by (simp add: word_less_nat_alt)
  then show ?thesis using unat_succ_less [OF assms] by simp
qed

lemma word_less_succ_iff:
  fixes i n :: "'a::len word"
  assumes "i < n"
  shows "k < i + 1 \<longleftrightarrow> k \<le> i"
  using unat_succ_less [OF assms] by (simp add: word_less_nat_alt word_le_nat_alt less_Suc_eq_le)

lemma word_succ_le_iff:
  fixes i n :: "'a::len word"
  assumes "i < n"
  shows "i + 1 \<le> k \<longleftrightarrow> i < k"
  using unat_succ_less [OF assms] by (simp add: word_less_nat_alt word_le_nat_alt Suc_le_eq)

lemma unat_u32_less: "unat (x :: u32) < 4294967296"
  using unsigned_less [of x] by simp

lemma unat_u32_of_u8 [simp]: "unat (ucast (w :: u8) :: u32) = unat w"
proof -
  have "unat w < 2 ^ 8" using unsigned_less [of w] by simp
  then show ?thesis by (simp add: unsigned_ucast_eq take_bit_nat_def)
qed

lemma unat_u64_of_u32 [word_nat]: "unat (ucast (x :: u32) :: u64) = unat x"
  by (simp add: unsigned_ucast_eq take_bit_nat_eq_self_iff unat_u32_less less_trans [OF unat_u32_less])

lemma unat_u64_add_u32 [word_nat]:
  "unat ((ucast (x :: u32) :: u64) + ucast (y :: u32)) = unat x + unat y"
proof -
  have "unat x + unat y < 2 ^ 64"
    using unat_u32_less [of x] unat_u32_less [of y] by simp
  then show ?thesis
    by (simp add: unat_word_ariths unat_u64_of_u32)
qed

subsection \<open>Rounding\<close>

lemma nat_round_up_ge: "0 < (m :: nat) \<Longrightarrow> n \<le> (n + (m - 1)) div m * m"
proof -
  assume "0 < m"
  then have "(n + (m - 1)) mod m \<le> m - 1" by (metis Suc_pred' less_Suc_eq_le mod_less_divisor)
  then show ?thesis using minus_mod_eq_div_mult [of "n + (m - 1)" m] by linarith
qed

lemma nat_div_less_ceil: "(a :: nat) < t \<Longrightarrow> 0 < m \<Longrightarrow> a div m < (t + (m - 1)) div m"
proof -
  assume "a < t" "0 < m"
  then have "(a + m) div m \<le> (t + (m - 1)) div m" by (intro div_le_mono) simp
  moreover have "(a + m) div m = a div m + 1" using \<open>0 < m\<close> by (intro div_add_self2) simp
  ultimately show ?thesis by linarith
qed

subsection \<open>Power-of-two masks\<close>

text \<open>
  \<open>(value + alignment - 1) & ~(alignment - 1)\<close> is how every component rounds
  addresses; these facts give it its arithmetic meaning.
\<close>

lemma and_not_mask_eq:
  fixes x :: "'a::len word"
  shows "x AND NOT (mask n) = x - take_bit n x"
proof -
  have "x = (x AND NOT (mask n)) + take_bit n x"
  proof -
    have "(x AND NOT (mask n)) AND take_bit n x = 0"
      by (rule bit_eqI) (auto simp: bit_simps)
    then have "(x AND NOT (mask n)) + take_bit n x = (x AND NOT (mask n)) OR take_bit n x"
      by (simp add: disjunctive_add_eq_or)
    also have "\<dots> = x"
      by (rule bit_eqI) (auto simp: bit_simps)
    finally show ?thesis by simp
  qed
  then show ?thesis by (metis add_diff_cancel_right')
qed

lemma unat_take_bit [word_nat]:
  fixes x :: "'a::len word"
  shows "unat (take_bit n x) = unat x mod 2 ^ n"
  by (simp only: unsigned_take_bit_eq) (simp add: take_bit_nat_def)

lemma unat_and_not_mask:
  fixes x :: "'a::len word"
  shows "unat (x AND NOT (mask n)) = unat x - unat x mod 2 ^ n"
proof -
  have le: "take_bit n x \<le> x"
    by (simp only: word_le_nat_alt unat_take_bit) simp
  have "unat (x - take_bit n x) = unat x - unat (take_bit n x)"
    using le by (simp add: unat_sub)
  then show ?thesis
    by (simp only: and_not_mask_eq unat_take_bit)
qed

lemma nat_pow2_of_and_pred:
  "0 < n \<Longrightarrow> and n (n - 1) = (0::nat) \<Longrightarrow> \<exists>k. n = 2 ^ k"
proof (induction n rule: less_induct)
  case (less n)
  show ?case
  proof (cases "even n")
    case True
    then obtain m where m: "n = 2 * m" by blast
    with less.prems have "0 < m" by simp
    have "and n (n - 1) = 2 * and m (m - 1)"
    proof -
      have "n - 1 = 1 + 2 * (m - 1)" using m \<open>0 < m\<close> by simp
      then show ?thesis
        using m by (simp add: and_rec [of "2 * m"])
    qed
    with less.prems have "and m (m - 1) = 0" by simp
    then obtain k where "m = 2 ^ k"
      using less.IH [of m] m \<open>0 < m\<close> by auto
    then show ?thesis using m by (metis power_Suc)
  next
    case False
    then obtain m where m: "n = 2 * m + 1" by (metis oddE)
    have "and n (n - 1) = 2 * m"
      using m by (simp add: and_rec [of "Suc (2 * m)"])
    with less.prems m have "n = 1" by simp
    then show ?thesis by (metis power_0)
  qed
qed

lemma word_eq_pow2:
  fixes a :: "'a::len word"
  assumes "unat a = 2 ^ k"
  shows "a = 2 ^ k"
proof -
  have "a = of_nat (unat a)" by simp
  also have "\<dots> = 2 ^ k" by (simp only: assms) simp
  finally show ?thesis .
qed

lemma word_pow2_of_and_pred:
  fixes a :: "'a::len word"
  assumes "a \<noteq> 0" and "a AND (a - 1) = 0"
  obtains k where "k < LENGTH('a)" "unat a = 2 ^ k" "a - 1 = mask k"
proof -
  have pos: "0 < unat a" using assms(1) by (simp add: unat_gt_0)
  have dec: "unat (a - 1) = unat a - 1"
    using assms(1) by (simp add: unat_minus_one)
  have "and (unat a) (unat a - 1) = 0"
    using arg_cong [OF assms(2), of unat] by (simp add: unsigned_and_eq dec)
  then obtain k where k: "unat a = 2 ^ k"
    using nat_pow2_of_and_pred [OF pos] by blast
  have "unat a < 2 ^ LENGTH('a)" by (rule unsigned_less)
  with k have len: "k < LENGTH('a)" by simp
  have "a = 2 ^ k" using k by (rule word_eq_pow2)
  then have "a - 1 = mask k" by (simp add: mask_eq_decr_exp)
  then show ?thesis using that k len by blast
qed

lemma u32_and_4095_eq [word_nat]: "unat ((x :: u32) AND 4095) = unat x mod 4096"
proof -
  have "x AND 4095 = take_bit 12 x"
    by (simp add: take_bit_eq_mask mask_numeral)
  then show ?thesis by (simp only: unat_take_bit) simp
qed

subsection \<open>Lists and multisets\<close>

lemma find_append:
  "List.find P (xs @ ys) = (case List.find P xs of None \<Rightarrow> List.find P ys | Some x \<Rightarrow> Some x)"
  by (induction xs) auto

lemma size_le_card:
  assumes "\<forall>n. count M n \<le> 1" "set_mset M \<subseteq> S" "finite S"
  shows "size M \<le> card S"
proof -
  have "size M = (\<Sum>n\<in>set_mset M. count M n)" by (rule size_multiset_overloaded_eq)
  also have "\<dots> \<le> (\<Sum>n\<in>set_mset M. 1)" using assms(1) by (intro sum_mono) auto
  also have "\<dots> \<le> card S" using assms(2,3) by (simp add: card_mono)
  finally show ?thesis .
qed

lemma sorted_wrt_append_mid:
  "sorted_wrt P (xs @ y # ys) \<longleftrightarrow>
     sorted_wrt P xs \<and> sorted_wrt P ys \<and> (\<forall>x\<in>set xs. P x y) \<and> (\<forall>z\<in>set ys. P y z) \<and>
     (\<forall>x\<in>set xs. \<forall>z\<in>set ys. P x z)"
  by (auto simp: sorted_wrt_append)

end
