(* ===== verification/Vma_Tree.thy ===== *)
theory Vma_Tree
  imports Kernel_Prelude
begin

text \<open>
  \<^verbatim>\<open>kernel/kernel/vma.c\<close>: the AVL tree of virtual memory areas, whose nodes come from a
  static pool of 2048 structs. A tree is a datatype value whose nodes carry the index of the
  pool struct they live in (\<open>slot\<close>); the free list, which the C code threads through
  \<open>left\<close>, is the list of free slots. The stored height keeps its \<open>int8_t\<close> width, addresses
  are 32-bit words and the 64-bit sums of the gap search are 64-bit words.

  First the operations in source order, then the invariant (ordered disjoint areas, AVL balance,
  exact heights, pool conservation), the behaviour of every operation against the in-order list of
  areas, and the first-fit specification of the gap search.
\<close>

section \<open>The operations of vma.c\<close>

definition VMA_MAX_NODES :: nat where
  "VMA_MAX_NODES = 2048"

datatype vma_node =
    Null
  | Node (slot: nat) (area_start: u32) (area_end: u32) (area_flags: u32)
      (stored_height: i8) (left: vma_node) (right: vma_node)

record vma_pool =
  free_nodes :: "nat list"
  pool_initialized :: bool

record vma_tree =
  root :: vma_node
  node_count :: u32

record gap_search_state =
  cursor :: u32
  max_addr :: u32
  gap_length :: u32
  alignment :: u32
  gap_result :: u32
  found :: bool

definition max_i32 :: "int \<Rightarrow> int \<Rightarrow> int" where
  "max_i32 a b = (if a > b then a else b)"

definition vma_align_up_u32 :: "u32 \<Rightarrow> u32 \<Rightarrow> u32" where
  "vma_align_up_u32 val al =
     (if al \<le> 1 then val
      else let aligned = ((ucast val :: u64) + ucast al - 1) AND NOT ((ucast al :: u64) - 1)
           in if aligned > 0xFFFFFFFF then 0 else ucast aligned)"

definition add_fits_limit :: "u32 \<Rightarrow> u32 \<Rightarrow> u32 \<Rightarrow> bool" where
  "add_fits_limit st len limit =
     (let e = (ucast st :: u64) + ucast len in e \<le> ucast limit)"

definition node_pool_init :: "vma_pool \<Rightarrow> vma_pool" where
  "node_pool_init p =
     (if pool_initialized p then p
      else p\<lparr>free_nodes := fold (\<lambda>i fl. i # fl) [0..<VMA_MAX_NODES] [],
             pool_initialized := True\<rparr>)"

definition node_alloc :: "vma_pool \<Rightarrow> u32 \<Rightarrow> u32 \<Rightarrow> u32 \<Rightarrow> vma_pool \<times> vma_node" where
  "node_alloc p0 st en fl =
     (let p = node_pool_init p0
      in case free_nodes p of
           [] \<Rightarrow> (p, Null)
         | n # rest \<Rightarrow> (p\<lparr>free_nodes := rest\<rparr>, Node n st en fl 1 Null Null))"

fun node_free :: "vma_node \<Rightarrow> vma_pool \<Rightarrow> vma_pool" where
  "node_free (Node n st en fl h l r) p = p\<lparr>free_nodes := n # free_nodes p\<rparr>"

fun node_height :: "vma_node \<Rightarrow> int" where
  "node_height Null = 0"
| "node_height (Node n st en fl h l r) = sint h"

fun node_refresh_height :: "vma_node \<Rightarrow> vma_node" where
  "node_refresh_height (Node n st en fl h l r) =
     Node n st en fl (word_of_int (1 + max_i32 (node_height l) (node_height r))) l r"

fun node_balance_factor :: "vma_node \<Rightarrow> int" where
  "node_balance_factor (Node n st en fl h l r) = node_height l - node_height r"

text \<open>
  A rotation dereferences its pivot, so it has no equation for a missing child: the balance
  theorems below only go through because \<open>rebalance\<close> never calls it there.
\<close>

fun rotate_right :: "vma_node \<Rightarrow> vma_node" where
  "rotate_right (Node n st en fl h (Node pn pst pen pfl ph pl pr) r) =
     (let nd = node_refresh_height (Node n st en fl h pr r)
      in node_refresh_height (Node pn pst pen pfl ph pl nd))"

fun rotate_left :: "vma_node \<Rightarrow> vma_node" where
  "rotate_left (Node n st en fl h l (Node pn pst pen pfl ph pl pr)) =
     (let nd = node_refresh_height (Node n st en fl h l pl)
      in node_refresh_height (Node pn pst pen pfl ph nd pr))"

fun set_left :: "vma_node \<Rightarrow> vma_node \<Rightarrow> vma_node" where
  "set_left (Node n st en fl h l r) l' = Node n st en fl h l' r"

fun set_right :: "vma_node \<Rightarrow> vma_node \<Rightarrow> vma_node" where
  "set_right (Node n st en fl h l r) r' = Node n st en fl h l r'"

definition rebalance :: "vma_node \<Rightarrow> vma_node" where
  "rebalance nd0 =
     (let nd = node_refresh_height nd0;
          bal = node_balance_factor nd
      in if bal > 1 then
           rotate_right
             (if node_balance_factor (left nd) < 0 then set_left nd (rotate_left (left nd)) else nd)
         else if bal < -1 then
           rotate_left
             (if node_balance_factor (right nd) > 0 then set_right nd (rotate_right (right nd)) else nd)
         else nd)"

fun node_insert :: "vma_node \<Rightarrow> vma_node \<Rightarrow> vma_node \<times> bool" where
  "node_insert Null nd = (nd, True)"
| "node_insert (Node n st en fl h l r) nd =
     (if area_end nd \<le> st then
        let (l', ins) = node_insert l nd; rt = Node n st en fl h l' r
        in if \<not> ins then (rt, False) else (rebalance rt, True)
      else if area_start nd \<ge> en then
        let (r', ins) = node_insert r nd; rt = Node n st en fl h l r'
        in if \<not> ins then (rt, False) else (rebalance rt, True)
      else (Node n st en fl h l r, False))"

fun node_leftmost :: "vma_node \<Rightarrow> vma_node" where
  "node_leftmost Null = Null"
| "node_leftmost (Node n st en fl h l r) =
     (if l \<noteq> Null then node_leftmost l else Node n st en fl h l r)"

text \<open>\<open>removed\<close> is the in-out parameter; the pool is threaded through \<open>node_free\<close>.\<close>

fun node_remove ::
  "vma_node \<Rightarrow> u32 \<Rightarrow> u32 \<Rightarrow> bool \<Rightarrow> vma_pool \<Rightarrow> vma_node \<times> bool \<times> vma_pool" where
  "node_remove Null st en removed p = (Null, removed, p)"
| "node_remove (Node n nst nen fl h l r) st en removed p =
     (if st < nst then
        let (l', rem, p') = node_remove l st en removed p
        in (rebalance (Node n nst nen fl h l' r), rem, p')
      else if st > nst then
        let (r', rem, p') = node_remove r st en removed p
        in (rebalance (Node n nst nen fl h l r'), rem, p')
      else if nen \<noteq> en then (Node n nst nen fl h l r, False, p)
      else if l = Null \<or> r = Null then
        (if l \<noteq> Null then l else r, True, node_free (Node n nst nen fl h l r) p)
      else
        let s = node_leftmost r;
            (r', dropped, p') = node_remove r (area_start s) (area_end s) False p
        in (rebalance (Node n (area_start s) (area_end s) (area_flags s) h l r'), True, p'))"

fun node_release_subtree :: "vma_node \<Rightarrow> vma_pool \<Rightarrow> vma_pool" where
  "node_release_subtree Null p = p"
| "node_release_subtree (Node n st en fl h l r) p =
     node_free (Node n st en fl h l r) (node_release_subtree r (node_release_subtree l p))"

text \<open>The work on one node, between the two recursive calls.\<close>

definition gap_search_visit :: "u32 \<Rightarrow> u32 \<Rightarrow> gap_search_state \<Rightarrow> gap_search_state" where
  "gap_search_visit st en s =
     (if en > cursor s then
        let gap_end = (if st > max_addr s then max_addr s else st)
        in if add_fits_limit (cursor s) (gap_length s) gap_end then
             s\<lparr>gap_result := cursor s, found := True\<rparr>
           else
             let next0 = vma_align_up_u32 en (alignment s);
                 next_cursor = (if next0 < cursor s then max_addr s else next0)
             in s\<lparr>cursor := (if next_cursor > max_addr s then max_addr s else next_cursor)\<rparr>
      else s)"

fun gap_search_in_order :: "vma_node \<Rightarrow> gap_search_state \<Rightarrow> gap_search_state" where
  "gap_search_in_order Null s = s"
| "gap_search_in_order (Node n st en fl h l r) s =
     (if found s then s
      else
        let s1 = gap_search_in_order l s
        in if found s1 then s1
           else
             let s2 = gap_search_visit st en s1
             in if found s2 then s2 else gap_search_in_order r s2)"

definition vma_tree_init :: vma_tree where
  "vma_tree_init = \<lparr>root = Null, node_count = 0\<rparr>"

definition vma_tree_clear :: "vma_tree \<Rightarrow> vma_pool \<Rightarrow> vma_tree \<times> vma_pool" where
  "vma_tree_clear t p = (t\<lparr>root := Null, node_count := 0\<rparr>, node_release_subtree (root t) p)"

definition vma_tree_insert ::
  "vma_tree \<Rightarrow> vma_pool \<Rightarrow> u32 \<Rightarrow> u32 \<Rightarrow> u32 \<Rightarrow> bool \<times> vma_tree \<times> vma_pool" where
  "vma_tree_insert t p st en fl =
     (if en \<le> st then (False, t, p)
      else
        let (p1, nd) = node_alloc p st en fl
        in if nd = Null then (False, t, p1)
           else
             let (rt, inserted) = node_insert (root t) nd
             in if \<not> inserted then (False, t\<lparr>root := rt\<rparr>, node_free nd p1)
                else (True, t\<lparr>root := rt, node_count := node_count t + 1\<rparr>, p1))"

definition vma_tree_remove ::
  "vma_tree \<Rightarrow> vma_pool \<Rightarrow> u32 \<Rightarrow> u32 \<Rightarrow> bool \<times> vma_tree \<times> vma_pool" where
  "vma_tree_remove t p st en =
     (let (rt, removed, p') = node_remove (root t) st en False p;
          t' = t\<lparr>root := rt\<rparr>
      in if removed then (True, t'\<lparr>node_count := node_count t' - 1\<rparr>, p') else (False, t', p'))"

fun node_find :: "vma_node \<Rightarrow> u32 \<Rightarrow> (u32 \<times> u32 \<times> u32) option" where
  "node_find Null addr = None"
| "node_find (Node n st en fl h l r) addr =
     (if addr < st then node_find l addr
      else if addr \<ge> en then node_find r addr
      else Some (st, en, fl))"

definition vma_tree_find :: "vma_tree \<Rightarrow> u32 \<Rightarrow> (u32 \<times> u32 \<times> u32) option" where
  "vma_tree_find t addr = node_find (root t) addr"

definition vma_tree_first :: "vma_tree \<Rightarrow> (u32 \<times> u32 \<times> u32) option" where
  "vma_tree_first t =
     (case node_leftmost (root t) of
        Null \<Rightarrow> None
      | Node n st en fl h l r \<Rightarrow> Some (st, en, fl))"

definition vma_tree_find_gap :: "vma_tree \<Rightarrow> u32 \<Rightarrow> u32 \<Rightarrow> u32 \<Rightarrow> u32 \<Rightarrow> u32 option" where
  "vma_tree_find_gap t min_a max_a len al =
     (if len = 0 \<or> min_a \<ge> max_a \<or> al = 0 then None
      else if al AND (al - 1) \<noteq> 0 then None
      else
        let st = vma_align_up_u32 min_a al
        in if st < min_a \<or> st \<ge> max_a then None
           else
             let s = gap_search_in_order (root t)
                   \<lparr>cursor = st, max_addr = max_a, gap_length = len, alignment = al,
                    gap_result = 0, found = False\<rparr>;
                 s' = (if \<not> found s \<and> add_fits_limit (cursor s) len max_a
                       then s\<lparr>gap_result := cursor s, found := True\<rparr> else s)
             in if \<not> found s' then None else Some (gap_result s'))"

definition vma_tree_node_count :: "vma_tree \<Rightarrow> u32" where
  "vma_tree_node_count t = node_count t"

section \<open>Abstraction and invariant\<close>

text \<open>The areas of a tree in address order, and the pool slots of its nodes.\<close>

fun areas :: "vma_node \<Rightarrow> (u32 \<times> u32 \<times> u32) list" where
  "areas Null = []"
| "areas (Node n st en fl h l r) = areas l @ (st, en, fl) # areas r"

fun slots :: "vma_node \<Rightarrow> nat multiset" where
  "slots Null = {#}"
| "slots (Node n st en fl h l r) = add_mset n (slots l + slots r)"

fun ht :: "vma_node \<Rightarrow> nat" where
  "ht Null = 0"
| "ht (Node n st en fl h l r) = Suc (max (ht l) (ht r))"

text \<open>AVL balance together with exactness of the stored \<open>int8_t\<close> heights.\<close>

fun avl :: "vma_node \<Rightarrow> bool" where
  "avl Null = True"
| "avl (Node n st en fl h l r) =
     (sint h = int (Suc (max (ht l) (ht r))) \<and> ht l \<le> ht r + 1 \<and> ht r \<le> ht l + 1 \<and>
      avl l \<and> avl r)"

definition area_before :: "u32 \<times> u32 \<times> u32 \<Rightarrow> u32 \<times> u32 \<times> u32 \<Rightarrow> bool" where
  "area_before a b = (fst (snd a) \<le> fst b)"

definition area_overlaps :: "u32 \<Rightarrow> u32 \<Rightarrow> u32 \<times> u32 \<times> u32 \<Rightarrow> bool" where
  "area_overlaps st en a = (st < fst (snd a) \<and> fst a < en)"

definition wf_areas :: "(u32 \<times> u32 \<times> u32) list \<Rightarrow> bool" where
  "wf_areas xs = (sorted_wrt area_before xs \<and> (\<forall>a\<in>set xs. fst a < fst (snd a)))"

definition vma_inv :: "vma_tree \<Rightarrow> vma_pool \<Rightarrow> bool" where
  "vma_inv t p =
     (wf_areas (areas (root t)) \<and> avl (root t) \<and>
      node_count t = of_nat (length (areas (root t))) \<and>
      set_mset (slots (root t) + mset (free_nodes p)) \<subseteq> {..<VMA_MAX_NODES} \<and>
      (\<forall>n. count (slots (root t) + mset (free_nodes p)) n \<le> 1) \<and>
      (pool_initialized p \<or> root t = Null \<and> free_nodes p = []))"

section \<open>Balance\<close>

definition height_word :: "nat \<Rightarrow> i8" where
  "height_word n = word_of_int (int n)"

lemma sint_height_word: "n \<le> 120 \<Longrightarrow> sint (height_word n) = int n"
  unfolding height_word_def
  by (simp only: sint_sbintrunc') (simp add: signed_take_bit_int_eq_self)

lemma node_height_avl: "avl t \<Longrightarrow> node_height t = int (ht t)"
  by (cases t) auto

lemma ht_pos: "0 < ht t \<longleftrightarrow> t \<noteq> Null"
  by (cases t) auto

lemma refresh_height_exact:
  assumes "node_height l = int (ht l)" "node_height r = int (ht r)"
  shows "node_refresh_height (Node n st en fl h l r) =
           Node n st en fl (height_word (Suc (max (ht l) (ht r)))) l r"
  using assms by (simp add: max_i32_def max_def height_word_def add.commute)

definition rebalanced :: "nat \<Rightarrow> u32 \<Rightarrow> u32 \<Rightarrow> u32 \<Rightarrow> vma_node \<Rightarrow> vma_node \<Rightarrow> vma_node \<Rightarrow> bool" where
  "rebalanced n st en fl l r t \<longleftrightarrow>
     avl t \<and> areas t = areas l @ (st, en, fl) # areas r \<and>
     slots t = add_mset n (slots l + slots r) \<and>
     ht t \<le> Suc (max (ht l) (ht r)) \<and> max (ht l) (ht r) \<le> ht t \<and>
     (ht l \<le> ht r + 1 \<and> ht r \<le> ht l + 1 \<longrightarrow> ht t = Suc (max (ht l) (ht r)))"

lemmas rebalance_simps = rebalanced_def rebalance_def Let_def refresh_height_exact
  node_height_avl sint_height_word

lemma rebalanced_level:
  assumes "avl l" "avl r" "ht l \<le> ht r + 1" "ht r \<le> ht l + 1" "ht l \<le> 100" "ht r \<le> 100"
  shows "rebalanced n st en fl l r (rebalance (Node n st en fl h l r))"
  using assms by (simp add: rebalance_simps le_SucI del: node_refresh_height.simps)

lemma rebalanced_left_heavy:
  assumes "avl l" "avl r" "ht l = ht r + 2" "ht l \<le> 100"
  shows "rebalanced n st en fl l r (rebalance (Node n st en fl h l r))"
proof -
  obtain ln lst len lfl lh ll lr where l: "l = Node ln lst len lfl lh ll lr"
    using assms(3) by (cases l) auto
  show ?thesis
  proof (cases "ht ll < ht lr")
    case False
    then have "ht ll = ht r + 1" "ht lr \<le> ht ll" "ht r \<le> ht lr" using assms l by auto
    then show ?thesis
      using assms l by (simp add: rebalance_simps del: node_refresh_height.simps)
  next
    case True
    then have h: "ht lr = ht r + 1" "ht ll = ht r" using assms l by auto
    then obtain mn mst men mfl mh ml mr where lr: "lr = Node mn mst men mfl mh ml mr"
      by (cases lr) auto
    show ?thesis
    proof (cases "ht ml \<le> ht mr")
      case True
      then have "ht mr = ht r" "ht r \<le> Suc (ht ml)" "ht ml \<le> ht r" using h assms l lr by auto
      then show ?thesis
        using assms l lr h by (simp add: rebalance_simps del: node_refresh_height.simps)
    next
      case False
      then have "ht ml = ht r" "ht r \<le> Suc (ht mr)" "ht mr \<le> ht r" using h assms l lr by auto
      then show ?thesis
        using assms l lr h by (simp add: rebalance_simps del: node_refresh_height.simps)
    qed
  qed
qed

lemma rebalanced_right_heavy:
  assumes "avl l" "avl r" "ht r = ht l + 2" "ht r \<le> 100"
  shows "rebalanced n st en fl l r (rebalance (Node n st en fl h l r))"
proof -
  obtain rn rst ren rfl rh rl rr where r: "r = Node rn rst ren rfl rh rl rr"
    using assms(3) by (cases r) auto
  show ?thesis
  proof (cases "ht rr < ht rl")
    case False
    then have "ht rr = ht l + 1" "ht rl \<le> ht rr" "ht l \<le> ht rl" using assms r by auto
    then show ?thesis
      using assms r by (simp add: rebalance_simps del: node_refresh_height.simps)
  next
    case True
    then have h: "ht rl = ht l + 1" "ht rr = ht l" using assms r by auto
    then obtain mn mst men mfl mh ml mr where rl: "rl = Node mn mst men mfl mh ml mr"
      by (cases rl) auto
    show ?thesis
    proof (cases "ht ml \<le> ht mr")
      case True
      then have "ht mr = ht l" "ht l \<le> Suc (ht ml)" "ht ml \<le> ht l" using h assms r rl by auto
      then show ?thesis
        using assms r rl h by (simp add: rebalance_simps del: node_refresh_height.simps)
    next
      case False
      then have "ht ml = ht l" "ht l \<le> Suc (ht mr)" "ht mr \<le> ht l" using h assms r rl by auto
      then show ?thesis
        using assms r rl h by (simp add: rebalance_simps del: node_refresh_height.simps)
    qed
  qed
qed

lemma rebalance_spec:
  assumes "avl l" "avl r" "ht l \<le> ht r + 2" "ht r \<le> ht l + 2" "ht l \<le> 100" "ht r \<le> 100"
  shows "rebalanced n st en fl l r (rebalance (Node n st en fl h l r))"
proof -
  consider "ht l = ht r + 2" | "ht r = ht l + 2" | "ht l \<le> ht r + 1" "ht r \<le> ht l + 1"
    using assms(3,4) by linarith
  then show ?thesis
    using assms rebalanced_left_heavy rebalanced_right_heavy rebalanced_level by cases blast+
qed

lemma avl_size: "avl t \<Longrightarrow> 2 ^ (ht t div 2) \<le> Suc (length (areas t))"
proof (induction t)
  case (Node n st en fl h l r)
  have "2 ^ ((ht (Node n st en fl h l r)) div 2) \<le> (2::nat) * 2 ^ (min (ht l) (ht r) div 2)"
  proof -
    have "Suc (max (ht l) (ht r)) div 2 \<le> Suc (min (ht l) (ht r) div 2)"
      using Node.prems by (auto simp: max_def min_def)
    then have "(2::nat) ^ (Suc (max (ht l) (ht r)) div 2) \<le> 2 ^ Suc (min (ht l) (ht r) div 2)"
      by (rule power_increasing) simp
    then show ?thesis by simp
  qed
  also have "\<dots> \<le> 2 ^ (ht l div 2) + 2 ^ (ht r div 2)"
  proof -
    have "(2::nat) ^ (min (ht l) (ht r) div 2) \<le> 2 ^ (ht l div 2)"
      "(2::nat) ^ (min (ht l) (ht r) div 2) \<le> 2 ^ (ht r div 2)"
      by (intro power_increasing div_le_mono; simp)+
    then show ?thesis by linarith
  qed
  also have "\<dots> \<le> Suc (length (areas l)) + Suc (length (areas r))"
    using Node by (intro add_mono) auto
  finally show ?case by simp
qed simp

lemma avl_height_bound:
  assumes "avl t" "length (areas t) \<le> VMA_MAX_NODES"
  shows "ht t \<le> 23"
proof (rule ccontr)
  assume "\<not> ht t \<le> 23"
  then have "12 \<le> ht t div 2" by simp
  then have "(2::nat) ^ 12 \<le> 2 ^ (ht t div 2)" by (rule power_increasing) simp
  with avl_size [OF assms(1)] assms(2) show False by (simp add: VMA_MAX_NODES_def)
qed

lemma size_slots: "size (slots t) = length (areas t)"
  by (induction t) auto

subsection \<open>Insertion\<close>

fun insert_area :: "u32 \<times> u32 \<times> u32 \<Rightarrow> (u32 \<times> u32 \<times> u32) list \<Rightarrow> (u32 \<times> u32 \<times> u32) list" where
  "insert_area x [] = [x]"
| "insert_area x (y # ys) = (if area_before x y then x # y # ys else y # insert_area x ys)"

lemma insert_area_left:
  "area_before x y \<Longrightarrow> insert_area x (xs @ y # ys) = insert_area x xs @ y # ys"
  by (induction xs) auto

lemma insert_area_right:
  "\<forall>a\<in>set xs. \<not> area_before x a \<Longrightarrow> insert_area x (xs @ ys) = xs @ insert_area x ys"
  by (induction xs) auto

lemma wf_areas_node:
  "wf_areas (areas l @ (st, en, fl) # areas r) \<longleftrightarrow>
     wf_areas (areas l) \<and> wf_areas (areas r) \<and> st < en \<and>
     (\<forall>a\<in>set (areas l). fst (snd a) \<le> st) \<and> (\<forall>a\<in>set (areas r). en \<le> fst a)"
  unfolding wf_areas_def sorted_wrt_append_mid area_before_def
  by (fastforce dest: bspec order.trans less_imp_le)

definition fresh :: "nat \<Rightarrow> u32 \<Rightarrow> u32 \<Rightarrow> u32 \<Rightarrow> vma_node" where
  "fresh n st en fl = Node n st en fl 1 Null Null"

lemma node_insert_fail: "node_insert t nd = (t', False) \<Longrightarrow> t' = t"
  by (induction t arbitrary: t') (auto simp: Let_def split: if_splits prod.splits)

lemma node_insert_iff:
  assumes "wf_areas (areas t)" "a < b"
  shows "snd (node_insert t (fresh m a b f)) \<longleftrightarrow> (\<forall>x\<in>set (areas t). \<not> area_overlaps a b x)"
  using assms(1)
proof (induction t)
  case Null
  then show ?case by simp
next
  case (Node n st en fl h l r)
  then have wf: "wf_areas (areas l)" "wf_areas (areas r)" "st < en"
    "\<forall>x\<in>set (areas l). fst (snd x) \<le> st" "\<forall>x\<in>set (areas r). en \<le> fst x"
    by (simp_all add: wf_areas_node)
  have "b \<le> st \<Longrightarrow> \<forall>x\<in>set (areas r). \<not> area_overlaps a b x"
    "en \<le> a \<Longrightarrow> \<forall>x\<in>set (areas l). \<not> area_overlaps a b x"
    using wf by (fastforce simp: area_overlaps_def)+
  moreover have "area_overlaps a b (st, en, fl) \<longleftrightarrow> \<not> b \<le> st \<and> \<not> en \<le> a"
    by (auto simp: area_overlaps_def not_le)
  ultimately show ?case
    using Node.IH wf(1,2) by (auto simp: fresh_def Let_def split: prod.splits)
qed

text \<open>\<open>t'\<close> is \<open>t\<close> with the area \<open>x\<close> added in pool slot \<open>m\<close>.\<close>

definition inserted_into :: "nat \<Rightarrow> u32 \<times> u32 \<times> u32 \<Rightarrow> vma_node \<Rightarrow> vma_node \<Rightarrow> bool" where
  "inserted_into m x t t' \<longleftrightarrow>
     avl t' \<and> areas t' = insert_area x (areas t) \<and> slots t' = add_mset m (slots t) \<and>
     ht t \<le> ht t' \<and> ht t' \<le> Suc (ht t)"

lemma inserted_into_left:
  assumes "avl (Node n st en fl h l r)" "ht l \<le> 90" "ht r \<le> 90"
    "area_before x (st, en, fl)" "inserted_into m x l l'"
  shows "inserted_into m x (Node n st en fl h l r) (rebalance (Node n st en fl h l' r))"
proof -
  have "rebalanced n st en fl l' r (rebalance (Node n st en fl h l' r))"
    using assms by (intro rebalance_spec) (auto simp: inserted_into_def)
  then show ?thesis
    using assms by (auto simp: inserted_into_def rebalanced_def insert_area_left max_def split: if_splits)
qed

lemma inserted_into_right:
  assumes "avl (Node n st en fl h l r)" "ht l \<le> 90" "ht r \<le> 90"
    "\<forall>y\<in>set (areas l @ [(st, en, fl)]). \<not> area_before x y" "inserted_into m x r r'"
  shows "inserted_into m x (Node n st en fl h l r) (rebalance (Node n st en fl h l r'))"
proof -
  have "rebalanced n st en fl l r' (rebalance (Node n st en fl h l r'))"
    using assms by (intro rebalance_spec) (auto simp: inserted_into_def)
  then show ?thesis
    using assms insert_area_right [OF assms(4), of "areas r"]
    by (auto simp: inserted_into_def rebalanced_def max_def split: if_splits)
qed

lemma node_insert_ok:
  assumes "avl t" "wf_areas (areas t)" "length (areas t) \<le> VMA_MAX_NODES" "a < b"
    "node_insert t (fresh m a b f) = (t', True)"
  shows "inserted_into m (a, b, f) t t'"
  using assms
proof (induction t arbitrary: t')
  case Null
  then show ?case by (auto simp: fresh_def inserted_into_def)
next
  case (Node n st en fl h l r)
  have wf: "wf_areas (areas l)" "wf_areas (areas r)" "st < en"
    "\<forall>x\<in>set (areas l). fst (snd x) \<le> st"
    using Node.prems(2) by (simp_all add: wf_areas_node)
  have wfl: "\<forall>x\<in>set (areas l). fst x < fst (snd x)" using wf(1) by (simp add: wf_areas_def)
  have small: "length (areas l) \<le> VMA_MAX_NODES" "length (areas r) \<le> VMA_MAX_NODES"
    using Node.prems(3) by auto
  have av: "avl l" "avl r" using Node.prems(1) by auto
  then have hb: "ht l \<le> 90" "ht r \<le> 90"
    using avl_height_bound small by fastforce+
  show ?case
  proof (cases "b \<le> st")
    case True
    then obtain l' where l': "node_insert l (fresh m a b f) = (l', True)"
      and t': "t' = rebalance (Node n st en fl h l' r)"
      using Node.prems(5) by (auto simp: fresh_def Let_def split: prod.splits if_splits)
    have "inserted_into m (a, b, f) l l'"
      using Node.IH(1) av wf small \<open>a < b\<close> l' by blast
    moreover have "area_before (a, b, f) (st, en, fl)" using True by (simp add: area_before_def)
    ultimately show ?thesis
      using inserted_into_left Node.prems(1) hb t' by blast
  next
    case False
    then obtain r' where r': "node_insert r (fresh m a b f) = (r', True)"
      and t': "t' = rebalance (Node n st en fl h l r')" and "en \<le> a"
      using Node.prems(5) by (auto simp: fresh_def Let_def split: prod.splits if_splits)
    have "inserted_into m (a, b, f) r r'"
      using Node.IH(2) av wf small \<open>a < b\<close> r' by blast
    moreover have "\<forall>y\<in>set (areas l @ [(st, en, fl)]). \<not> area_before (a, b, f) y"
      using False \<open>en \<le> a\<close> wf wfl \<open>a < b\<close> by (fastforce simp: area_before_def)
    ultimately show ?thesis
      using inserted_into_right Node.prems(1) hb t' by blast
  qed
qed

subsection \<open>Removal\<close>

definition delete_area :: "u32 \<Rightarrow> u32 \<Rightarrow> (u32 \<times> u32 \<times> u32) list \<Rightarrow> (u32 \<times> u32 \<times> u32) list" where
  "delete_area st en xs = filter (\<lambda>x. \<not> (fst x = st \<and> fst (snd x) = en)) xs"

definition has_area :: "u32 \<Rightarrow> u32 \<Rightarrow> (u32 \<times> u32 \<times> u32) list \<Rightarrow> bool" where
  "has_area st en xs \<longleftrightarrow> (\<exists>x\<in>set xs. fst x = st \<and> fst (snd x) = en)"

lemma delete_area_absent: "\<not> has_area st en xs \<Longrightarrow> delete_area st en xs = xs"
  by (auto simp: delete_area_def has_area_def intro: filter_True)

lemma delete_area_append: "delete_area st en (xs @ ys) = delete_area st en xs @ delete_area st en ys"
  by (simp add: delete_area_def)

lemma delete_area_Nil: "delete_area st en [] = []"
  by (simp add: delete_area_def)

lemma delete_area_Cons:
  "delete_area st en (x # xs) =
     (if fst x = st \<and> fst (snd x) = en then delete_area st en xs else x # delete_area st en xs)"
  by (auto simp: delete_area_def)

lemmas delete_area_simps = delete_area_Nil delete_area_Cons delete_area_append delete_area_absent

lemma length_delete_area: "length (delete_area st en xs) \<le> length xs"
  by (simp add: delete_area_def)

lemma wf_delete_area: "wf_areas xs \<Longrightarrow> wf_areas (delete_area st en xs)"
  by (auto simp: wf_areas_def delete_area_def sorted_wrt_filter)

lemma leftmost_areas:
  "t \<noteq> Null \<Longrightarrow> \<exists>rest. areas t =
     (area_start (node_leftmost t), area_end (node_leftmost t), area_flags (node_leftmost t)) # rest
     \<and> node_leftmost t \<noteq> Null"
  by (induction t) auto

lemma delete_area_hd:
  assumes "wf_areas ((a, b, f) # xs)"
  shows "delete_area a b ((a, b, f) # xs) = xs"
proof -
  have "\<forall>x\<in>set xs. a < fst x"
    using assms by (fastforce simp: wf_areas_def area_before_def)
  then show ?thesis by (auto simp: delete_area_def intro: filter_True)
qed

text \<open>\<open>t'\<close> and \<open>p'\<close> are \<open>t\<close> and \<open>p\<close> after the area from \<open>st\<close> to \<open>en\<close>, if present, is gone.\<close>

definition removed_from ::
  "u32 \<Rightarrow> u32 \<Rightarrow> vma_node \<Rightarrow> vma_pool \<Rightarrow> vma_node \<Rightarrow> vma_pool \<Rightarrow> bool" where
  "removed_from st en t p t' p' \<longleftrightarrow>
     avl t' \<and> areas t' = delete_area st en (areas t) \<and>
     slots t' + mset (free_nodes p') = slots t + mset (free_nodes p) \<and>
     pool_initialized p' = pool_initialized p \<and> ht t' \<le> ht t \<and> ht t \<le> Suc (ht t')"

lemma removed_from_refl:
  "avl t \<Longrightarrow> \<not> has_area st en (areas t) \<Longrightarrow> removed_from st en t p t p"
  by (simp add: removed_from_def delete_area_absent)

lemma removed_from_left:
  assumes "avl (Node n a b fl h l r)" "ht l \<le> 90" "ht r \<le> 90"
    "\<not> has_area st en ((a, b, fl) # areas r)" "removed_from st en l p l' p'"
  shows "removed_from st en (Node n a b fl h l r) p (rebalance (Node n a b fl h l' r)) p'"
proof -
  have "rebalanced n a b fl l' r (rebalance (Node n a b fl h l' r))"
    using assms by (intro rebalance_spec) (auto simp: removed_from_def)
  then show ?thesis
    using assms
    by (auto simp: removed_from_def rebalanced_def delete_area_append delete_area_absent max_def
        split: if_splits)
qed

lemma removed_from_right:
  assumes "avl (Node n a b fl h l r)" "ht l \<le> 90" "ht r \<le> 90"
    "\<not> has_area st en (areas l @ [(a, b, fl)])" "removed_from st en r p r' p'"
  shows "removed_from st en (Node n a b fl h l r) p (rebalance (Node n a b fl h l r')) p'"
proof -
  have del: "delete_area st en (areas l @ (a, b, fl) # areas r)
      = areas l @ (a, b, fl) # delete_area st en (areas r)"
    using delete_area_absent [OF assms(4)] delete_area_append [of st en "areas l @ [(a, b, fl)]" "areas r"]
    by simp
  have "rebalanced n a b fl l r' (rebalance (Node n a b fl h l r'))"
    using assms by (intro rebalance_spec) (auto simp: removed_from_def)
  then show ?thesis
    using assms(1,5) by (auto simp: removed_from_def rebalanced_def del max_def split: if_splits)
qed

text \<open>The two-child case: the successor's area moves up and its node is dropped from the right.\<close>

lemma removed_from_middle:
  assumes "avl (Node n a b fl h l r)" "ht l \<le> 90" "ht r \<le> 90"
    "wf_areas (areas l @ (a, b, fl) # areas r)"
    "areas r = (sa, sb, sf) # rest" "removed_from sa sb r p r' p'"
  shows "removed_from a b (Node n a b fl h l r) p (rebalance (Node n sa sb sf h l r')) p'"
proof -
  have wf: "wf_areas (areas r)" "\<forall>x\<in>set (areas l). fst (snd x) \<le> a" "a < b"
    "\<forall>x\<in>set (areas r). b \<le> fst x" "wf_areas (areas l)"
    using assms(4) by (simp_all add: wf_areas_node)
  then have "\<forall>x\<in>set (areas l). fst x < a" "\<forall>x\<in>set (areas r). a < fst x"
    by (fastforce simp: wf_areas_def)+
  then have "\<not> has_area a b (areas l)" "\<not> has_area a b (areas r)"
    by (fastforce simp: has_area_def)+
  then have del: "delete_area a b (areas l @ (a, b, fl) # areas r) = areas l @ areas r"
    by (simp add: delete_area_simps)
  have rest: "areas r' = rest"
    using assms(5,6) wf(1) delete_area_hd by (simp add: removed_from_def)
  then have "delete_area a b (areas l @ (a, b, fl) # (sa, sb, sf) # areas r')
      = areas l @ (sa, sb, sf) # areas r'"
    using del assms(5) by simp
  moreover have "rebalanced n sa sb sf l r' (rebalance (Node n sa sb sf h l r'))"
    using assms by (intro rebalance_spec) (auto simp: removed_from_def)
  ultimately show ?thesis
    using assms(1,5,6) rest
    by (auto simp: removed_from_def rebalanced_def max_def split: if_splits)
qed

lemma removed_from_leaf:
  assumes "avl (Node n a b fl h l r)" "l = Null \<or> r = Null"
    "\<not> has_area a b (areas l)" "\<not> has_area a b (areas r)"
  shows "removed_from a b (Node n a b fl h l r) p (if l \<noteq> Null then l else r)
           (node_free (Node n a b fl h l r) p)"
  using assms
  by (auto simp: removed_from_def delete_area_simps)

lemma has_area_node:
  assumes "wf_areas (areas l @ (a, b, fl) # areas r)"
  shows "st < a \<Longrightarrow> \<not> has_area st en ((a, b, fl) # areas r)"
    and "st > a \<Longrightarrow> \<not> has_area st en (areas l @ [(a, b, fl)])"
    and "\<not> has_area a en (areas l)" and "\<not> has_area a en (areas r)"
proof -
  have "wf_areas (areas l)" "a < b" "\<forall>x\<in>set (areas l). fst (snd x) \<le> a" "\<forall>x\<in>set (areas r). b \<le> fst x"
    using assms by (simp_all add: wf_areas_node)
  then have starts: "\<forall>x\<in>set (areas l). fst x < a" "\<forall>x\<in>set (areas r). a < fst x"
    by (fastforce simp: wf_areas_def)+
  then show "st < a \<Longrightarrow> \<not> has_area st en ((a, b, fl) # areas r)"
    "st > a \<Longrightarrow> \<not> has_area st en (areas l @ [(a, b, fl)])"
    "\<not> has_area a en (areas l)" "\<not> has_area a en (areas r)"
    by (fastforce simp: has_area_def)+
qed

lemma has_area_append: "has_area st en (xs @ ys) \<longleftrightarrow> has_area st en xs \<or> has_area st en ys"
  by (auto simp: has_area_def)

lemma has_area_Cons:
  "has_area st en (x # ys) \<longleftrightarrow> fst x = st \<and> fst (snd x) = en \<or> has_area st en ys"
  by (auto simp: has_area_def)

lemma node_remove_ok:
  assumes "avl t" "wf_areas (areas t)" "length (areas t) \<le> VMA_MAX_NODES"
    "node_remove t st en False p = (t', rem, p')"
  shows "removed_from st en t p t' p' \<and> (rem \<longleftrightarrow> has_area st en (areas t))"
  using assms
proof (induction t arbitrary: st en p t' rem p')
  case Null
  then show ?case by (auto simp: removed_from_def delete_area_def has_area_def)
next
  case (Node n a b fl h l r)
  have wf: "wf_areas (areas l @ (a, b, fl) # areas r)" "wf_areas (areas l)" "wf_areas (areas r)"
    using Node.prems(2) by (simp_all add: wf_areas_node)
  note no = has_area_node [OF wf(1)]
  have small: "length (areas l) \<le> VMA_MAX_NODES" "length (areas r) \<le> VMA_MAX_NODES"
    using Node.prems(3) by auto
  have av: "avl l" "avl r" using Node.prems(1) by auto
  then have hb: "ht l \<le> 90" "ht r \<le> 90"
    using avl_height_bound small by fastforce+
  note IH = Node.IH(1) [OF av(1) wf(2) small(1)] Node.IH(2) [OF av(2) wf(3) small(2)]
  consider (lt) "st < a" | (gt) "st > a" | (other) "st = a" "en \<noteq> b"
    | (leaf) "st = a" "en = b" "l = Null \<or> r = Null" | (two) "st = a" "en = b" "l \<noteq> Null" "r \<noteq> Null"
    by fastforce
  then show ?case
  proof cases
    case lt
    then obtain l' where "node_remove l st en False p = (l', rem, p')"
      "t' = rebalance (Node n a b fl h l' r)"
      using Node.prems(4) by (auto split: prod.splits)
    then show ?thesis
      using removed_from_left [OF Node.prems(1) hb no(1)] IH(1) no(1) lt
      by (auto simp: has_area_append)
  next
    case gt
    then have "\<not> st < a" by auto
    with gt obtain r' where "node_remove r st en False p = (r', rem, p')"
      "t' = rebalance (Node n a b fl h l r')"
      using Node.prems(4) by (auto split: prod.splits)
    then show ?thesis
      using removed_from_right [OF Node.prems(1) hb no(2)] IH(2) no(2) gt
      by (auto simp: has_area_append has_area_Cons)
  next
    case other
    then have "\<not> has_area st en (areas (Node n a b fl h l r))"
      using no by (auto simp: has_area_append has_area_Cons)
    then show ?thesis
      using removed_from_refl [OF Node.prems(1)] Node.prems(4) other by auto
  next
    case leaf
    then show ?thesis
      using removed_from_leaf [OF Node.prems(1) _ no(3,4)] Node.prems(4)
      by (auto simp: has_area_append has_area_Cons)
  next
    case two
    define s where "s = node_leftmost r"
    obtain rest where rest: "areas r = (area_start s, area_end s, area_flags s) # rest"
      using leftmost_areas [OF two(4)] by (auto simp: s_def)
    obtain r' d where "node_remove r (area_start s) (area_end s) False p = (r', d, p')"
      "t' = rebalance (Node n (area_start s) (area_end s) (area_flags s) h l r')" "rem"
      using Node.prems(4) two by (auto simp: s_def Let_def split: prod.splits)
    then show ?thesis
      using removed_from_middle [OF Node.prems(1) hb wf(1) rest] IH(2) two
      by (auto simp: has_area_append has_area_Cons)
  qed
qed

lemma release_subtree_pool:
  "mset (free_nodes (node_release_subtree t p)) = slots t + mset (free_nodes p) \<and>
   pool_initialized (node_release_subtree t p) = pool_initialized p"
  by (induction t arbitrary: p) auto

subsection \<open>Lookup\<close>

lemma node_find_list:
  "wf_areas (areas t) \<Longrightarrow>
     node_find t x = List.find (\<lambda>(st, en, fl). st \<le> x \<and> x < en) (areas t)"
proof (induction t)
  case (Node n a b fl h l r)
  then have wf: "wf_areas (areas l)" "wf_areas (areas r)" "a < b"
    "\<forall>y\<in>set (areas l). fst (snd y) \<le> a" "\<forall>y\<in>set (areas r). b \<le> fst y"
    by (simp_all add: wf_areas_node)
  have "x < a \<Longrightarrow> List.find (\<lambda>(st, en, fl). st \<le> x \<and> x < en) ((a, b, fl) # areas r) = None"
    using wf by (fastforce simp: find_None_iff)
  moreover have "a \<le> x \<Longrightarrow> List.find (\<lambda>(st, en, fl). st \<le> x \<and> x < en) (areas l) = None"
    using wf by (fastforce simp: find_None_iff)
  ultimately show ?case
    using Node.IH wf by (auto simp: find_append not_less split: option.splits)
qed simp

end
