(* ===== verification/Vma_Gap.thy ===== *)
theory Vma_Gap
  imports Vma_Tree
begin

text \<open>
  The first-fit gap search of \<^verbatim>\<open>kernel/kernel/vma.c\<close> (\<open>vma_tree_find_gap\<close>): rounding to an
  alignment on 32-bit words, the in-order traversal as a scan of the list of areas, and the invariant
  of its cursor, which gives that the result is the least aligned address of the range with
  enough room.
\<close>

section \<open>The gap search\<close>

text \<open>Rounding up in natural numbers; \<open>vma_align_up_u32\<close> is 0 when the result needs 33 bits.\<close>

definition round_up :: "nat \<Rightarrow> nat \<Rightarrow> nat" where
  "round_up al n = (n + al - 1) div al * al"

lemma round_up_ge: "0 < al \<Longrightarrow> n \<le> round_up al n"
proof -
  assume "0 < al"
  have "(n + al - 1) mod al \<le> al - 1" using \<open>0 < al\<close> by (simp add: less_Suc_eq_le [symmetric])
  moreover have "(n + al - 1) div al * al + (n + al - 1) mod al = n + al - 1" by simp
  ultimately show ?thesis using \<open>0 < al\<close> unfolding round_up_def by linarith
qed

lemma round_up_dvd: "al dvd round_up al n"
  by (simp add: round_up_def)

lemma round_up_least: "0 < al \<Longrightarrow> al dvd m \<Longrightarrow> n \<le> m \<Longrightarrow> round_up al n \<le> m"
proof -
  assume "0 < al" "al dvd m" "n \<le> m"
  then obtain q where q: "m = al * q" by blast
  have "(n + al - 1) div al \<le> ((al - 1) + al * q) div al"
    using \<open>n \<le> m\<close> \<open>0 < al\<close> q by (intro div_le_mono) simp
  also have "\<dots> = q" using \<open>0 < al\<close> div_mult_self2 [of al "al - 1" q] by simp
  finally show ?thesis using q by (simp add: round_up_def mult.commute)
qed

lemma unat_vma_align_up:
  assumes "al \<noteq> 0" "al AND (al - 1) = 0"
  shows "unat (vma_align_up_u32 v al) =
    (if round_up (unat al) (unat v) < 2 ^ 32 then round_up (unat al) (unat v) else 0)"
proof -
  obtain k where k: "k < 32" "unat al = 2 ^ k"
    using word_pow2_of_and_pred [OF assms] by auto
  show ?thesis
  proof (cases "al \<le> 1")
    case True
    then have "al = 1" using assms(1) by (metis le_zero_eq linorder_le_less_linear order.antisym word_less_1 word_zero_le)
    then show ?thesis using unat_u32_less [of v] by (simp add: vma_align_up_u32_def round_up_def)
  next
    case False
    define A where "A = ((ucast v :: u64) + ucast al - 1) AND NOT ((ucast al :: u64) - 1)"
    have al64: "(ucast al :: u64) = 2 ^ k"
    proof -
      have "unat (ucast al :: u64) = 2 ^ k" using k by (simp add: unat_u64_of_u32)
      then show ?thesis by (rule word_eq_pow2)
    qed
    have s: "unat ((ucast v :: u64) + ucast al - 1) = unat v + 2 ^ k - 1"
    proof -
      have "(ucast v :: u64) + ucast al \<noteq> 0"
        using unat_u64_add_u32 [of v al] k by (metis add_is_0 power_not_zero unat_0 zero_neq_numeral)
      then have "unat ((ucast v :: u64) + ucast al - 1) = unat ((ucast v :: u64) + ucast al) - 1"
        by (simp add: unat_minus_one)
      then show ?thesis by (simp add: unat_u64_add_u32 k)
    qed
    have "(ucast al :: u64) - 1 = mask k" by (simp add: al64 mask_eq_decr_exp)
    then have A: "unat A = round_up (unat al) (unat v)"
      unfolding A_def by (simp add: unat_and_not_mask s round_up_def k minus_mod_eq_div_mult)
    have "A > 0xFFFFFFFF \<longleftrightarrow> \<not> unat A < 2 ^ 32" by (simp add: word_less_nat_alt) linarith
    moreover have "unat A < 2 ^ 32 \<Longrightarrow> unat (ucast A :: u32) = unat A"
      by (simp add: unsigned_ucast_eq take_bit_nat_eq_self_iff)
    ultimately show ?thesis
      using False A by (auto simp: vma_align_up_u32_def Let_def simp flip: A_def)
  qed
qed

lemma add_fits_limit_iff: "add_fits_limit st len limit \<longleftrightarrow> unat st + unat len \<le> unat limit"
  by (simp add: add_fits_limit_def word_le_nat_alt unat_u64_add_u32 unat_u64_of_u32)

text \<open>The recursion is a scan of the in-order list that stops once \<open>found\<close> is set.\<close>

fun gap_scan :: "(u32 \<times> u32 \<times> u32) list \<Rightarrow> gap_search_state \<Rightarrow> gap_search_state" where
  "gap_scan [] s = s"
| "gap_scan (x # xs) s = (if found s then s else gap_scan xs (gap_search_visit (fst x) (fst (snd x)) s))"

lemma gap_scan_found: "found s \<Longrightarrow> gap_scan xs s = s"
  by (cases xs) auto

lemma gap_scan_append: "gap_scan (xs @ ys) s = gap_scan ys (gap_scan xs s)"
  by (induction xs arbitrary: s) (auto simp: gap_scan_found)

lemma gap_search_scan: "gap_search_in_order t s = gap_scan (areas t) s"
  by (induction t arbitrary: s) (auto simp: gap_scan_append gap_scan_found Let_def)

text \<open>\<open>p\<close> is a free, aligned position for \<open>len\<close> bytes between \<open>lo\<close> and \<open>hi\<close>.\<close>

definition gap_at :: "(u32 \<times> u32 \<times> u32) list \<Rightarrow> u32 \<Rightarrow> u32 \<Rightarrow> u32 \<Rightarrow> u32 \<Rightarrow> nat \<Rightarrow> bool" where
  "gap_at xs lo hi len al p \<longleftrightarrow>
     unat lo \<le> p \<and> unat al dvd p \<and> p + unat len \<le> unat hi \<and>
     (\<forall>x\<in>set xs. p + unat len \<le> unat (fst x) \<or> unat (fst (snd x)) \<le> p)"

definition gap_scan_inv ::
  "(u32 \<times> u32 \<times> u32) list \<Rightarrow> u32 \<Rightarrow> u32 \<Rightarrow> u32 \<Rightarrow> u32 \<Rightarrow> gap_search_state \<Rightarrow> bool" where
  "gap_scan_inv xs lo hi len al s \<longleftrightarrow>
     max_addr s = hi \<and> gap_length s = len \<and> alignment s = al \<and>
     0 < cursor s \<and> lo \<le> cursor s \<and> cursor s \<le> hi \<and>
     (cursor s \<noteq> hi \<longrightarrow> unat al dvd unat (cursor s) \<and> (\<forall>x\<in>set xs. fst (snd x) \<le> cursor s)) \<and>
     (\<forall>p. gap_at xs lo hi len al p \<longrightarrow> unat (cursor s) \<le> p)"

definition first_gap ::
  "(u32 \<times> u32 \<times> u32) list \<Rightarrow> u32 \<Rightarrow> u32 \<Rightarrow> u32 \<Rightarrow> u32 \<Rightarrow> u32 \<Rightarrow> bool" where
  "first_gap xs lo hi len al st \<longleftrightarrow>
     gap_at xs lo hi len al (unat st) \<and> (\<forall>p. gap_at xs lo hi len al p \<longrightarrow> unat st \<le> p)"

lemma gap_at_append:
  "gap_at (xs @ ys) lo hi len al p \<longleftrightarrow> gap_at xs lo hi len al p \<and>
     (\<forall>x\<in>set ys. p + unat len \<le> unat (fst x) \<or> unat (fst (snd x)) \<le> p)"
  by (auto simp: gap_at_def)

lemma gap_fits_first:
  assumes inv: "gap_scan_inv xs lo hi len al s" and "len \<noteq> 0"
    and fits: "unat (cursor s) + unat len \<le> unat hi"
    and later: "\<forall>x\<in>set ys. unat (cursor s) + unat len \<le> unat (fst x)"
  shows "first_gap (xs @ ys) lo hi len al (cursor s)"
proof -
  have "0 < unat len" using \<open>len \<noteq> 0\<close> by (simp add: unat_gt_0)
  then have "cursor s \<noteq> hi" using fits by auto
  then have "gap_at xs lo hi len al (unat (cursor s))"
    using inv fits by (auto simp: gap_scan_inv_def gap_at_def word_le_nat_alt)
  then show ?thesis
    using inv later by (auto simp: first_gap_def gap_at_append gap_scan_inv_def)
qed

lemma gap_visit_advance:
  assumes inv: "gap_scan_inv xs lo hi len al s" and al: "al \<noteq> 0" "al AND (al - 1) = 0"
    and x: "en > cursor s"
    and nofit: "\<not> add_fits_limit (cursor s) len (if st > hi then hi else st)"
  shows "gap_scan_inv (xs @ [(st, en, fl)]) lo hi len al (gap_search_visit st en s)"
proof -
  define c where "c = cursor s"
  define R where "R = round_up (unat al) (unat en)"
  define n0 where "n0 = vma_align_up_u32 en al"
  define c' where "c' = cursor (gap_search_visit st en s)"
  have s: "max_addr s = hi" "gap_length s = len" "alignment s = al" "0 < c" "lo \<le> c" "c \<le> hi"
    "\<forall>p. gap_at xs lo hi len al p \<longrightarrow> unat c \<le> p"
    using inv by (auto simp: gap_scan_inv_def c_def)
  have alpos: "0 < unat al" using al by (simp add: unat_gt_0)
  have n0: "unat n0 = (if R < 2 ^ 32 then R else 0)"
    unfolding n0_def R_def by (rule unat_vma_align_up [OF al])
  have Ren: "unat en \<le> R" unfolding R_def by (rule round_up_ge [OF alpos])
  have cen: "unat c < unat en" using x by (simp add: c_def word_less_nat_alt)
  have c'_eq: "c' = (if R < 2 ^ 32 then (if n0 > hi then hi else n0) else hi)"
    using s n0 Ren cen nofit x
    by (auto simp: c'_def gap_search_visit_def Let_def c_def [symmetric] n0_def [symmetric]
        word_less_nat_alt)
  have le: "unat c \<le> unat c'" "c' \<le> hi"
    using c'_eq s n0 Ren cen by (auto simp: word_le_nat_alt word_less_nat_alt)
  have ends: "c' \<noteq> hi \<Longrightarrow> unat al dvd unat c' \<and> unat en \<le> unat c'"
    using c'_eq n0 Ren round_up_dvd by (auto simp: R_def split: if_splits)
  have low: "unat c' \<le> p" if "gap_at (xs @ [(st, en, fl)]) lo hi len al p" for p
  proof -
    have p: "gap_at xs lo hi len al p" "p + unat len \<le> unat st \<or> unat en \<le> p"
      "unat al dvd p" "p + unat len \<le> unat hi"
      using that by (auto simp: gap_at_append gap_at_def)
    then have "unat c \<le> p" using s by blast
    then have "unat en \<le> p"
      using p nofit by (auto simp: add_fits_limit_iff c_def split: if_splits)
    then have "R \<le> p" unfolding R_def using round_up_least [OF alpos] p by blast
    moreover have "p < 2 ^ 32" using p(4) unat_u32_less [of hi] by simp
    ultimately show ?thesis using c'_eq n0 p(4) by (auto simp: word_less_nat_alt)
  qed
  have "\<forall>y\<in>set xs. fst (snd y) \<le> c'" if "c' \<noteq> hi"
  proof -
    have "c \<noteq> hi" using that le by (metis order.antisym word_le_nat_alt)
    then have "\<forall>y\<in>set xs. fst (snd y) \<le> c" using inv by (auto simp: gap_scan_inv_def c_def)
    then show ?thesis using le by (auto simp: word_le_nat_alt)
  qed
  moreover have "0 < c'" using s le by (auto simp: word_less_nat_alt)
  moreover have "lo \<le> c'" using s le by (auto simp: word_le_nat_alt)
  ultimately show ?thesis
    unfolding gap_scan_inv_def c'_def [symmetric]
    using s le ends low x nofit
    by (auto simp: word_le_nat_alt c'_def [symmetric] gap_search_visit_def Let_def c_def split: if_splits)
qed

lemma gap_visit_skip:
  "gap_scan_inv xs lo hi len al s \<Longrightarrow> \<not> en > cursor s \<Longrightarrow>
     gap_search_visit st en s = s \<and> gap_scan_inv (xs @ [(st, en, fl)]) lo hi len al s"
  by (auto simp: gap_search_visit_def gap_scan_inv_def gap_at_append not_less)

lemma gap_visit_fits:
  assumes "gap_scan_inv xs lo hi len al s" "\<not> found s" "en > cursor s"
    "add_fits_limit (cursor s) len (if st > hi then hi else st)"
  shows "found (gap_search_visit st en s)" "gap_result (gap_search_visit st en s) = cursor s"
  using assms by (auto simp: gap_search_visit_def gap_scan_inv_def)

lemma gap_visit_unfound:
  assumes "gap_scan_inv xs lo hi len al s" "\<not> found s"
    "\<not> add_fits_limit (cursor s) len (if st > hi then hi else st)"
  shows "\<not> found (gap_search_visit st en s)"
  using assms by (auto simp: gap_search_visit_def gap_scan_inv_def Let_def)

lemma gap_scan_result:
  assumes "gap_scan_inv pre lo hi len al s" "\<not> found s" "wf_areas (pre @ xs)"
    "len \<noteq> 0" "al \<noteq> 0" "al AND (al - 1) = 0"
  shows "if found (gap_scan xs s) then first_gap (pre @ xs) lo hi len al (gap_result (gap_scan xs s))
         else gap_scan_inv (pre @ xs) lo hi len al (gap_scan xs s)"
  using assms(1-3)
proof (induction xs arbitrary: pre s)
  case Nil
  then show ?case by simp
next
  case (Cons x xs)
  obtain st en fl where x: "x = (st, en, fl)" by (cases x)
  let ?s = "gap_search_visit st en s"
  have wf: "wf_areas ((pre @ [(st, en, fl)]) @ xs)" using Cons.prems(3) x by simp
  consider (skip) "\<not> en > cursor s"
    | (fits) "en > cursor s" "add_fits_limit (cursor s) len (if st > hi then hi else st)"
    | (adv) "en > cursor s" "\<not> add_fits_limit (cursor s) len (if st > hi then hi else st)"
    by blast
  then show ?case
  proof cases
    case skip
    then have "?s = s" "gap_scan_inv (pre @ [(st, en, fl)]) lo hi len al s"
      using gap_visit_skip [OF Cons.prems(1)] by auto
    then show ?thesis using Cons.IH [OF _ Cons.prems(2) wf] Cons.prems(2) x by (auto split: if_splits)
  next
    case fits
    have le: "unat (cursor s) + unat len \<le> unat hi" "unat (cursor s) + unat len \<le> unat st"
      using fits(2) by (auto simp: add_fits_limit_iff word_less_nat_alt split: if_splits)
    have "\<forall>y\<in>set xs. en \<le> fst y" "st < en"
      using wf by (auto simp: wf_areas_def sorted_wrt_append area_before_def)
    then have "\<forall>y\<in>set (x # xs). unat (cursor s) + unat len \<le> unat (fst y)"
      using le x by (fastforce simp: word_less_nat_alt word_le_nat_alt)
    then have "first_gap (pre @ x # xs) lo hi len al (cursor s)"
      using gap_fits_first [OF Cons.prems(1) assms(4) le(1)] by blast
    then show ?thesis
      using gap_visit_fits [OF Cons.prems(1,2) fits] Cons.prems(2) x by (simp add: gap_scan_found)
  next
    case adv
    then show ?thesis
      using Cons.IH [OF gap_visit_advance [OF Cons.prems(1) assms(5,6) adv]
          gap_visit_unfound [OF Cons.prems(1,2) adv(2)] wf] Cons.prems(2) x by (auto split: if_splits)
  qed
qed

lemma find_gap_spec:
  assumes wf: "wf_areas (areas (root t))" and "0 < lo" "lo < hi" "len \<noteq> 0"
    and al: "al \<noteq> 0" "al AND (al - 1) = 0"
  shows "case vma_tree_find_gap t lo hi len al of
           Some st \<Rightarrow> first_gap (areas (root t)) lo hi len al st
         | None \<Rightarrow> \<forall>p. \<not> gap_at (areas (root t)) lo hi len al p"
proof -
  let ?xs = "areas (root t)"
  define R where "R = round_up (unat al) (unat lo)"
  define c0 where "c0 = vma_align_up_u32 lo al"
  define s0 where "s0 = \<lparr>cursor = c0, max_addr = hi, gap_length = len, alignment = al,
                    gap_result = 0, found = False\<rparr>"
  have alpos: "0 < unat al" "0 < unat len" using al \<open>len \<noteq> 0\<close> by (simp_all add: unat_gt_0)
  have c0: "unat c0 = (if R < 2 ^ 32 then R else 0)"
    unfolding c0_def R_def by (rule unat_vma_align_up [OF al])
  have Rlo: "unat lo \<le> R" unfolding R_def by (rule round_up_ge [OF alpos(1)])
  have Rp: "R \<le> p \<and> p < unat hi" if "gap_at ys lo hi len al p" for p ys
    using that round_up_least [OF alpos(1)] alpos(2) by (auto simp: gap_at_def R_def)
  show ?thesis
  proof (cases "c0 < lo \<or> hi \<le> c0")
    case True
    then have "\<not> gap_at ?xs lo hi len al p" for p
      using Rp [of ?xs p] Rlo c0 unat_u32_less [of hi]
      by (auto simp: word_less_nat_alt word_le_nat_alt split: if_splits)
    then show ?thesis
      using True assms by (auto simp: vma_tree_find_gap_def Let_def c0_def)
  next
    case False
    have "0 < unat lo" using \<open>0 < lo\<close> by (simp add: word_less_nat_alt)
    then have inv0: "gap_scan_inv [] lo hi len al s0"
      using False c0 Rlo Rp round_up_dvd
      by (auto simp: gap_scan_inv_def s0_def R_def word_less_nat_alt word_le_nat_alt split: if_splits)
    let ?s = "gap_scan ?xs s0"
    have "\<not> found s0" by (simp add: s0_def)
    then have res: "if found ?s then first_gap ?xs lo hi len al (gap_result ?s)
               else gap_scan_inv ?xs lo hi len al ?s"
      using gap_scan_result [OF inv0 _ _ assms(4) al, of ?xs] wf by (auto split: if_splits)
    have "first_gap ?xs lo hi len al (cursor ?s)"
      if "\<not> found ?s" "add_fits_limit (cursor ?s) len hi"
      using gap_fits_first [of ?xs lo hi len al ?s "[]"] res that assms(4)
      by (simp add: add_fits_limit_iff)
    moreover have "\<not> gap_at ?xs lo hi len al p"
      if "\<not> found ?s" "\<not> add_fits_limit (cursor ?s) len hi" for p
      using res that by (auto simp: add_fits_limit_iff gap_scan_inv_def gap_at_def)
    ultimately show ?thesis
      using False assms res
      by (auto simp: vma_tree_find_gap_def Let_def c0_def [symmetric] s0_def [symmetric] gap_search_scan)
  qed
qed

end
