(* ===== verification/Vma_Store.thy ===== *)
theory Vma_Store
  imports Vma_Gap
begin

text \<open>
  The exported operations of \<^verbatim>\<open>kernel/kernel/vma.c\<close> against the list of areas they
  maintain, the contract \<open>area_store\<close> that \<^verbatim>\<open>kernel/kernel/paging.c\<close> relies on,
  its interpretation by the tree, and the properties of the component.
\<close>

section \<open>The exported operations\<close>

lemma vma_inv_small: "vma_inv t p \<Longrightarrow> length (areas (root t)) \<le> VMA_MAX_NODES"
proof -
  assume inv: "vma_inv t p"
  have "size (slots (root t) + mset (free_nodes p)) \<le> card {..<VMA_MAX_NODES}"
    using inv by (intro size_le_card) (auto simp: vma_inv_def)
  then show ?thesis by (simp add: size_slots)
qed

lemma node_pool_init_ready: "pool_initialized (node_pool_init p)"
  by (simp add: node_pool_init_def)

lemma fold_Cons_rev: "fold (\<lambda>i fl. i # fl) xs ys = rev xs @ ys"
  by (induction xs arbitrary: ys) auto

lemma vma_inv_pool_init: "vma_inv t p \<Longrightarrow> vma_inv t (node_pool_init p)"
  by (auto simp: vma_inv_def node_pool_init_def fold_Cons_rev count_mset_set'
      split: if_splits)

lemma set_insert_area: "set (insert_area x xs) = insert x (set xs)"
  by (induction xs) auto

lemma length_insert_area: "length (insert_area x xs) = Suc (length xs)"
  by (induction xs) auto

lemma wf_insert_area:
  assumes "wf_areas xs" "a < b" "\<forall>x\<in>set xs. \<not> area_overlaps a b x"
  shows "wf_areas (insert_area (a, b, f) xs)"
  using assms
proof (induction xs)
  case Nil
  then show ?case by (simp add: wf_areas_def)
next
  case (Cons x xs)
  have wf: "wf_areas xs" "fst x < fst (snd x)" "\<forall>y\<in>set xs. fst (snd x) \<le> fst y"
    using Cons.prems(1) by (auto simp: wf_areas_def area_before_def)
  have "b \<le> fst x \<or> fst (snd x) \<le> a"
    using Cons.prems(3) by (auto simp: area_overlaps_def not_less)
  moreover have "b \<le> fst x \<Longrightarrow> \<forall>y\<in>set xs. b \<le> fst y" using wf by fastforce
  ultimately show ?case
    using Cons wf
    by (fastforce simp: wf_areas_def area_before_def set_insert_area)
qed

lemma delete_insert_area:
  assumes "wf_areas xs" "a < b" "\<forall>x\<in>set xs. \<not> area_overlaps a b x"
  shows "delete_area a b (insert_area (a, b, f) xs) = xs"
proof -
  have "\<not> has_area a b xs"
    using assms by (fastforce simp: has_area_def area_overlaps_def wf_areas_def)
  moreover have "delete_area a b (insert_area (a, b, f) ys) = delete_area a b ys" for ys
    by (induction ys) (auto simp: delete_area_simps)
  ultimately show ?thesis by (simp add: delete_area_absent)
qed

lemma vma_tree_insert_cases:
  "vma_tree_insert t p st en fl =
     (if en \<le> st then (False, t, p)
      else case free_nodes (node_pool_init p) of
        [] \<Rightarrow> (False, t, node_pool_init p)
      | n # rest \<Rightarrow>
          let q = (node_pool_init p)\<lparr>free_nodes := rest\<rparr>;
              (rt, ok) = node_insert (root t) (fresh n st en fl)
          in if ok then (True, t\<lparr>root := rt, node_count := node_count t + 1\<rparr>, q)
             else (False, t, node_pool_init p))"
  by (auto simp: vma_tree_insert_def node_alloc_def fresh_def Let_def dest: node_insert_fail
      split: list.splits prod.splits)

lemma vma_tree_insert_ok:
  assumes inv: "vma_inv t p" and ins: "vma_tree_insert t p st en fl = (ok, t', p')"
  shows "vma_inv t' p'"
    and "ok \<longleftrightarrow> st < en \<and> free_nodes (node_pool_init p) \<noteq> [] \<and>
           (\<forall>x\<in>set (areas (root t)). \<not> area_overlaps st en x)"
    and "areas (root t') = (if ok then insert_area (st, en, fl) (areas (root t)) else areas (root t))"
    and "st < en \<Longrightarrow> slots (root t') + mset (free_nodes p') =
           slots (root t) + mset (free_nodes (node_pool_init p))"
proof -
  let ?q = "node_pool_init p"
  have invq: "vma_inv t ?q" using vma_inv_pool_init [OF inv] .
  have t: "avl (root t)" "wf_areas (areas (root t))" "length (areas (root t)) \<le> VMA_MAX_NODES"
    using inv vma_inv_small by (auto simp: vma_inv_def)
  consider (bad) "en \<le> st" | (full) "st < en" "free_nodes ?q = []"
    | (step) n rest where "st < en" "free_nodes ?q = n # rest"
    by (metis list.exhaust not_le)
  then have "vma_inv t' p' \<and> (ok \<longleftrightarrow> st < en \<and> free_nodes ?q \<noteq> [] \<and>
           (\<forall>x\<in>set (areas (root t)). \<not> area_overlaps st en x)) \<and>
     areas (root t') = (if ok then insert_area (st, en, fl) (areas (root t)) else areas (root t)) \<and>
     (st < en \<longrightarrow> slots (root t') + mset (free_nodes p') =
           slots (root t) + mset (free_nodes ?q))"
  proof cases
    case bad
    then show ?thesis using ins inv by (auto simp: vma_tree_insert_cases)
  next
    case full
    then show ?thesis using ins invq by (auto simp: vma_tree_insert_cases not_le [symmetric])
  next
    case step
    obtain rt b where rt: "node_insert (root t) (fresh n st en fl) = (rt, b)" by fastforce
    have b: "b \<longleftrightarrow> (\<forall>x\<in>set (areas (root t)). \<not> area_overlaps st en x)"
      using node_insert_iff [OF t(2) step(1), of n fl] rt by simp
    show ?thesis
    proof (cases b)
      case False
      then have "t' = t" "p' = ?q" "\<not> ok"
        using ins step rt by (auto simp: vma_tree_insert_cases Let_def not_le [symmetric])
      then show ?thesis using invq False b by auto
    next
      case True
      then have "inserted_into n (st, en, fl) (root t) rt"
        using node_insert_ok [OF t step(1), of n fl rt] rt by simp
      moreover have "t' = t\<lparr>root := rt, node_count := node_count t + 1\<rparr>"
        "p' = ?q\<lparr>free_nodes := rest\<rparr>" "ok"
        using ins step rt True by (auto simp: vma_tree_insert_cases Let_def not_le [symmetric])
      ultimately show ?thesis
        using invq step True b wf_insert_area [OF t(2) step(1)] node_pool_init_ready [of p]
        by (auto simp: vma_inv_def inserted_into_def length_insert_area)
    qed
  qed
  then show "vma_inv t' p'"
    "ok \<longleftrightarrow> st < en \<and> free_nodes (node_pool_init p) \<noteq> [] \<and>
           (\<forall>x\<in>set (areas (root t)). \<not> area_overlaps st en x)"
    "areas (root t') = (if ok then insert_area (st, en, fl) (areas (root t)) else areas (root t))"
    "st < en \<Longrightarrow> slots (root t') + mset (free_nodes p') =
           slots (root t) + mset (free_nodes (node_pool_init p))"
    by auto
qed

lemma length_delete_present:
  "wf_areas xs \<Longrightarrow> has_area a b xs \<Longrightarrow> Suc (length (delete_area a b xs)) = length xs"
proof (induction xs)
  case (Cons x xs)
  have wf: "wf_areas xs" "\<forall>y\<in>set xs. fst x < fst y"
    using Cons.prems(1) by (fastforce simp: wf_areas_def area_before_def)+
  then have "fst x = a \<Longrightarrow> \<not> has_area a b xs" by (fastforce simp: has_area_def)
  then show ?case
    using Cons wf by (auto simp: delete_area_simps has_area_Cons)
qed (simp add: has_area_def)

lemma vma_tree_remove_ok:
  assumes inv: "vma_inv t p" and rem: "vma_tree_remove t p st en = (ok, t', p')"
  shows "vma_inv t' p'"
    and "ok \<longleftrightarrow> has_area st en (areas (root t))"
    and "areas (root t') = delete_area st en (areas (root t))"
    and "slots (root t') + mset (free_nodes p') = slots (root t) + mset (free_nodes p)"
    and "pool_initialized p' = pool_initialized p"
proof -
  have t: "avl (root t)" "wf_areas (areas (root t))" "length (areas (root t)) \<le> VMA_MAX_NODES"
    using inv vma_inv_small by (auto simp: vma_inv_def)
  obtain rt b q where r: "node_remove (root t) st en False p = (rt, b, q)" by (metis prod_cases3)
  have rr: "removed_from st en (root t) p rt q" "b \<longleftrightarrow> has_area st en (areas (root t))"
    using node_remove_ok [OF t r] by auto
  have eq: "ok = b" "p' = q" "root t' = rt"
    "node_count t' = (if b then node_count t - 1 else node_count t)"
    using rem r by (auto simp: vma_tree_remove_def Let_def split: if_splits)
  have "root t = Null \<Longrightarrow> rt = Null \<and> q = p" using r by simp
  moreover have "of_nat (length (areas (root t))) - (1 :: u32) =
      of_nat (length (delete_area st en (areas (root t))))" if b
    using length_delete_present [OF t(2)] rr(2) that
    by (metis add_diff_cancel_left' of_nat_Suc)
  ultimately show "vma_inv t' p'"
    using inv rr eq wf_delete_area [OF t(2)] delete_area_absent [of st en "areas (root t)"]
    by (auto simp: vma_inv_def removed_from_def)
  show "ok \<longleftrightarrow> has_area st en (areas (root t))"
    "areas (root t') = delete_area st en (areas (root t))"
    "slots (root t') + mset (free_nodes p') = slots (root t) + mset (free_nodes p)"
    "pool_initialized p' = pool_initialized p"
    using rr eq by (auto simp: removed_from_def)
qed

lemma vma_tree_clear_ok:
  assumes "vma_inv t p" "vma_tree_clear t p = (t', p')"
  shows "vma_inv t' p'" "areas (root t') = []"
    "mset (free_nodes p') = slots (root t) + mset (free_nodes p)"
  using assms release_subtree_pool [of "root t" p]
  by (auto simp: vma_inv_def vma_tree_clear_def wf_areas_def)

lemma first_gap_free:
  assumes gap: "first_gap xs lo hi len al st" and "len \<noteq> 0"
  shows "st < st + len" "\<forall>x\<in>set xs. \<not> area_overlaps st (st + len) x" "lo \<le> st" "st + len \<le> hi"
    "unat al dvd unat st"
proof -
  have g: "unat lo \<le> unat st" "unat st + unat len \<le> unat hi" "unat al dvd unat st"
    "\<forall>x\<in>set xs. unat st + unat len \<le> unat (fst x) \<or> unat (fst (snd x)) \<le> unat st"
    using gap by (auto simp: first_gap_def gap_at_def)
  have sum: "unat (st + len) = unat st + unat len"
    using g(2) unat_u32_less [of hi] by (intro unat_add_lem [THEN iffD1]) simp
  have "0 < unat len" using assms(2) by (simp add: unat_gt_0)
  then show "st < st + len" "lo \<le> st" "st + len \<le> hi" "unat al dvd unat st"
    using g sum by (simp_all add: word_less_nat_alt word_le_nat_alt)
  show "\<forall>x\<in>set xs. \<not> area_overlaps st (st + len) x"
    using g(4) sum by (force simp: area_overlaps_def word_less_nat_alt)
qed

section \<open>The contract of an area store\<close>

text \<open>What \<open>kernel/kernel/paging.c\<close> relies on: a store of disjoint areas in address
  order, with the first-fit search.\<close>

locale area_store =
  fixes valid :: "'s \<Rightarrow> bool"
    and contents :: "'s \<Rightarrow> (u32 \<times> u32 \<times> u32) list"
    and room :: "'s \<Rightarrow> bool"
    and ins :: "'s \<Rightarrow> u32 \<Rightarrow> u32 \<Rightarrow> u32 \<Rightarrow> bool \<times> 's"
    and del :: "'s \<Rightarrow> u32 \<Rightarrow> u32 \<Rightarrow> bool \<times> 's"
    and look :: "'s \<Rightarrow> u32 \<Rightarrow> (u32 \<times> u32 \<times> u32) option"
    and gap :: "'s \<Rightarrow> u32 \<Rightarrow> u32 \<Rightarrow> u32 \<Rightarrow> u32 \<Rightarrow> u32 option"
  assumes contents_wf: "valid s \<Longrightarrow> wf_areas (contents s)"
    and ins_valid: "valid s \<Longrightarrow> ins s a b f = (c, s') \<Longrightarrow> valid s'"
    and ins_iff: "valid s \<Longrightarrow> ins s a b f = (c, s') \<Longrightarrow>
          c \<longleftrightarrow> a < b \<and> room s \<and> (\<forall>x\<in>set (contents s). \<not> area_overlaps a b x)"
    and ins_contents: "valid s \<Longrightarrow> ins s a b f = (c, s') \<Longrightarrow>
          contents s' = (if c then insert_area (a, b, f) (contents s) else contents s)"
    and del_valid: "valid s \<Longrightarrow> del s a b = (c, s') \<Longrightarrow> valid s'"
    and del_iff: "valid s \<Longrightarrow> del s a b = (c, s') \<Longrightarrow> c \<longleftrightarrow> has_area a b (contents s)"
    and del_contents: "valid s \<Longrightarrow> del s a b = (c, s') \<Longrightarrow> contents s' = delete_area a b (contents s)"
    and look_find: "valid s \<Longrightarrow>
          look s x = List.find (\<lambda>(a, b, f). a \<le> x \<and> x < b) (contents s)"
    and gap_first: "valid s \<Longrightarrow> 0 < lo \<Longrightarrow> lo < hi \<Longrightarrow> len \<noteq> 0 \<Longrightarrow> al \<noteq> 0 \<Longrightarrow> al AND (al - 1) = 0 \<Longrightarrow>
          (case gap s lo hi len al of
             Some st \<Rightarrow> first_gap (contents s) lo hi len al st
           | None \<Rightarrow> \<forall>p. \<not> gap_at (contents s) lo hi len al p)"
begin

lemma ins_del_roundtrip:
  assumes "valid s" "ins s a b f = (True, s')" "del s' a b = (c, s'')"
  shows "c \<and> contents s'' = contents s \<and> valid s''"
proof -
  have free: "a < b" "\<forall>x\<in>set (contents s). \<not> area_overlaps a b x"
    using ins_iff [OF assms(1,2)] by auto
  have v: "valid s'" "contents s' = insert_area (a, b, f) (contents s)"
    using ins_valid ins_contents assms by (simp, metis (full_types))
  then have "has_area a b (contents s')" by (auto simp: has_area_def set_insert_area)
  then show ?thesis
    using del_valid [OF v(1) assms(3)] del_iff [OF v(1) assms(3)] del_contents [OF v(1) assms(3)]
      delete_insert_area [OF contents_wf [OF assms(1)] free] v(2) by simp
qed

lemma look_sound:
  assumes "valid s" "look s x = Some (a, b, f)"
  shows "(a, b, f) \<in> set (contents s) \<and> a \<le> x \<and> x < b"
  using assms by (auto simp: look_find find_Some_iff) (metis nth_mem)

lemma look_complete:
  assumes v: "valid s" and mem: "(a, b, f) \<in> set (contents s)" "a \<le> x" "x < b"
  shows "look s x = Some (a, b, f)"
proof -
  have wf: "wf_areas (contents s)" using contents_wf [OF v] .
  have "look s x \<noteq> None" using v mem by (auto simp: look_find find_None_iff)
  then obtain y where y: "look s x = Some y" by auto
  obtain a' b' f' where y': "y = (a', b', f')" by (cases y)
  have m: "(a', b', f') \<in> set (contents s)" "a' \<le> x" "x < b'"
    using look_sound [OF v] y y' by auto
  obtain us vs where cs: "contents s = us @ (a, b, f) # vs" using mem(1) by (meson split_list)
  have "(a', b', f') \<notin> set us" "(a', b', f') \<notin> set vs"
    using wf mem(2,3) m(2,3) unfolding cs
    by (fastforce simp: wf_areas_def area_before_def sorted_wrt_append)+
  then show ?thesis using m(1) cs y y' by auto
qed

lemma look_after_ins:
  assumes "valid s" "ins s a b f = (True, s')" "a \<le> x" "x < b"
  shows "look s' x = Some (a, b, f)"
proof -
  have "contents s' = insert_area (a, b, f) (contents s)"
    using ins_contents [OF assms(1,2)] by simp
  then show ?thesis
    using look_complete [OF ins_valid [OF assms(1,2)] _ assms(3,4)] by (simp add: set_insert_area)
qed

lemma reserve_gap:
  assumes "valid s" "0 < lo" "lo < hi" "len \<noteq> 0" "al \<noteq> 0" "al AND (al - 1) = 0"
    and "gap s lo hi len al = Some st" "ins s st (st + len) f = (c, s')"
  shows "(c \<longleftrightarrow> room s) \<and> lo \<le> st \<and> st < st + len \<and> st + len \<le> hi \<and> unat al dvd unat st"
proof -
  have "first_gap (contents s) lo hi len al st"
    using gap_first [OF assms(1-6)] assms(7) by simp
  from first_gap_free [OF this assms(4)] show ?thesis
    using ins_iff [OF assms(1,8)] by auto
qed

end

interpretation vma: area_store
  "\<lambda>(t, p). vma_inv t p" "\<lambda>(t, p). areas (root t)" "\<lambda>(t, p). free_nodes (node_pool_init p) \<noteq> []"
  "\<lambda>(t, p) a b f. vma_tree_insert t p a b f" "\<lambda>(t, p) a b. vma_tree_remove t p a b"
  "\<lambda>(t, p) x. vma_tree_find t x" "\<lambda>(t, p) lo hi len al. vma_tree_find_gap t lo hi len al"
proof (unfold_locales, goal_cases)
  case (1 s)
  then show ?case by (auto simp: vma_inv_def)
next
  case (2 s a b f c s')
  then show ?case using vma_tree_insert_ok(1) by (cases s; cases s') auto
next
  case (3 s a b f c s')
  then show ?case using vma_tree_insert_ok(2) by (cases s; cases s') auto
next
  case (4 s a b f c s')
  then show ?case using vma_tree_insert_ok(3) by (cases s; cases s') auto
next
  case (5 s a b c s')
  then show ?case using vma_tree_remove_ok(1) by (cases s; cases s') auto
next
  case (6 s a b c s')
  then show ?case using vma_tree_remove_ok(2) by (cases s; cases s') auto
next
  case (7 s a b c s')
  then show ?case using vma_tree_remove_ok(3) by (cases s; cases s') auto
next
  case (8 s x)
  then show ?case by (auto simp: vma_inv_def vma_tree_find_def node_find_list)
next
  case (9 s lo hi len al)
  then show ?case using find_gap_spec by (cases s) (auto simp: vma_inv_def)
qed

section \<open>Properties\<close>

text \<open>A run of exported operations on one tree and the shared pool.\<close>

datatype vma_op = Insert u32 u32 u32 | Remove u32 u32 | Clear

fun vma_step :: "vma_op \<Rightarrow> vma_tree \<times> vma_pool \<Rightarrow> vma_tree \<times> vma_pool" where
  "vma_step (Insert a b f) (t, p) = snd (vma_tree_insert t p a b f)"
| "vma_step (Remove a b) (t, p) = snd (vma_tree_remove t p a b)"
| "vma_step Clear (t, p) = vma_tree_clear t p"

definition pool_boot :: vma_pool where
  "pool_boot = \<lparr>free_nodes = [], pool_initialized = False\<rparr>"

definition vma_accounted :: "vma_tree \<times> vma_pool \<Rightarrow> bool" where
  "vma_accounted s = (case s of (t, p) \<Rightarrow> vma_inv t p \<and>
     slots (root t) + mset (free_nodes (node_pool_init p)) = mset [0..<VMA_MAX_NODES])"

lemma pool_init_idem: "pool_initialized p \<Longrightarrow> node_pool_init p = p"
  by (simp add: node_pool_init_def)

lemma vma_inv_null: "vma_inv t p \<Longrightarrow> \<not> pool_initialized p \<Longrightarrow> root t = Null \<and> free_nodes p = []"
  by (auto simp: vma_inv_def)

lemma insert_pool_ready:
  "vma_tree_insert t p st en fl = (ok, t', p') \<Longrightarrow> st < en \<Longrightarrow> pool_initialized p'"
  by (auto simp: vma_tree_insert_cases node_pool_init_ready Let_def not_le [symmetric]
      split: list.splits prod.splits if_splits)

lemma vma_accounted_insert:
  assumes "vma_accounted (t, p)" "vma_tree_insert t p a b f = (ok, t', p')"
  shows "vma_accounted (t', p')"
proof (cases "a < b")
  case True
  then show ?thesis
    using assms vma_tree_insert_ok [of t p a b f ok t' p'] insert_pool_ready [OF assms(2)]
    by (simp add: vma_accounted_def pool_init_idem)
next
  case False
  then show ?thesis using assms by (simp add: vma_tree_insert_cases not_less)
qed

lemma vma_accounted_release:
  assumes "vma_accounted (t, p)" "vma_inv t' p'" "pool_initialized p' = pool_initialized p"
    and "slots (root t') + mset (free_nodes p') = slots (root t) + mset (free_nodes p)"
  shows "vma_accounted (t', p')"
proof (cases "pool_initialized p")
  case True
  then show ?thesis using assms by (simp add: vma_accounted_def pool_init_idem)
next
  case False
  have "vma_inv t p" using assms(1) by (simp add: vma_accounted_def)
  then have "root t = Null" "root t' = Null" "free_nodes p' = []" "free_nodes p = []"
    using False assms(2,3) vma_inv_null by auto
  then show ?thesis using assms(1,2,3) False by (simp add: vma_accounted_def node_pool_init_def)
qed

lemma vma_step_accounted: "vma_accounted s \<Longrightarrow> vma_accounted (vma_step op s)"
proof (cases s)
  case (Pair t p)
  assume acc: "vma_accounted s"
  then have inv: "vma_inv t p" using Pair by (simp add: vma_accounted_def)
  show ?thesis
  proof (cases op)
    case (Insert a b f)
    then show ?thesis
      using vma_accounted_insert acc Pair by (cases "vma_tree_insert t p a b f") auto
  next
    case (Remove a b)
    obtain ok t' p' where r: "vma_tree_remove t p a b = (ok, t', p')" by (metis prod_cases3)
    have "pool_initialized p' = pool_initialized p"
      using vma_tree_remove_ok(5) [OF inv r] .
    then show ?thesis
      using vma_accounted_release vma_tree_remove_ok [OF inv r] acc Pair Remove r by simp
  next
    case Clear
    obtain t' p' where c: "vma_tree_clear t p = (t', p')" by fastforce
    have "pool_initialized p' = pool_initialized p" "slots (root t') = {#}"
      using c release_subtree_pool by (auto simp: vma_tree_clear_def)
    then show ?thesis
      using vma_accounted_release vma_tree_clear_ok [OF inv c] acc Pair Clear c by simp
  qed
qed

lemma vma_boot_accounted: "vma_accounted (vma_tree_init, pool_boot)"
  by (simp add: vma_accounted_def vma_tree_init_def pool_boot_def vma_inv_def wf_areas_def
      node_pool_init_def fold_Cons_rev)

section \<open>Properties\<close>

text \<open>C1. The gap search is first fit: on a well-formed tree, for a nonempty range that does not start
  at address zero, a nonzero length and a power-of-two alignment, a returned address is
  aligned, lies in the range with room for the length, overlaps no area and is the least such
  address; when the search reports failure there is no such address at all.\<close>

theorem vma_tree_find_gap_first_fit:
  assumes "wf_areas (areas (root t))" "0 < lo" "lo < hi" "len \<noteq> 0" "al \<noteq> 0" "al AND (al - 1) = 0"
  shows "case vma_tree_find_gap t lo hi len al of
           Some st \<Rightarrow> first_gap (areas (root t)) lo hi len al st
         | None \<Rightarrow> \<forall>p. \<not> gap_at (areas (root t)) lo hi len al p"
  by (rule find_gap_spec [OF assms])

definition sample_tree :: vma_tree where
  "sample_tree = \<lparr>root = Node 0 0x5000 0x7000 2 2 (Node 1 0x1000 0x3000 1 1 Null Null) Null,
     node_count = 2\<rparr>"

definition sample_pool :: vma_pool where
  "sample_pool = \<lparr>free_nodes = [2, 3], pool_initialized = True\<rparr>"

lemma sample_inv: "vma_inv sample_tree sample_pool"
  by (auto simp: vma_inv_def sample_tree_def sample_pool_def wf_areas_def area_before_def
      VMA_MAX_NODES_def)

lemma sample_wf: "wf_areas (areas (root sample_tree))"
  using sample_inv by (simp add: vma_inv_def)

theorem vma_tree_find_gap_first_fit_witness:
  "vma_tree_find_gap sample_tree 0x1000 0x9000 0x1000 0x1000 = Some 0x3000 \<and>
   first_gap (areas (root sample_tree)) 0x1000 0x9000 0x1000 0x1000 0x3000"
proof -
  have "vma_tree_find_gap sample_tree 0x1000 0x9000 0x1000 0x1000 = Some 0x3000"
    by code_simp
  then show ?thesis
    using vma_tree_find_gap_first_fit [OF sample_wf, of "0x1000" "0x9000" "0x1000" "0x1000"] by simp
qed

text \<open>C2. Inserting an area: the invariant (ordered disjoint areas, AVL balance, exact heights, pool
  consistency) is kept; the call succeeds exactly when the area is nonempty, a pool
  node is left and no stored area overlaps it; then the area takes its place in address order and
  otherwise the contents are unchanged; no pool node is lost either way.\<close>

theorem vma_tree_insert_refines:
  assumes "vma_inv t p" "vma_tree_insert t p st en fl = (ok, t', p')"
  shows "vma_inv t' p' \<and>
     (ok \<longleftrightarrow> st < en \<and> free_nodes (node_pool_init p) \<noteq> [] \<and>
        (\<forall>x\<in>set (areas (root t)). \<not> area_overlaps st en x)) \<and>
     areas (root t') = (if ok then insert_area (st, en, fl) (areas (root t)) else areas (root t)) \<and>
     (st < en \<longrightarrow> slots (root t') + mset (free_nodes p') =
        slots (root t) + mset (free_nodes (node_pool_init p)))"
  using vma_tree_insert_ok [OF assms] by blast

theorem vma_tree_insert_refines_witness:
  "\<exists>t' p'. vma_tree_insert sample_tree sample_pool 0x3000 0x4000 7 = (True, t', p') \<and> vma_inv t' p' \<and>
     areas (root t') = [(0x1000, 0x3000, 1), (0x3000, 0x4000, 7), (0x5000, 0x7000, 2)]"
proof -
  obtain ok t' p' where i: "vma_tree_insert sample_tree sample_pool 0x3000 0x4000 7 = (ok, t', p')"
    by (metis prod_cases3)
  have "\<forall>x\<in>set (areas (root sample_tree)). \<not> area_overlaps 0x3000 0x4000 x"
    by (simp add: sample_tree_def area_overlaps_def)
  then show ?thesis
    using vma_tree_insert_refines [OF sample_inv i] i
    by (simp add: sample_tree_def sample_pool_def node_pool_init_def area_before_def)
qed

text \<open>C3. Removing an area: the invariant is kept; the call succeeds exactly when an area with these two
  bounds is stored; exactly that area leaves the contents; its pool node returns to the pool.\<close>

theorem vma_tree_remove_refines:
  assumes "vma_inv t p" "vma_tree_remove t p st en = (ok, t', p')"
  shows "vma_inv t' p' \<and> (ok \<longleftrightarrow> has_area st en (areas (root t))) \<and>
     areas (root t') = delete_area st en (areas (root t)) \<and>
     slots (root t') + mset (free_nodes p') = slots (root t) + mset (free_nodes p)"
  using vma_tree_remove_ok [OF assms] by blast

theorem vma_tree_remove_refines_witness:
  "\<exists>t' p'. vma_tree_remove sample_tree sample_pool 0x5000 0x7000 = (True, t', p') \<and> vma_inv t' p' \<and>
     areas (root t') = [(0x1000, 0x3000, 1)]"
proof -
  obtain ok t' p' where r: "vma_tree_remove sample_tree sample_pool 0x5000 0x7000 = (ok, t', p')"
    by (metis prod_cases3)
  show ?thesis
    using vma_tree_remove_refines [OF sample_inv r] r
    by (simp add: sample_tree_def sample_pool_def has_area_def delete_area_def)
qed

text \<open>C6. Descending the tree finds exactly what a linear scan of the areas in address order finds.\<close>

theorem vma_tree_find_linear:
  assumes "vma_inv t p"
  shows "vma_tree_find t x = List.find (\<lambda>(st, en, fl). st \<le> x \<and> x < en) (areas (root t))"
  using vma.look_find [of "(t, p)" x] assms by simp

theorem vma_tree_find_linear_witness:
  "vma_tree_find sample_tree 0x5200 = Some (0x5000, 0x7000, 2)"
  using vma_tree_find_linear [OF sample_inv, of "0x5200"] by (simp add: sample_tree_def)

text \<open>C5. After a successful insertion every address of the area is found in it, and removing the area
  again succeeds and restores the contents.\<close>

theorem vma_insert_remove_roundtrip:
  assumes "vma_inv t p" "vma_tree_insert t p st en fl = (True, t', p')"
    "vma_tree_remove t' p' st en = (ok, t'', p'')" "st \<le> x" "x < en"
  shows "vma_tree_find t' x = Some (st, en, fl) \<and> ok \<and> areas (root t'') = areas (root t) \<and> vma_inv t'' p''"
  using vma.ins_del_roundtrip [of "(t, p)" st en fl "(t', p')" ok "(t'', p'')"]
    vma.look_after_ins [of "(t, p)" st en fl "(t', p')" x] assms by simp

theorem vma_insert_remove_roundtrip_witness:
  "\<exists>t' p' t'' p''. vma_tree_insert sample_tree sample_pool 0x3000 0x4000 7 = (True, t', p') \<and>
     vma_tree_remove t' p' 0x3000 0x4000 = (True, t'', p'') \<and>
     vma_tree_find t' 0x3800 = Some (0x3000, 0x4000, 7) \<and> areas (root t'') = areas (root sample_tree)"
proof -
  obtain ok t' p' where i: "vma_tree_insert sample_tree sample_pool 0x3000 0x4000 7 = (ok, t', p')"
    by (metis prod_cases3)
  have "\<forall>x\<in>set (areas (root sample_tree)). \<not> area_overlaps 0x3000 0x4000 x"
    by (simp add: sample_tree_def area_overlaps_def)
  then have ok: "ok"
    using vma_tree_insert_ok(2) [OF sample_inv i] by (simp add: sample_pool_def node_pool_init_def)
  obtain r t'' p'' where r: "vma_tree_remove t' p' 0x3000 0x4000 = (r, t'', p'')"
    by (metis prod_cases3)
  show ?thesis
    using vma_insert_remove_roundtrip [OF sample_inv _ r, of 7 "0x3800"] i ok r by simp
qed

text \<open>C4. Whatever sequence of insertions, removals and clears the tree sees from boot, the
  invariant holds and every one of the 2048 pool nodes is either in the tree or on the free
  list, once: nodes neither leak nor are handed out twice.\<close>

theorem vma_pool_conserved:
  "case fold vma_step ops (vma_tree_init, pool_boot) of
     (t, p) \<Rightarrow> vma_inv t p \<and>
       slots (root t) + mset (free_nodes (node_pool_init p)) = mset [0..<VMA_MAX_NODES]"
proof -
  have "vma_accounted s \<Longrightarrow> vma_accounted (fold vma_step ops s)" for s
    by (induction ops arbitrary: s) (simp_all add: vma_step_accounted)
  from this [OF vma_boot_accounted] show ?thesis by (simp add: vma_accounted_def)
qed




end
