(* ===== verification/Phys_Mem.thy ===== *)
theory Phys_Mem
  imports Kernel_Prelude
begin

text \<open>
  \<^verbatim>\<open>kernel/kernel/pmm.c\<close>: the physical frame allocator, a bitmap (bit set = reserved) with
  exact free counters for the whole memory and per NUMA node, next-fit scans inside the nodes and a
  contiguous allocator. The bitmap is a function from byte index to byte and \<open>bitmap_base\<close> its
  address, zero for the null pointer. Every exported function runs under \<open>pmm_state_lock\<close> with
  interrupts off, so one call is one atomic step. Loops over 32-bit frame numbers are recursive
  functions on words whose termination is proved from the loop condition.
\<close>

section \<open>The operations of pmm.c\<close>

definition PAGE_SIZE :: u32 where "PAGE_SIZE = 0x1000"
definition PMM_MAX_NUMA_NODES :: u8 where "PMM_MAX_NUMA_NODES = 8"
definition PMM_NUMA_NODE_ANY :: u8 where "PMM_NUMA_NODE_ANY = 0xFF"

record pmm_numa_node =
  first_frame :: u32
  frame_count :: u32
  node_free_frames :: u32
  next_scan_frame :: u32

record pmm =
  frame_bitmap :: "u32 \<Rightarrow> u8"
  bitmap_base :: u32
  total_frames :: u32
  free_frames :: u32
  total_memory_kib :: u32
  bitmap_end_phys :: u32
  initialized :: bool
  numa_nodes :: "pmm_numa_node list"
  active_numa_node_count :: u8
  round_robin_numa_node :: u8
  global_next_scan_frame :: u32

record pmm_numa_node_stats =
  stat_node_id :: u8
  stat_first_frame :: u32
  stat_frame_count :: u32
  stat_free_frames :: u32

definition pmm_align_up_u32 :: "u32 \<Rightarrow> u32 \<Rightarrow> u32" where
  "pmm_align_up_u32 val al = (val + al - 1) AND NOT (al - 1)"

definition pmm_align_up_u64 :: "u64 \<Rightarrow> u32 \<Rightarrow> u64" where
  "pmm_align_up_u64 val al = (val + ucast al - 1) AND NOT (ucast al - 1)"

definition bitmap_set :: "u32 \<Rightarrow> pmm \<Rightarrow> pmm" where
  "bitmap_set f s = s\<lparr>frame_bitmap := (frame_bitmap s)
     (f div 8 := frame_bitmap s (f div 8) OR push_bit (unat (f mod 8)) 1)\<rparr>"

definition bitmap_clear :: "u32 \<Rightarrow> pmm \<Rightarrow> pmm" where
  "bitmap_clear f s = s\<lparr>frame_bitmap := (frame_bitmap s)
     (f div 8 := frame_bitmap s (f div 8) AND NOT (push_bit (unat (f mod 8)) 1))\<rparr>"

definition bitmap_test :: "u32 \<Rightarrow> pmm \<Rightarrow> bool" where
  "bitmap_test f s \<longleftrightarrow>
     (ucast (frame_bitmap s (f div 8)) :: u32) AND push_bit (unat (f mod 8)) 1 \<noteq> 0"

definition pmm_node_contains_frame :: "pmm_numa_node \<Rightarrow> u32 \<Rightarrow> bool" where
  "pmm_node_contains_frame nd f =
     (if frame_count nd = 0 then False
      else first_frame nd \<le> f \<and> f < first_frame nd + frame_count nd)"

definition pmm_node_index_for_frame :: "pmm \<Rightarrow> u32 \<Rightarrow> u8" where
  "pmm_node_index_for_frame s f =
     (case List.find (\<lambda>i. pmm_node_contains_frame (numa_nodes s ! i) f)
             [0..<unat (active_numa_node_count s)] of
        Some i \<Rightarrow> of_nat i
      | None \<Rightarrow> PMM_NUMA_NODE_ANY)"

text \<open>The loop of \<open>pmm_numa_reset_layout\<close> over the node indices that are in use.\<close>

fun numa_layout_loop ::
  "nat list \<Rightarrow> u32 \<Rightarrow> u32 \<Rightarrow> u32 \<Rightarrow> pmm_numa_node list \<Rightarrow> pmm_numa_node list" where
  "numa_layout_loop [] base remd cur ns = ns"
| "numa_layout_loop (node # rest) base remd cur ns =
     (let frames = base + (if remd > 0 then 1 else 0);
          remd' = (if remd > 0 then remd - 1 else remd)
      in numa_layout_loop rest base remd' (cur + frames)
           (ns[node := \<lparr>first_frame = cur, frame_count = frames, node_free_frames = 0,
                        next_scan_frame = cur\<rparr>]))"

definition pmm_numa_reset_layout :: "u8 \<Rightarrow> pmm \<Rightarrow> pmm" where
  "pmm_numa_reset_layout n0 s =
     (let n1 = (if n0 = 0 then 1 else n0);
          n = (if n1 > PMM_MAX_NUMA_NODES then PMM_MAX_NUMA_NODES else n1);
          base = total_frames s div ucast n;
          remd = total_frames s mod ucast n;
          used = numa_layout_loop [0..<unat n] base remd 0 (numa_nodes s);
          nodes = fold (\<lambda>node ns. ns[node := \<lparr>first_frame = 0, frame_count = 0,
                     node_free_frames = 0, next_scan_frame = 0\<rparr>])
                   [unat n..<unat PMM_MAX_NUMA_NODES] used
      in s\<lparr>numa_nodes := nodes, active_numa_node_count := n,
           round_robin_numa_node :=
             (if round_robin_numa_node s \<ge> n then 0 else round_robin_numa_node s),
           global_next_scan_frame :=
             (if global_next_scan_frame s \<ge> total_frames s then 0 else global_next_scan_frame s)\<rparr>)"

function count_free_loop :: "pmm \<Rightarrow> u32 \<Rightarrow> u32 \<Rightarrow> u32 \<Rightarrow> u32" where
  "count_free_loop s f fend n =
     (if f < fend then count_free_loop s (f + 1) fend (if bitmap_test f s then n else n + 1) else n)"
  by pat_completeness auto
termination
  by (relation "measure (\<lambda>(s, f, fend, n). unat fend - unat f)") (auto simp: word_loop_measure)

declare count_free_loop.simps [simp del]

fun recount_loop :: "nat list \<Rightarrow> u32 \<Rightarrow> pmm \<Rightarrow> u32 \<times> pmm" where
  "recount_loop [] tot s = (tot, s)"
| "recount_loop (node # rest) tot s =
     (let nd = numa_nodes s ! node;
          st = first_frame nd;
          free = count_free_loop s st (st + frame_count nd) 0;
          nd1 = nd\<lparr>node_free_frames := free\<rparr>;
          nd2 = (if \<not> pmm_node_contains_frame nd1 (next_scan_frame nd1)
                 then nd1\<lparr>next_scan_frame := st\<rparr> else nd1)
      in recount_loop rest (tot + free) (s\<lparr>numa_nodes := (numa_nodes s)[node := nd2]\<rparr>))"

definition pmm_recount_numa_free_frames_locked :: "pmm \<Rightarrow> pmm" where
  "pmm_recount_numa_free_frames_locked s =
     (case recount_loop [0..<unat (active_numa_node_count s)] 0 s of
        (tot, s') \<Rightarrow> s'\<lparr>free_frames := tot\<rparr>)"

definition set_node :: "u8 \<Rightarrow> (pmm_numa_node \<Rightarrow> pmm_numa_node) \<Rightarrow> pmm \<Rightarrow> pmm" where
  "set_node node g s =
     s\<lparr>numa_nodes := (numa_nodes s)[unat node := g (numa_nodes s ! unat node)]\<rparr>"

definition reserve_frame_locked :: "u32 \<Rightarrow> pmm \<Rightarrow> bool \<times> pmm" where
  "reserve_frame_locked f s =
     (if f \<ge> total_frames s \<or> bitmap_test f s then (False, s)
      else
        let s1 = bitmap_set f s;
            s2 = (if free_frames s1 > 0 then s1\<lparr>free_frames := free_frames s1 - 1\<rparr> else s1);
            node = pmm_node_index_for_frame s2 f
        in (True,
            if node \<noteq> PMM_NUMA_NODE_ANY \<and> node_free_frames (numa_nodes s2 ! unat node) > 0
            then set_node node (\<lambda>nd. nd\<lparr>node_free_frames := node_free_frames nd - 1\<rparr>) s2
            else s2))"

definition release_frame_locked :: "u32 \<Rightarrow> pmm \<Rightarrow> bool \<times> pmm" where
  "release_frame_locked f s =
     (if f \<ge> total_frames s \<or> \<not> bitmap_test f s then (False, s)
      else
        let s1 = bitmap_clear f s;
            s2 = s1\<lparr>free_frames := free_frames s1 + 1\<rparr>;
            node = pmm_node_index_for_frame s2 f
        in (True,
            if node \<noteq> PMM_NUMA_NODE_ANY
            then set_node node (\<lambda>nd. nd\<lparr>node_free_frames := node_free_frames nd + 1\<rparr>) s2
            else s2))"

text \<open>One of the two scan loops of \<open>pmm_find_free_frame_in_node_locked\<close>; the frame it reserves.\<close>

function scan_frames_loop :: "u32 \<Rightarrow> u32 \<Rightarrow> pmm \<Rightarrow> u32 option \<times> pmm" where
  "scan_frames_loop f fend s =
     (if f < fend then
        if bitmap_test f s then scan_frames_loop (f + 1) fend s
        else case reserve_frame_locked f s of
               (False, s') \<Rightarrow> scan_frames_loop (f + 1) fend s'
             | (True, s') \<Rightarrow> (Some f, s')
      else (None, s))"
  by pat_completeness auto
termination
  by (relation "measure (\<lambda>(f, fend, s). unat fend - unat f)") (auto simp: word_loop_measure)

declare scan_frames_loop.simps [simp del]

definition pmm_find_free_frame_in_node_locked :: "u8 \<Rightarrow> pmm \<Rightarrow> u32 option \<times> pmm" where
  "pmm_find_free_frame_in_node_locked node s =
     (if node \<ge> active_numa_node_count s then (None, s)
      else
        let nd = numa_nodes s ! unat node in
        if frame_count nd = 0 \<or> node_free_frames nd = 0 then (None, s)
        else
          let st = first_frame nd;
              fend = st + frame_count nd;
              cur = (if pmm_node_contains_frame nd (next_scan_frame nd) then next_scan_frame nd else st);
              done = (\<lambda>f s. (Some f, set_node node
                 (\<lambda>nd. nd\<lparr>next_scan_frame := (if f + 1 < fend then f + 1 else st)\<rparr>) s))
          in case scan_frames_loop cur fend s of
               (Some f, s') \<Rightarrow> done f s'
             | (None, s') \<Rightarrow>
                 (case scan_frames_loop st cur s' of
                    (Some f, s'') \<Rightarrow> done f s''
                  | (None, s'') \<Rightarrow> (None, s'')))"

function contiguous_loop :: "u32 \<Rightarrow> u32 \<Rightarrow> u32 \<Rightarrow> u32 \<Rightarrow> u32 \<Rightarrow> pmm \<Rightarrow> u32 option" where
  "contiguous_loop f fend n run_start run_length s =
     (if f < fend then
        if bitmap_test f s then contiguous_loop (f + 1) fend n run_start 0 s
        else
          let rs = (if run_length = 0 then f else run_start);
              rl = run_length + 1
          in if rl = n then Some rs else contiguous_loop (f + 1) fend n rs rl s
      else None)"
  by pat_completeness auto
termination
  by (relation "measure (\<lambda>(f, fend, n, rs, rl, s). unat fend - unat f)") (auto simp: word_loop_measure)

declare contiguous_loop.simps [simp del]

definition pmm_find_contiguous_free_linear_locked ::
  "u32 \<Rightarrow> u32 \<Rightarrow> u32 \<Rightarrow> pmm \<Rightarrow> u32 option" where
  "pmm_find_contiguous_free_linear_locked st fend n s =
     (if st \<ge> fend \<or> n = 0 then None
      else if fend - st < n then None
      else contiguous_loop st fend n 0 0 s)"

definition pmm_find_contiguous_free_wrapped_locked ::
  "u32 \<Rightarrow> u32 \<Rightarrow> u32 \<Rightarrow> u32 \<Rightarrow> pmm \<Rightarrow> u32 option" where
  "pmm_find_contiguous_free_wrapped_locked st fend n search0 s =
     (if st \<ge> fend \<or> n = 0 then None
      else if fend - st < n then None
      else
        let search = (if search0 < st \<or> search0 \<ge> fend then st else search0)
        in case pmm_find_contiguous_free_linear_locked search fend n s of
             Some r \<Rightarrow> Some r
           | None \<Rightarrow> if search = st then None
                     else pmm_find_contiguous_free_linear_locked st search n s)"

function reserve_contiguous_loop :: "u32 \<Rightarrow> u32 \<Rightarrow> u32 \<Rightarrow> pmm \<Rightarrow> bool \<times> pmm" where
  "reserve_contiguous_loop i n st s =
     (if i < n then
        case reserve_frame_locked (st + i) s of
          (False, s') \<Rightarrow> (False, s')
        | (True, s') \<Rightarrow> reserve_contiguous_loop (i + 1) n st s'
      else (True, s))"
  by pat_completeness auto
termination
  by (relation "measure (\<lambda>(i, n, st, s). unat n - unat i)") (auto simp: word_loop_measure)

declare reserve_contiguous_loop.simps [simp del]

definition pmm_reserve_contiguous_locked :: "u32 \<Rightarrow> u32 \<Rightarrow> pmm \<Rightarrow> bool \<times> pmm" where
  "pmm_reserve_contiguous_locked st n s = reserve_contiguous_loop 0 n st s"

definition pmm_find_contiguous_in_node_locked :: "u8 \<Rightarrow> u32 \<Rightarrow> pmm \<Rightarrow> u32 option \<times> pmm" where
  "pmm_find_contiguous_in_node_locked node n s =
     (if node \<ge> active_numa_node_count s \<or> n = 0 then (None, s)
      else
        let nd = numa_nodes s ! unat node in
        if frame_count nd < n \<or> node_free_frames nd < n then (None, s)
        else
          let st = first_frame nd;
              fend = st + frame_count nd;
              cur = (if pmm_node_contains_frame nd (next_scan_frame nd) then next_scan_frame nd else st)
          in case pmm_find_contiguous_free_wrapped_locked st fend n cur s of
               None \<Rightarrow> (None, s)
             | Some run \<Rightarrow>
                 (case pmm_reserve_contiguous_locked run n s of
                    (False, s') \<Rightarrow> (None, s')
                  | (True, s') \<Rightarrow>
                      (Some run, set_node node
                         (\<lambda>nd. nd\<lparr>next_scan_frame := (if run + n \<ge> fend then st else run + n)\<rparr>) s')))"

function release_range_loop :: "u32 \<Rightarrow> u32 \<Rightarrow> pmm \<Rightarrow> pmm" where
  "release_range_loop f fend s =
     (if f < fend \<and> f < total_frames s
      then release_range_loop (f + 1) fend (snd (release_frame_locked f s)) else s)"
  by pat_completeness auto
termination
  by (relation "measure (\<lambda>(f, fend, s). unat fend - unat f)") (auto simp: word_loop_measure)

declare release_range_loop.simps [simp del]

function reserve_range_loop :: "u32 \<Rightarrow> u32 \<Rightarrow> pmm \<Rightarrow> pmm" where
  "reserve_range_loop f fend s =
     (if f < fend \<and> f < total_frames s
      then reserve_range_loop (f + 1) fend (snd (reserve_frame_locked f s)) else s)"
  by pat_completeness auto
termination
  by (relation "measure (\<lambda>(f, fend, s). unat fend - unat f)") (auto simp: word_loop_measure)

declare reserve_range_loop.simps [simp del]

definition pmm_mark_available_range :: "u32 \<Rightarrow> u32 \<Rightarrow> pmm \<Rightarrow> pmm" where
  "pmm_mark_available_range base len s =
     (let st = base div PAGE_SIZE;
          e = (ucast base :: u64) + ucast len;
          fend = ucast (e div ucast PAGE_SIZE)
      in release_range_loop st fend s)"

definition pmm_reserve_range :: "u32 \<Rightarrow> u32 \<Rightarrow> pmm \<Rightarrow> pmm" where
  "pmm_reserve_range base len s =
     (let st = base div PAGE_SIZE;
          e = pmm_align_up_u64 ((ucast base :: u64) + ucast len) PAGE_SIZE;
          fend = ucast (e div ucast PAGE_SIZE)
      in reserve_range_loop st fend s)"

text \<open>The node loop shared by the two allocators: \<open>search\<close> is tried on the nodes in round-robin
  order, the preferred node, which was tried before, is skipped.\<close>

fun node_loop ::
  "(u8 \<Rightarrow> pmm \<Rightarrow> u32 option \<times> pmm) \<Rightarrow> u8 \<Rightarrow> u8 list \<Rightarrow> pmm \<Rightarrow> u32 option \<times> pmm" where
  "node_loop search pref [] s = (None, s)"
| "node_loop search pref (node # rest) s =
     (if pref \<noteq> PMM_NUMA_NODE_ANY \<and> pref < active_numa_node_count s \<and> node = pref
      then node_loop search pref rest s
      else case search node s of
             (None, s') \<Rightarrow> node_loop search pref rest s'
           | (Some f, s') \<Rightarrow>
               (Some f, s'\<lparr>round_robin_numa_node :=
                  ucast (((ucast node :: u32) + 1) mod ucast (active_numa_node_count s'))\<rparr>))"

definition node_order :: "pmm \<Rightarrow> u8 list" where
  "node_order s =
     (let start = round_robin_numa_node s mod active_numa_node_count s
      in map (\<lambda>i. ucast (((ucast start :: u32) + of_nat i) mod ucast (active_numa_node_count s)))
           [0..<unat (active_numa_node_count s)])"

text \<open>Preferred node first, then the others.\<close>

definition try_nodes ::
  "(u8 \<Rightarrow> pmm \<Rightarrow> u32 option \<times> pmm) \<Rightarrow> u8 \<Rightarrow> pmm \<Rightarrow> (bool \<times> u32 option) \<times> pmm" where
  "try_nodes search pref s =
     (let rest = (\<lambda>s. case node_loop search pref (node_order s) s of (r, s') \<Rightarrow> ((False, r), s'))
      in if pref \<noteq> PMM_NUMA_NODE_ANY \<and> pref < active_numa_node_count s then
           case search pref s of
             (Some f, s') \<Rightarrow>
               ((True, Some f), s'\<lparr>round_robin_numa_node :=
                  ucast (((ucast pref :: u32) + 1) mod ucast (active_numa_node_count s'))\<rparr>)
           | (None, s') \<Rightarrow> rest s'
         else rest s)"

definition pmm_alloc_frame_on_node :: "u8 \<Rightarrow> pmm \<Rightarrow> u32 option \<times> pmm" where
  "pmm_alloc_frame_on_node pref s =
     (if \<not> initialized s \<or> active_numa_node_count s = 0 \<or> free_frames s = 0 then (None, s)
      else case try_nodes pmm_find_free_frame_in_node_locked pref s of
             ((_, None), s') \<Rightarrow> (None, s')
           | ((_, Some f), s') \<Rightarrow> (Some (f * PAGE_SIZE), s'))"

definition pmm_alloc_frame :: "pmm \<Rightarrow> u32 option \<times> pmm" where
  "pmm_alloc_frame s = pmm_alloc_frame_on_node PMM_NUMA_NODE_ANY s"

definition pmm_free_frame :: "u32 \<Rightarrow> pmm \<Rightarrow> pmm" where
  "pmm_free_frame addr s = snd (release_frame_locked (addr div PAGE_SIZE) s)"

text \<open>The bookkeeping after a successful search that did not end in the preferred node.\<close>

definition note_run :: "u32 \<Rightarrow> u32 \<Rightarrow> pmm \<Rightarrow> pmm" where
  "note_run run n s =
     (let g = run + n;
          s1 = s\<lparr>global_next_scan_frame := (if g \<ge> total_frames s then g mod total_frames s else g)\<rparr>;
          node = pmm_node_index_for_frame s1 run
      in if node \<noteq> PMM_NUMA_NODE_ANY \<and> active_numa_node_count s1 > 0
         then s1\<lparr>round_robin_numa_node :=
                ucast (((ucast node :: u32) + 1) mod ucast (active_numa_node_count s1))\<rparr>
         else s1)"

definition pmm_alloc_frames_on_node :: "u32 \<Rightarrow> u8 \<Rightarrow> pmm \<Rightarrow> u32 option \<times> pmm" where
  "pmm_alloc_frames_on_node n pref s =
     (if n = 0 then (None, s)
      else if \<not> initialized s \<or> active_numa_node_count s = 0 \<or> free_frames s < n then (None, s)
      else case try_nodes (\<lambda>node. pmm_find_contiguous_in_node_locked node n) pref s of
             ((True, Some run), s') \<Rightarrow> (Some (run * PAGE_SIZE), s')
           | ((False, Some run), s') \<Rightarrow> (Some (run * PAGE_SIZE), note_run run n s')
           | ((_, None), s') \<Rightarrow>
               (case pmm_find_contiguous_free_wrapped_locked 0 (total_frames s') n
                       (global_next_scan_frame s') s' of
                  None \<Rightarrow> (None, s')
                | Some run \<Rightarrow>
                    (case pmm_reserve_contiguous_locked run n s' of
                       (False, s'') \<Rightarrow> (None, s'')
                     | (True, s'') \<Rightarrow> (Some (run * PAGE_SIZE), note_run run n s''))))"

definition pmm_alloc_frames :: "u32 \<Rightarrow> pmm \<Rightarrow> u32 option \<times> pmm" where
  "pmm_alloc_frames n s = pmm_alloc_frames_on_node n PMM_NUMA_NODE_ANY s"

function free_frames_loop :: "u32 \<Rightarrow> u32 \<Rightarrow> u32 \<Rightarrow> pmm \<Rightarrow> pmm" where
  "free_frames_loop i n f s =
     (if i < n then free_frames_loop (i + 1) n f (snd (release_frame_locked (f + i) s)) else s)"
  by pat_completeness auto
termination
  by (relation "measure (\<lambda>(i, n, f, s). unat n - unat i)") (auto simp: word_loop_measure)

declare free_frames_loop.simps [simp del]

definition pmm_free_frames :: "u32 \<Rightarrow> u32 \<Rightarrow> pmm \<Rightarrow> pmm" where
  "pmm_free_frames addr n s = free_frames_loop 0 n (addr div PAGE_SIZE) s"

definition pmm_configure_numa_topology :: "u8 \<Rightarrow> pmm \<Rightarrow> bool \<times> pmm" where
  "pmm_configure_numa_topology n s =
     (if n = 0 \<or> n > PMM_MAX_NUMA_NODES then (False, s)
      else
        let s1 = pmm_numa_reset_layout n s
        in (True, if bitmap_base s1 \<noteq> 0 \<and> total_frames s1 > 0
                  then pmm_recount_numa_free_frames_locked s1 else s1))"

definition pmm_numa_node_count :: "pmm \<Rightarrow> u8" where
  "pmm_numa_node_count s = active_numa_node_count s"

definition pmm_get_numa_node_stats :: "u8 \<Rightarrow> pmm \<Rightarrow> pmm_numa_node_stats option" where
  "pmm_get_numa_node_stats node s =
     (if node \<ge> active_numa_node_count s then None
      else
        let nd = numa_nodes s ! unat node
        in Some \<lparr>stat_node_id = node, stat_first_frame = first_frame nd,
                 stat_frame_count = frame_count nd, stat_free_frames = node_free_frames nd\<rparr>)"

definition pmm_numa_node_for_physical :: "u32 \<Rightarrow> pmm \<Rightarrow> u8" where
  "pmm_numa_node_for_physical addr s =
     (if addr div PAGE_SIZE \<ge> total_frames s then PMM_NUMA_NODE_ANY
      else pmm_node_index_for_frame s (addr div PAGE_SIZE))"

definition pmm_free_memory_kib :: "pmm \<Rightarrow> u32" where
  "pmm_free_memory_kib s = free_frames s * 4"

end
