(* ===== verification/Phys_Mem_Inv.thy ===== *)
theory Phys_Mem_Inv
  imports Phys_Mem
begin

text \<open>
  The invariant of the frame allocator of \<^verbatim>\<open>kernel/kernel/pmm.c\<close>: the bitmap as a set of free
  frames, nodes that tile the frame numbers, exact counters; and that reserving or releasing one frame changes
  the free set by that frame and keeps the rest (\<open>becomes\<close>).
\<close>

section \<open>The bitmap as a set of free frames\<close>

lemma frame_bit_less: "unat ((f :: u32) mod 8) < 8"
  by (simp add: unat_mod)

lemma bitmap_test_bit: "bitmap_test f s \<longleftrightarrow> bit (frame_bitmap s (f div 8)) (unat (f mod 8))"
  unfolding bitmap_test_def bit_iff_and_push_bit_not_eq_0 [symmetric]
  using frame_bit_less [of f] by (simp add: bit_unsigned_iff)

lemma frame_split_eq: "(f :: u32) div 8 = g div 8 \<Longrightarrow> unat (f mod 8) = unat (g mod 8) \<Longrightarrow> f = g"
  by (metis word_mod_div_equality word_unat_eq_iff)

lemma bitmap_test_set [simp]: "bitmap_test g (bitmap_set f s) \<longleftrightarrow> g = f \<or> bitmap_test g s"
proof (cases "g div 8 = f div 8")
  case True
  then have "g = f \<longleftrightarrow> unat (g mod 8) = unat (f mod 8)" using frame_split_eq by metis
  then show ?thesis
    using True frame_bit_less [of g] by (simp add: bitmap_test_bit bitmap_set_def bit_or_iff bit_exp_iff) blast
next
  case False
  then show ?thesis by (auto simp: bitmap_test_bit bitmap_set_def)
qed

lemma bitmap_test_clear [simp]: "bitmap_test g (bitmap_clear f s) \<longleftrightarrow> g \<noteq> f \<and> bitmap_test g s"
proof (cases "g div 8 = f div 8")
  case True
  then have "g = f \<longleftrightarrow> unat (g mod 8) = unat (f mod 8)" using frame_split_eq by metis
  then show ?thesis
    using True frame_bit_less [of g]
    by (simp add: bitmap_test_bit bitmap_clear_def bit_and_iff bit_not_iff bit_exp_iff conj_commute)
next
  case False
  then show ?thesis by (auto simp: bitmap_test_bit bitmap_clear_def)
qed

text \<open>The fields other than the bitmap do not matter for a test.\<close>

lemma bitmap_test_cong: "frame_bitmap s = frame_bitmap s' \<Longrightarrow> bitmap_test f s = bitmap_test f s'"
  by (simp add: bitmap_test_def)

lemma bitmap_test_set_node [simp]: "bitmap_test f (set_node node g s) = bitmap_test f s"
  by (simp add: set_node_def bitmap_test_def)

lemma bitmap_test_updates [simp]:
  "bitmap_test f (s\<lparr>free_frames := n\<rparr>) = bitmap_test f s"
  "bitmap_test f (s\<lparr>numa_nodes := ns\<rparr>) = bitmap_test f s"
  "bitmap_test f (s\<lparr>round_robin_numa_node := r\<rparr>) = bitmap_test f s"
  "bitmap_test f (s\<lparr>global_next_scan_frame := g\<rparr>) = bitmap_test f s"
  "bitmap_test f (s\<lparr>active_numa_node_count := k\<rparr>) = bitmap_test f s"
  by (simp_all add: bitmap_test_def)

definition free_set :: "pmm \<Rightarrow> u32 set" where
  "free_set s = {f. f < total_frames s \<and> \<not> bitmap_test f s}"

definition node_frames :: "pmm_numa_node \<Rightarrow> u32 set" where
  "node_frames nd = {f. unat (first_frame nd) \<le> unat f \<and> unat f < unat (first_frame nd) + unat (frame_count nd)}"

text \<open>Consecutive nodes that cover the frame numbers from \<open>a\<close> to \<open>b\<close>.\<close>

fun tiles :: "nat \<Rightarrow> nat \<Rightarrow> pmm_numa_node list \<Rightarrow> bool" where
  "tiles a b [] = (a = b)"
| "tiles a b (nd # nds) = (unat (first_frame nd) = a \<and> tiles (a + unat (frame_count nd)) b nds)"

definition layout_ok :: "pmm \<Rightarrow> bool" where
  "layout_ok s \<longleftrightarrow>
     length (numa_nodes s) = 8 \<and>
     0 < active_numa_node_count s \<and> active_numa_node_count s \<le> PMM_MAX_NUMA_NODES \<and>
     total_frames s \<le> 0x100000 \<and>
     tiles 0 (unat (total_frames s)) (take (unat (active_numa_node_count s)) (numa_nodes s))"

definition counts_ok :: "pmm \<Rightarrow> bool" where
  "counts_ok s \<longleftrightarrow>
     unat (free_frames s) = card (free_set s) \<and>
     (\<forall>i < unat (active_numa_node_count s).
        unat (node_free_frames (numa_nodes s ! i)) = card (free_set s \<inter> node_frames (numa_nodes s ! i)))"

definition pmm_inv :: "pmm \<Rightarrow> bool" where
  "pmm_inv s \<longleftrightarrow> layout_ok s \<and> counts_ok s"

lemma finite_free_set [simp]: "finite (free_set s)"
  by (rule finite_subset [OF subset_UNIV]) simp

lemma card_free_set_le: "card (free_set s) \<le> unat (total_frames s)"
proof -
  have "card (free_set s) = card (unat ` free_set s)"
    by (rule card_image [symmetric]) (simp add: inj_on_def word_unat_eq_iff)
  also have "\<dots> \<le> card {..<unat (total_frames s)}"
    by (intro card_mono) (auto simp: free_set_def word_less_nat_alt)
  finally show ?thesis by simp
qed

lemma tiles_le: "tiles a b nds \<Longrightarrow> a \<le> b"
  by (induction nds arbitrary: a) fastforce+

lemma tiles_node_end:
  "tiles a b nds \<Longrightarrow> nd \<in> set nds \<Longrightarrow>
     a \<le> unat (first_frame nd) \<and> unat (first_frame nd) + unat (frame_count nd) \<le> b"
proof (induction nds arbitrary: a)
  case (Cons n nds)
  then show ?case using tiles_le [of "a + unat (frame_count n)" b nds] by fastforce
qed simp

lemma tiles_cover:
  "tiles a b nds \<Longrightarrow> a \<le> unat f \<Longrightarrow> unat f < b \<Longrightarrow> \<exists>i<length nds. f \<in> node_frames (nds ! i)"
proof (induction nds arbitrary: a)
  case (Cons n nds)
  show ?case
  proof (cases "unat f < a + unat (frame_count n)")
    case True
    then show ?thesis using Cons.prems by (intro exI [of _ 0]) (simp add: node_frames_def)
  next
    case False
    then have "\<exists>i<length nds. f \<in> node_frames (nds ! i)"
      using Cons.IH [of "a + unat (frame_count n)"] Cons.prems by simp
    then show ?thesis by auto
  qed
qed simp

lemma tiles_nth_order:
  "tiles a b nds \<Longrightarrow> i < j \<Longrightarrow> j < length nds \<Longrightarrow>
     unat (first_frame (nds ! i)) + unat (frame_count (nds ! i)) \<le> unat (first_frame (nds ! j))"
proof (induction nds arbitrary: a i j)
  case (Cons n nds)
  show ?case
  proof (cases i)
    case 0
    then have "nds ! (j - 1) \<in> set nds" using Cons.prems(2,3) by simp
    then show ?thesis
      using tiles_node_end [of "a + unat (frame_count n)" b nds] Cons.prems 0 by (cases j) auto
  next
    case (Suc k)
    then show ?thesis using Cons by (cases j) auto
  qed
qed simp

lemma tiles_disjoint:
  assumes "tiles a b nds" "i < length nds" "j < length nds" "i \<noteq> j"
  shows "node_frames (nds ! i) \<inter> node_frames (nds ! j) = {}"
proof (cases "i < j")
  case True
  then show ?thesis using tiles_nth_order [OF assms(1) True assms(3)] by (auto simp: node_frames_def)
next
  case False
  then have "j < i" using assms(4) by simp
  then show ?thesis using tiles_nth_order [OF assms(1) _ assms(2)] by (force simp: node_frames_def)
qed

subsection \<open>Nodes of a well-formed layout\<close>

lemma active_less: "layout_ok s \<Longrightarrow> unat (active_numa_node_count s) \<le> 8"
  by (simp add: layout_ok_def PMM_MAX_NUMA_NODES_def word_le_nat_alt)

lemma layout_nodes:
  assumes "layout_ok s" "i < unat (active_numa_node_count s)"
  shows "unat (first_frame (numa_nodes s ! i) + frame_count (numa_nodes s ! i)) =
           unat (first_frame (numa_nodes s ! i)) + unat (frame_count (numa_nodes s ! i))"
    and "unat (first_frame (numa_nodes s ! i)) + unat (frame_count (numa_nodes s ! i)) \<le> unat (total_frames s)"
    and "pmm_node_contains_frame (numa_nodes s ! i) f \<longleftrightarrow> f \<in> node_frames (numa_nodes s ! i)"
proof -
  let ?nds = "take (unat (active_numa_node_count s)) (numa_nodes s)"
  have len: "length ?nds = unat (active_numa_node_count s)"
    using active_less [OF assms(1)] assms(1) by (simp add: layout_ok_def)
  then have "numa_nodes s ! i \<in> set ?nds" using assms(2) by (metis nth_mem nth_take)
  then show le: "unat (first_frame (numa_nodes s ! i)) + unat (frame_count (numa_nodes s ! i)) \<le> unat (total_frames s)"
    using tiles_node_end assms(1) by (auto simp: layout_ok_def)
  then show sum: "unat (first_frame (numa_nodes s ! i) + frame_count (numa_nodes s ! i)) =
           unat (first_frame (numa_nodes s ! i)) + unat (frame_count (numa_nodes s ! i))"
    using unat_u32_less [of "total_frames s"] by (intro unat_add_lem [THEN iffD1]) simp
  show "pmm_node_contains_frame (numa_nodes s ! i) f \<longleftrightarrow> f \<in> node_frames (numa_nodes s ! i)"
    using sum by (auto simp: pmm_node_contains_frame_def node_frames_def word_le_nat_alt word_less_nat_alt)
qed

lemma node_index_for_frame:
  assumes "layout_ok s" "f < total_frames s"
  obtains i where "i < unat (active_numa_node_count s)" "f \<in> node_frames (numa_nodes s ! i)"
    "pmm_node_index_for_frame s f = of_nat i" "i < 8"
proof -
  let ?k = "unat (active_numa_node_count s)"
  have len: "length (take ?k (numa_nodes s)) = ?k"
    using active_less [OF assms(1)] assms(1) by (simp add: layout_ok_def)
  obtain j where "j < ?k" "f \<in> node_frames (numa_nodes s ! j)"
    using tiles_cover [of 0 "unat (total_frames s)" "take ?k (numa_nodes s)" f] assms len
    by (auto simp: layout_ok_def word_less_nat_alt)
  then have "List.find (\<lambda>i. pmm_node_contains_frame (numa_nodes s ! i) f) [0..<?k] \<noteq> None"
    using layout_nodes(3) [OF assms(1)] by (auto simp: find_None_iff)
  then obtain i where i: "List.find (\<lambda>i. pmm_node_contains_frame (numa_nodes s ! i) f) [0..<?k] = Some i"
    by blast
  then have "i < ?k" "f \<in> node_frames (numa_nodes s ! i)"
    using layout_nodes(3) [OF assms(1)] by (auto simp: find_Some_iff)
  then show ?thesis
    using that i active_less [OF assms(1)] by (simp add: pmm_node_index_for_frame_def)
qed

lemma unat_node_index: "i < 8 \<Longrightarrow> unat (of_nat i :: u8) = i \<and> (of_nat i :: u8) \<noteq> PMM_NUMA_NODE_ANY"
proof -
  assume "i < 8"
  then have "unat (of_nat i :: u8) = i" by (simp add: unat_of_nat)
  moreover have "unat PMM_NUMA_NODE_ANY = 255" by (simp add: PMM_NUMA_NODE_ANY_def)
  ultimately show ?thesis using \<open>i < 8\<close> by fastforce
qed

section \<open>Single frames\<close>

text \<open>Nothing but the bitmap, the counters and the scan positions has changed.\<close>

definition same_layout :: "pmm \<Rightarrow> pmm \<Rightarrow> bool" where
  "same_layout s s' \<longleftrightarrow>
     total_frames s' = total_frames s \<and> active_numa_node_count s' = active_numa_node_count s \<and>
     initialized s' = initialized s \<and> bitmap_base s' = bitmap_base s \<and>
     map (\<lambda>nd. (first_frame nd, frame_count nd)) (numa_nodes s') =
     map (\<lambda>nd. (first_frame nd, frame_count nd)) (numa_nodes s)"

definition becomes :: "pmm \<Rightarrow> u32 set \<Rightarrow> pmm \<Rightarrow> bool" where
  "becomes s F s' \<longleftrightarrow> pmm_inv s' \<and> free_set s' = F \<and> same_layout s s'"

lemma tiles_map_cong:
  "map (\<lambda>nd. (first_frame nd, frame_count nd)) xs = map (\<lambda>nd. (first_frame nd, frame_count nd)) ys \<Longrightarrow>
     tiles a b xs = tiles a b ys"
  by (induction xs ys arbitrary: a rule: list_induct2') auto

lemma same_layout_length: "same_layout s s' \<Longrightarrow> length (numa_nodes s') = length (numa_nodes s)"
  unfolding same_layout_def by (elim conjE, drule map_eq_imp_length_eq)

lemma same_layout_ok: "same_layout s s' \<Longrightarrow> layout_ok s \<Longrightarrow> layout_ok s'"
proof -
  assume sl: "same_layout s s'" and "layout_ok s"
  moreover have "tiles a b (take k (numa_nodes s')) = tiles a b (take k (numa_nodes s))" for a b k
    using sl by (intro tiles_map_cong) (simp add: same_layout_def flip: take_map)
  ultimately show "layout_ok s'"
    using same_layout_length [OF sl] by (simp add: layout_ok_def same_layout_def)
qed

lemma same_layout_node:
  assumes "same_layout s s'" "layout_ok s" "i < unat (active_numa_node_count s)"
  shows "node_frames (numa_nodes s' ! i) = node_frames (numa_nodes s ! i)"
    and "first_frame (numa_nodes s' ! i) = first_frame (numa_nodes s ! i)"
    and "frame_count (numa_nodes s' ! i) = frame_count (numa_nodes s ! i)"
proof -
  have i: "i < length (numa_nodes s)" using assms(2,3) active_less [OF assms(2)] by (simp add: layout_ok_def)
  moreover have "length (numa_nodes s') = length (numa_nodes s)"
    by (rule same_layout_length [OF assms(1)])
  moreover have "map (\<lambda>nd. (first_frame nd, frame_count nd)) (numa_nodes s') ! i =
      map (\<lambda>nd. (first_frame nd, frame_count nd)) (numa_nodes s) ! i"
    using assms(1) by (simp add: same_layout_def)
  ultimately show "first_frame (numa_nodes s' ! i) = first_frame (numa_nodes s ! i)"
    "frame_count (numa_nodes s' ! i) = frame_count (numa_nodes s ! i)" by simp_all
  then show "node_frames (numa_nodes s' ! i) = node_frames (numa_nodes s ! i)"
    by (simp add: node_frames_def)
qed

lemma same_layout_refl [simp]: "same_layout s s"
  by (simp add: same_layout_def)

lemma same_layout_trans: "same_layout s s' \<Longrightarrow> same_layout s' s'' \<Longrightarrow> same_layout s s''"
  by (simp add: same_layout_def)

lemma becomes_refl: "pmm_inv s \<Longrightarrow> becomes s (free_set s) s"
  by (simp add: becomes_def)

lemma becomes_trans: "becomes s F s' \<Longrightarrow> becomes s' G s'' \<Longrightarrow> becomes s G s''"
  by (auto simp: becomes_def intro: same_layout_trans)

lemma same_layout_set_node:
  "(\<And>nd. first_frame (g nd) = first_frame nd \<and> frame_count (g nd) = frame_count nd) \<Longrightarrow>
     same_layout s (set_node node g s)"
proof (cases "unat node < length (numa_nodes s)")
  case True
  assume "\<And>nd. first_frame (g nd) = first_frame nd \<and> frame_count (g nd) = frame_count nd"
  then have "map (\<lambda>nd. (first_frame nd, frame_count nd)) (numa_nodes (set_node node g s)) =
      (map (\<lambda>nd. (first_frame nd, frame_count nd)) (numa_nodes s))
        [unat node := map (\<lambda>nd. (first_frame nd, frame_count nd)) (numa_nodes s) ! unat node]"
    using True by (simp add: set_node_def map_update)
  then show ?thesis by (simp add: same_layout_def set_node_def)
qed (simp add: same_layout_def set_node_def list_update_beyond)

lemma free_set_set_node [simp]: "free_set (set_node node g s) = free_set s"
  by (simp add: free_set_def) (simp add: set_node_def)

text \<open>Updates that touch only scan positions keep the invariant.\<close>

lemma becomes_scan:
  assumes "pmm_inv s" "\<And>nd. first_frame (g nd) = first_frame nd \<and> frame_count (g nd) = frame_count nd \<and>
      node_free_frames (g nd) = node_free_frames nd"
  shows "becomes s (free_set s) (set_node node g s)"
proof -
  have sl: "same_layout s (set_node node g s)" using assms(2) by (intro same_layout_set_node) simp
  have "node_free_frames (numa_nodes (set_node node g s) ! i) = node_free_frames (numa_nodes s ! i)" for i
    using assms(2) by (cases "unat node < length (numa_nodes s)"; cases "i = unat node")
      (simp_all add: set_node_def list_update_beyond)
  then show ?thesis
    using assms(1) sl same_layout_ok [OF sl] same_layout_node [OF sl]
    by (auto simp: becomes_def pmm_inv_def counts_ok_def set_node_def free_set_def)
qed

lemma becomes_robin:
  assumes "becomes s F s'"
  shows "becomes s F (s'\<lparr>round_robin_numa_node := r\<rparr>)" "becomes s F (s'\<lparr>global_next_scan_frame := g\<rparr>)"
  using assms
  by (auto simp: becomes_def pmm_inv_def layout_ok_def counts_ok_def same_layout_def free_set_def)

subsection \<open>Reserving and releasing one frame\<close>

lemma card_minus_node:
  assumes "f \<in> F" "finite F"
  shows "card ((F - {f}) \<inter> N) = (if f \<in> N then card (F \<inter> N) - 1 else card (F \<inter> N))"
proof -
  have "(F - {f}) \<inter> N = F \<inter> N - {f}" by blast
  then show ?thesis using assms by auto
qed

lemma card_insert_node:
  assumes "f \<notin> F" "finite F"
  shows "card (insert f F \<inter> N) = (if f \<in> N then Suc (card (F \<inter> N)) else card (F \<inter> N))"
  using assms by auto

text \<open>A change of the free set by one frame, with the matching change of the counters.\<close>

lemma becomes_counts:
  assumes inv: "pmm_inv s" and i: "i < unat (active_numa_node_count s)" "f \<in> node_frames (numa_nodes s ! i)"
    and sl: "same_layout s s'" and "free_set s' = F"
    and tot: "unat (free_frames s') = card F"
    and at: "unat (node_free_frames (numa_nodes s' ! i)) = card (F \<inter> node_frames (numa_nodes s ! i))"
    and off: "\<And>j. j \<noteq> i \<Longrightarrow> node_free_frames (numa_nodes s' ! j) = node_free_frames (numa_nodes s ! j)"
    and chg: "\<And>N. f \<notin> N \<Longrightarrow> card (F \<inter> N) = card (free_set s \<inter> N)"
  shows "becomes s F s'"
proof -
  have lay: "layout_ok s" using inv by (simp add: pmm_inv_def)
  have len: "length (take (unat (active_numa_node_count s)) (numa_nodes s)) = unat (active_numa_node_count s)"
    using active_less [OF lay] lay by (simp add: layout_ok_def)
  have "f \<notin> node_frames (numa_nodes s ! j)" if "j < unat (active_numa_node_count s)" "j \<noteq> i" for j
  proof -
    have "node_frames (take (unat (active_numa_node_count s)) (numa_nodes s) ! i) \<inter>
        node_frames (take (unat (active_numa_node_count s)) (numa_nodes s) ! j) = {}"
      using tiles_disjoint lay that i(1) len unfolding layout_ok_def by metis
    then show ?thesis using i that by auto
  qed
  then have "unat (node_free_frames (numa_nodes s' ! j)) = card (F \<inter> node_frames (numa_nodes s' ! j))"
    if "j < unat (active_numa_node_count s)" for j
    using that inv at off chg same_layout_node [OF sl lay that]
    by (cases "j = i") (auto simp: pmm_inv_def counts_ok_def)
  then show ?thesis
    using assms same_layout_ok [OF sl lay]
    by (auto simp: becomes_def pmm_inv_def counts_ok_def same_layout_def)
qed

lemma same_layout_simps:
  "same_layout s s' \<Longrightarrow> same_layout s (s'\<lparr>free_frames := n\<rparr>)"
  "same_layout s s' \<Longrightarrow> same_layout s (bitmap_set f s')"
  "same_layout s s' \<Longrightarrow> same_layout s (bitmap_clear f s')"
  by (simp_all add: same_layout_def bitmap_set_def bitmap_clear_def)

lemma reserve_frame_ok:
  assumes inv: "pmm_inv s" and res: "reserve_frame_locked f s = (ok, s')"
  shows "ok \<longleftrightarrow> f \<in> free_set s" "becomes s (free_set s - {f}) s'"
proof -
  show ok: "ok \<longleftrightarrow> f \<in> free_set s"
    using res by (auto simp: reserve_frame_locked_def free_set_def Let_def split: if_splits)
  show "becomes s (free_set s - {f}) s'"
  proof (cases ok)
    case False
    then have "s' = s" using res by (auto simp: reserve_frame_locked_def Let_def split: if_splits)
    then show ?thesis using becomes_refl [OF inv] False ok by simp
  next
    case True
    then have f: "f \<in> free_set s" "f < total_frames s" using ok by (auto simp: free_set_def)
    have lay: "layout_ok s" using inv by (simp add: pmm_inv_def)
    obtain i where i: "i < unat (active_numa_node_count s)" "f \<in> node_frames (numa_nodes s ! i)"
      "pmm_node_index_for_frame s f = of_nat i" "i < 8"
      using node_index_for_frame [OF lay f(2)] .
    let ?s2 = "(bitmap_set f s)\<lparr>free_frames := free_frames s - 1\<rparr>"
    have pos: "0 < card (free_set s)" "0 < card (free_set s \<inter> node_frames (numa_nodes s ! i))"
      using f(1) i(2) by (auto simp: card_gt_0_iff)
    then have cnt: "unat (free_frames s) = card (free_set s)" "free_frames s > 0"
      "unat (node_free_frames (numa_nodes s ! i)) = card (free_set s \<inter> node_frames (numa_nodes s ! i))"
      "node_free_frames (numa_nodes s ! i) > 0"
      using inv i(1) by (auto simp: pmm_inv_def counts_ok_def word_less_nat_alt)
    have s': "s' = set_node (of_nat i) (\<lambda>nd. nd\<lparr>node_free_frames := node_free_frames nd - 1\<rparr>) ?s2"
      using res f i cnt unat_node_index [OF i(4)]
      by (auto simp: reserve_frame_locked_def free_set_def Let_def bitmap_set_def
          pmm_node_index_for_frame_def split: if_splits)
    have len: "i < length (numa_nodes s)" using lay i(4) by (simp add: layout_ok_def)
    have F: "free_set s' = free_set s - {f}"
      by (auto simp: s' free_set_def) (simp_all add: set_node_def bitmap_set_def)
    show ?thesis
    proof (rule becomes_counts [OF inv i(1,2) _ F])
      show "same_layout s s'"
        unfolding s' by (rule same_layout_trans [OF _ same_layout_set_node]) (simp_all add: same_layout_simps)
      show "unat (free_frames s') = card (free_set s - {f})"
        using cnt f(1) by (simp add: s' set_node_def unat_minus_one unat_gt_0)
      show "unat (node_free_frames (numa_nodes s' ! i)) = card ((free_set s - {f}) \<inter> node_frames (numa_nodes s ! i))"
        using cnt len unat_node_index [OF i(4)] card_minus_node [OF f(1)] i(2)
        by (simp add: s' set_node_def bitmap_set_def unat_minus_one unat_gt_0)
      show "node_free_frames (numa_nodes s' ! j) = node_free_frames (numa_nodes s ! j)" if "j \<noteq> i" for j
        using that unat_node_index [OF i(4)] by (simp add: s' set_node_def bitmap_set_def)
    qed (simp add: card_minus_node [OF f(1)])
  qed
qed

lemma release_frame_ok:
  assumes inv: "pmm_inv s" and res: "release_frame_locked f s = (ok, s')"
  shows "ok \<longleftrightarrow> f < total_frames s \<and> f \<notin> free_set s"
    "becomes s (if f < total_frames s then insert f (free_set s) else free_set s) s'"
proof -
  show ok: "ok \<longleftrightarrow> f < total_frames s \<and> f \<notin> free_set s"
    using res by (auto simp: release_frame_locked_def free_set_def Let_def split: if_splits)
  show "becomes s (if f < total_frames s then insert f (free_set s) else free_set s) s'"
  proof (cases ok)
    case False
    then have "s' = s" using res by (auto simp: release_frame_locked_def Let_def split: if_splits)
    then show ?thesis using becomes_refl [OF inv] False ok by (auto simp: insert_absorb)
  next
    case True
    then have f: "f \<notin> free_set s" "f < total_frames s" "bitmap_test f s" using ok by (auto simp: free_set_def)
    have lay: "layout_ok s" using inv by (simp add: pmm_inv_def)
    obtain i where i: "i < unat (active_numa_node_count s)" "f \<in> node_frames (numa_nodes s ! i)"
      "pmm_node_index_for_frame s f = of_nat i" "i < 8"
      using node_index_for_frame [OF lay f(2)] .
    let ?s2 = "(bitmap_clear f s)\<lparr>free_frames := free_frames s + 1\<rparr>"
    have s': "s' = set_node (of_nat i) (\<lambda>nd. nd\<lparr>node_free_frames := node_free_frames nd + 1\<rparr>) ?s2"
      using res f i unat_node_index [OF i(4)]
      by (auto simp: release_frame_locked_def Let_def bitmap_clear_def
          pmm_node_index_for_frame_def split: if_splits)
    have len: "i < length (numa_nodes s)" using lay i(4) by (simp add: layout_ok_def)
    have F: "free_set s' = insert f (free_set s)"
      using f(2) by (auto simp: s' free_set_def) (simp_all add: set_node_def bitmap_clear_def)
    have cnt: "unat (free_frames s) = card (free_set s)"
      "unat (node_free_frames (numa_nodes s ! i)) = card (free_set s \<inter> node_frames (numa_nodes s ! i))"
      using inv i(1) by (auto simp: pmm_inv_def counts_ok_def)
    moreover have "card (free_set s \<inter> node_frames (numa_nodes s ! i)) \<le> card (free_set s)"
      by (intro card_mono) auto
    moreover have "card (free_set s) \<le> 0x100000"
      using card_free_set_le [of s] lay by (simp add: layout_ok_def word_le_nat_alt)
    ultimately have suc: "unat (free_frames s + 1) = Suc (unat (free_frames s))"
      "unat (node_free_frames (numa_nodes s ! i) + 1) = Suc (unat (node_free_frames (numa_nodes s ! i)))"
      by (simp_all add: unat_word_ariths)
    have "becomes s (insert f (free_set s)) s'"
    proof (rule becomes_counts [OF inv i(1,2) _ F])
      show "same_layout s s'"
        unfolding s' by (rule same_layout_trans [OF _ same_layout_set_node]) (simp_all add: same_layout_simps)
      show "unat (free_frames s') = card (insert f (free_set s))"
        using cnt suc f(1) by (simp add: s' set_node_def)
      show "unat (node_free_frames (numa_nodes s' ! i)) = card (insert f (free_set s) \<inter> node_frames (numa_nodes s ! i))"
        using cnt suc len unat_node_index [OF i(4)] i(2) f(1)
        by (simp add: s' set_node_def bitmap_clear_def)
      show "node_free_frames (numa_nodes s' ! j) = node_free_frames (numa_nodes s ! j)" if "j \<noteq> i" for j
        using that unat_node_index [OF i(4)] by (simp add: s' set_node_def bitmap_clear_def)
    qed (simp add: card_insert_node [OF f(1)])
    then show ?thesis using f(2) by simp
  qed
qed

end
