(* ===== verification/Phys_Mem_Alloc.thy ===== *)
theory Phys_Mem_Alloc
  imports Phys_Mem_Inv
begin

text \<open>
  The searches of \<^verbatim>\<open>kernel/kernel/pmm.c\<close>: the next-fit scan of a node, the run search of the contiguous
  allocator, the round-robin order of the nodes, and the two allocators built from them.
\<close>

section \<open>Searching\<close>

lemma reserve_fail_same: "reserve_frame_locked f s = (False, s') \<Longrightarrow> s' = s"
  by (auto simp: reserve_frame_locked_def Let_def split: if_splits)

lemma scan_frames_ok:
  assumes "pmm_inv s" "scan_frames_loop f fend s = (r, s')" "fend \<le> total_frames s"
  shows "case r of
           Some g \<Rightarrow> f \<le> g \<and> g < fend \<and> g \<in> free_set s \<and> becomes s (free_set s - {g}) s'
         | None \<Rightarrow> s' = s \<and> (\<forall>h. f \<le> h \<and> h < fend \<longrightarrow> h \<notin> free_set s)"
  using assms
proof (induction f fend s arbitrary: r s' rule: scan_frames_loop.induct)
  case (1 f fend s)
  show ?case
  proof (cases "f < fend \<and> f \<notin> free_set s")
    case True
    then have tst: "bitmap_test f s" using "1.prems"(3) by (auto simp: free_set_def)
    then have "scan_frames_loop (f + 1) fend s = (r, s')"
      using "1.prems"(2) True by (simp add: scan_frames_loop.simps [of f])
    then show ?thesis
      using "1.IH"(1) [of r s'] True tst "1.prems"(1,3)
      by (auto simp: word_succ_le_iff split: option.splits) (metis order_le_less word_succ_le_iff)+
  next
    case False
    obtain ok s1 where s1: "reserve_frame_locked f s = (ok, s1)" by fastforce
    then have "f < fend \<Longrightarrow> ok" "becomes s (free_set s - {f}) s1"
      using False reserve_frame_ok [OF "1.prems"(1) s1] by auto
    then show ?thesis
      using False "1.prems"(2) s1 by (auto simp: scan_frames_loop.simps [of f] free_set_def split: if_splits)
  qed
qed

lemma node_frames_split:
  assumes "layout_ok s" "i < unat (active_numa_node_count s)" "cur \<in> node_frames (numa_nodes s ! i)"
  shows "h \<in> node_frames (numa_nodes s ! i) \<longleftrightarrow>
     cur \<le> h \<and> h < first_frame (numa_nodes s ! i) + frame_count (numa_nodes s ! i) \<or>
     first_frame (numa_nodes s ! i) \<le> h \<and> h < cur"
  using layout_nodes(1) [OF assms(1,2)] assms(3)
  by (auto simp: node_frames_def word_le_nat_alt word_less_nat_alt)

lemma find_in_node_ok:
  assumes inv: "pmm_inv s" and node: "node < active_numa_node_count s"
    and res: "pmm_find_free_frame_in_node_locked node s = (r, s')"
  shows "case r of
           Some g \<Rightarrow> g \<in> free_set s \<inter> node_frames (numa_nodes s ! unat node) \<and> becomes s (free_set s - {g}) s'
         | None \<Rightarrow> s' = s \<and> free_set s \<inter> node_frames (numa_nodes s ! unat node) = {}"
proof -
  let ?nd = "numa_nodes s ! unat node"
  let ?st = "first_frame ?nd" and ?fend = "first_frame ?nd + frame_count ?nd"
  define cur where "cur = (if pmm_node_contains_frame ?nd (next_scan_frame ?nd) then next_scan_frame ?nd else ?st)"
  have i: "unat node < unat (active_numa_node_count s)" using node by (simp add: word_less_nat_alt)
  have nle: "\<not> active_numa_node_count s \<le> node" using node by simp
  have lay: "layout_ok s" using inv by (simp add: pmm_inv_def)
  have cnt: "unat (node_free_frames ?nd) = card (free_set s \<inter> node_frames ?nd)"
    using inv i by (simp add: pmm_inv_def counts_ok_def)
  show ?thesis
  proof (cases "frame_count ?nd = 0 \<or> node_free_frames ?nd = 0")
    case True
    then have "free_set s \<inter> node_frames ?nd = {}" using cnt by (auto simp: node_frames_def)
    then show ?thesis using True res nle by (auto simp: pmm_find_free_frame_in_node_locked_def Let_def)
  next
    case False
    have "0 < unat (frame_count ?nd)" using False by (simp add: unat_gt_0)
    then have cur: "cur \<in> node_frames ?nd"
      using layout_nodes(3) [OF lay i] by (auto simp: cur_def node_frames_def)
    note split = node_frames_split [OF lay i cur]
    have le: "?fend \<le> total_frames s" "cur \<le> total_frames s"
      using layout_nodes(1,2) [OF lay i] cur by (auto simp: word_le_nat_alt node_frames_def)
    obtain r1 s1 where l1: "scan_frames_loop cur ?fend s = (r1, s1)" by fastforce
    obtain r2 s2 where l2: "scan_frames_loop ?st cur s1 = (r2, s2)" by fastforce
    note sc1 = scan_frames_ok [OF inv l1 le(1)]
    have step: "becomes s F (set_node node (\<lambda>nd. nd\<lparr>next_scan_frame := v nd\<rparr>) t)" if "becomes s F t" for F t v
      using that becomes_scan [of t "\<lambda>nd. nd\<lparr>next_scan_frame := v nd\<rparr>" node] becomes_trans
      by (auto simp: becomes_def intro: same_layout_trans)
    note eq = res [unfolded pmm_find_free_frame_in_node_locked_def, simplified Let_def cur_def [symmetric]]
    show ?thesis
    proof (cases r1)
      case (Some g)
      then show ?thesis using sc1 eq nle False l1 split step by (auto simp: not_le)
    next
      case None
      then have "s1 = s" using sc1 by simp
      then show ?thesis
        using None sc1 scan_frames_ok [OF inv _ le(2), of ?st r2 s2] eq nle False l1 l2 split step
        by (cases r2) (auto simp: not_le)
    qed
  qed
qed

subsection \<open>Runs of frames\<close>

definition run_free :: "pmm \<Rightarrow> nat \<Rightarrow> nat \<Rightarrow> bool" where
  "run_free s a n \<longleftrightarrow> (\<forall>f. a \<le> unat f \<and> unat f < a + n \<longrightarrow> \<not> bitmap_test f s)"

definition run_set :: "u32 \<Rightarrow> u32 \<Rightarrow> u32 set" where
  "run_set r n = {f. unat r \<le> unat f \<and> unat f < unat r + unat n}"

lemma run_free_0: "run_free s a 0"
  by (auto simp: run_free_def)

lemma contiguous_loop_ok:
  assumes "rl < n" "unat f \<le> unat fend" "0 < rl \<Longrightarrow> unat rs + unat rl = unat f" "run_free s (unat f - unat rl) (unat rl)"
    "unat rl \<le> unat f"
  shows "case contiguous_loop f fend n rs rl s of
     Some r \<Rightarrow> unat f - unat rl \<le> unat r \<and> unat r + unat n \<le> unat fend \<and> run_free s (unat r) (unat n)
   | None \<Rightarrow> \<forall>a \<ge> unat f - unat rl. a + unat n \<le> unat fend \<longrightarrow> \<not> run_free s a (unat n)"
  using assms
proof (induction f fend n rs rl s rule: contiguous_loop.induct)
  case (1 f fend n rs rl s)
  have n: "unat rl < unat n" "unat (rl + 1) = Suc (unat rl)"
    using "1.prems"(1) unat_succ_less [OF "1.prems"(1)] by (simp_all add: word_less_nat_alt)
  consider (stop) "\<not> f < fend" | (used) "f < fend" "bitmap_test f s" | (free) "f < fend" "\<not> bitmap_test f s"
    by blast
  then show ?case
  proof cases
    case stop
    then show ?thesis
      using n "1.prems"(2) by (auto simp: contiguous_loop.simps [of f] word_less_nat_alt)
  next
    case used
    have f: "unat (f + 1) = Suc (unat f)" "unat f < unat fend"
      using used(1) unat_succ_less by (auto simp: word_less_nat_alt)
    have hit: "\<not> run_free s a (unat n)" if "unat f - unat rl \<le> a" "a \<le> unat f" for a
    proof -
      have "unat f < a + unat n" using that n(1) "1.prems"(5) by linarith
      then show ?thesis using that(2) used(2) by (auto simp: run_free_def)
    qed
    have "n \<noteq> 0" using n(1) by auto
    then have "case contiguous_loop (f + 1) fend n rs 0 s of
       Some r \<Rightarrow> Suc (unat f) \<le> unat r \<and> unat r + unat n \<le> unat fend \<and> run_free s (unat r) (unat n)
     | None \<Rightarrow> \<forall>a \<ge> Suc (unat f). a + unat n \<le> unat fend \<longrightarrow> \<not> run_free s a (unat n)"
      using "1.IH"(1) [OF used] f n "1.prems"(1) by (auto simp: run_free_0 word_gt_0 split: option.splits)
    then show ?thesis
      using used hit
      by (auto simp: contiguous_loop.simps [of f] split: option.splits) (metis not_less_eq_eq)
  next
    case free
    have f: "unat (f + 1) = Suc (unat f)" "unat f < unat fend"
      using free(1) unat_succ_less by (auto simp: word_less_nat_alt)
    define rs' where "rs' = (if rl = 0 then f else rs)"
    have rs': "unat rs' = unat f - unat rl" using "1.prems"(3,5) by (auto simp: rs'_def word_gt_0)
    have run: "run_free s (unat f - unat rl) (Suc (unat rl))"
      using "1.prems"(4,5) free(2) by (auto simp: run_free_def less_Suc_eq) (metis word_unat_eq_iff)
    show ?thesis
    proof (cases "rl + 1 = n")
      case True
      then have "unat n = Suc (unat rl)" using n(2) by simp
      then show ?thesis
        using True free rs' run f "1.prems"(5)
        by (simp add: contiguous_loop.simps [of f] rs'_def [symmetric])
    next
      case False
      then have "rl + 1 < n" using n by (simp add: word_less_nat_alt) (metis Suc_lessI word_unat_eq_iff)
      then show ?thesis
        using "1.IH"(2) [OF free refl refl] False free rs' run f n "1.prems"(5)
        by (simp add: contiguous_loop.simps [of f] rs'_def [symmetric] word_gt_0 split: option.splits)
    qed
  qed
qed

lemma find_linear_ok:
  "case pmm_find_contiguous_free_linear_locked st fend n s of
     Some r \<Rightarrow> n \<noteq> 0 \<and> unat st \<le> unat r \<and> unat r + unat n \<le> unat fend \<and> run_free s (unat r) (unat n)
   | None \<Rightarrow> n = 0 \<or> (\<forall>a \<ge> unat st. a + unat n \<le> unat fend \<longrightarrow> \<not> run_free s a (unat n))"
proof (cases "st \<ge> fend \<or> n = 0 \<or> fend - st < n")
  case True
  have "unat n \<noteq> 0" if "n \<noteq> 0" using that by (simp add: unat_gt_0)
  then show ?thesis
    using True by (auto simp: pmm_find_contiguous_free_linear_locked_def word_le_nat_alt word_less_nat_alt
        unat_sub not_le dest: unat_sub)
next
  case False
  then show ?thesis
    using contiguous_loop_ok [of 0 n st fend 0 s]
    by (auto simp: pmm_find_contiguous_free_linear_locked_def run_free_0 word_gt_0 word_le_nat_alt
        split: option.splits)
qed

definition search_point :: "u32 \<Rightarrow> u32 \<Rightarrow> u32 \<Rightarrow> u32" where
  "search_point st fend p = (if p < st \<or> p \<ge> fend then st else p)"

lemma find_wrapped_ok:
  "case pmm_find_contiguous_free_wrapped_locked st fend n p s of
     Some r \<Rightarrow> n \<noteq> 0 \<and> unat st \<le> unat r \<and> unat r + unat n \<le> unat fend \<and> run_free s (unat r) (unat n)
   | None \<Rightarrow> n = 0 \<or> (\<forall>a \<ge> unat st. a + unat n \<le> unat fend \<and>
        (unat (search_point st fend p) \<le> a \<or> a + unat n \<le> unat (search_point st fend p)) \<longrightarrow>
        \<not> run_free s a (unat n))"
proof (cases "st \<ge> fend \<or> n = 0 \<or> fend - st < n")
  case True
  then have "pmm_find_contiguous_free_wrapped_locked st fend n p s = None"
    "pmm_find_contiguous_free_linear_locked st fend n s = None"
    by (auto simp: pmm_find_contiguous_free_wrapped_locked_def pmm_find_contiguous_free_linear_locked_def)
  then show ?thesis using find_linear_ok [where st = st and fend = fend and n = n and s = s] by auto
next
  case False
  let ?p = "search_point st fend p"
  have p: "st \<le> ?p" "?p \<le> fend" using False by (auto simp: search_point_def)
  have "pmm_find_contiguous_free_wrapped_locked st fend n p s =
      (case pmm_find_contiguous_free_linear_locked ?p fend n s of
         Some r \<Rightarrow> Some r
       | None \<Rightarrow> if ?p = st then None else pmm_find_contiguous_free_linear_locked st ?p n s)"
    using False
    by (auto simp: pmm_find_contiguous_free_wrapped_locked_def search_point_def Let_def split: option.splits)
  then show ?thesis
    using find_linear_ok [where st = ?p and fend = fend and n = n and s = s]
      find_linear_ok [where st = st and fend = ?p and n = n and s = s] p
    by (fastforce simp: word_le_nat_alt split: option.splits if_splits)
qed

lemma mem_run_set: "f \<in> run_set r n \<longleftrightarrow> unat r \<le> unat f \<and> unat f < unat r + unat n"
  by (simp add: run_set_def)

lemma run_free_subset:
  "run_free s (unat r) (unat n) \<Longrightarrow> unat r + unat n \<le> unat (total_frames s) \<Longrightarrow> run_set r n \<subseteq> free_set s"
  by (auto simp: run_free_def run_set_def free_set_def word_less_nat_alt)

lemma reserve_contiguous_ok:
  assumes "pmm_inv s" "{f. unat r + unat i \<le> unat f \<and> unat f < unat r + unat n} \<subseteq> free_set s" "i \<le> n"
    "unat r + unat n \<le> unat (total_frames s)"
  shows "\<exists>s'. reserve_contiguous_loop i n r s = (True, s') \<and>
     becomes s (free_set s - {f. unat r + unat i \<le> unat f \<and> unat f < unat r + unat n}) s'"
  using assms
proof (induction i n r s rule: reserve_contiguous_loop.induct)
  case (1 i n r s)
  show ?case
  proof (cases "i < n")
    case False
    then have "unat i = unat n" using "1.prems"(3) by simp
    then have "{f :: u32. unat r + unat i \<le> unat f \<and> unat f < unat r + unat n} = {}" by auto
    then have "becomes s (free_set s - {f. unat r + unat i \<le> unat f \<and> unat f < unat r + unat n}) s"
      unfolding \<open>_ = {}\<close> using becomes_refl [OF "1.prems"(1)] by simp
    then show ?thesis using False by (simp add: reserve_contiguous_loop.simps [of i])
  next
    case True
    have i: "unat (i + 1) = Suc (unat i)" "unat i < unat n" "i + 1 \<le> n"
      using True unat_succ_less [OF True] by (auto simp: word_less_nat_alt word_le_nat_alt)
    have ri: "unat (r + i) = unat r + unat i"
      using i(2) "1.prems"(4) unat_u32_less [of "total_frames s"] by (intro unat_add_lem [THEN iffD1]) simp
    then have mem: "r + i \<in> free_set s" using "1.prems"(2) i(2) by auto
    obtain ok s1 where s1: "reserve_frame_locked (r + i) s = (ok, s1)" by fastforce
    then have ok: "ok" "becomes s (free_set s - {r + i}) s1"
      using reserve_frame_ok [OF "1.prems"(1) s1] mem by auto
    have eq: "{f. unat r + unat i \<le> unat f \<and> unat f < unat r + unat n} =
        insert (r + i) {f. unat r + unat (i + 1) \<le> unat f \<and> unat f < unat r + unat n}"
      using i ri by (auto simp: Suc_le_eq le_less word_unat_eq_iff)
    have "\<exists>s'. reserve_contiguous_loop (i + 1) n r s1 = (True, s') \<and>
        becomes s1 (free_set s1 - {f. unat r + unat (i + 1) \<le> unat f \<and> unat f < unat r + unat n}) s'"
      using "1.IH" [OF True s1 [symmetric]] ok "1.prems"(2,4) i ri
      by (fastforce simp: becomes_def same_layout_def)
    then show ?thesis
      using True s1 ok eq becomes_trans
      by (fastforce simp: reserve_contiguous_loop.simps [of i] becomes_def intro: same_layout_trans)
  qed
qed

lemma becomes_set_scan:
  "becomes s F t \<Longrightarrow> becomes s F (set_node node (\<lambda>nd. nd\<lparr>next_scan_frame := v nd\<rparr>) t)"
  using becomes_scan [of t "\<lambda>nd. nd\<lparr>next_scan_frame := v nd\<rparr>" node]
  by (auto simp: becomes_def intro: same_layout_trans)

lemma reserve_run_ok:
  assumes "pmm_inv s" "run_free s (unat r) (unat n)" "unat r + unat n \<le> unat (total_frames s)"
  shows "\<exists>s'. pmm_reserve_contiguous_locked r n s = (True, s') \<and> becomes s (free_set s - run_set r n) s'"
  using reserve_contiguous_ok [of s r 0 n] run_free_subset [OF assms(2,3)] assms
  by (simp add: pmm_reserve_contiguous_locked_def run_set_def)

lemma find_contiguous_in_node_ok:
  assumes inv: "pmm_inv s" and node: "node < active_numa_node_count s"
    and res: "pmm_find_contiguous_in_node_locked node n s = (r, s')"
  shows "case r of
      Some g \<Rightarrow> n \<noteq> 0 \<and> run_set g n \<subseteq> free_set s \<inter> node_frames (numa_nodes s ! unat node) \<and>
        unat g + unat n \<le> unat (total_frames s) \<and> becomes s (free_set s - run_set g n) s'
    | None \<Rightarrow> s' = s"
proof -
  let ?nd = "numa_nodes s ! unat node"
  let ?st = "first_frame ?nd" and ?fend = "first_frame ?nd + frame_count ?nd"
  let ?cur = "if pmm_node_contains_frame ?nd (next_scan_frame ?nd) then next_scan_frame ?nd else ?st"
  have i: "unat node < unat (active_numa_node_count s)" "\<not> active_numa_node_count s \<le> node"
    using node by (simp_all add: word_less_nat_alt word_le_nat_alt)
  have lay: "layout_ok s" using inv by (simp add: pmm_inv_def)
  note fw = find_wrapped_ok [where st = ?st and fend = ?fend and n = n and p = ?cur and s = s]
  show ?thesis
  proof (cases "n = 0 \<or> frame_count ?nd < n \<or> node_free_frames ?nd < n \<or>
      pmm_find_contiguous_free_wrapped_locked ?st ?fend n ?cur s = None")
    case True
    then have "(r, s') = (None, s)"
      using res i by (auto simp: pmm_find_contiguous_in_node_locked_def Let_def split: if_splits)
    then show ?thesis by simp
  next
    case False
    then obtain g where g: "pmm_find_contiguous_free_wrapped_locked ?st ?fend n ?cur s = Some g" by auto
    then have run: "unat ?st \<le> unat g" "unat g + unat n \<le> unat ?fend" "run_free s (unat g) (unat n)"
      using fw by auto
    then have tot: "unat g + unat n \<le> unat (total_frames s)"
      using layout_nodes(1,2) [OF lay i(1)] by linarith
    obtain t where t: "pmm_reserve_contiguous_locked g n s = (True, t)" "becomes s (free_set s - run_set g n) t"
      using reserve_run_ok [OF inv run(3) tot] by blast
    have "run_set g n \<subseteq> node_frames ?nd"
      using run layout_nodes(1) [OF lay i(1)] by (auto simp: run_set_def node_frames_def)
    moreover have "r = Some g" "becomes s (free_set s - run_set g n) s'"
      using res i False g t becomes_set_scan [OF t(2)]
      by (auto simp: pmm_find_contiguous_in_node_locked_def Let_def split: if_splits)
    ultimately show ?thesis using False tot run_free_subset [OF run(3) tot] by simp
  qed
qed

subsection \<open>The node order\<close>

lemma unat_rotate:
  fixes start k :: u8
  assumes "i < unat k" "unat k \<le> 8" "unat start < unat k"
  shows "unat (ucast (((ucast start :: u32) + of_nat i) mod ucast k) :: u8) = (unat start + i) mod unat k"
proof -
  have "unat ((ucast start :: u32) + of_nat i) = unat start + i"
    using assms by (simp add: unat_word_ariths unat_of_nat unsigned_ucast_eq unsigned_take_bit_eq take_bit_nat_def)
  then have "unat (((ucast start :: u32) + of_nat i) mod ucast k) = (unat start + i) mod unat k"
    using assms by (simp add: unat_mod unsigned_ucast_eq unsigned_take_bit_eq take_bit_nat_def)
  moreover have "(unat start + i) mod unat k < unat k" using assms(1) by simp
  ultimately show ?thesis
    using assms(2) by (simp add: unsigned_ucast_eq unsigned_take_bit_eq take_bit_nat_def)
qed

lemma node_order_set:
  assumes "layout_ok s"
  shows "set (node_order s) = {node. node < active_numa_node_count s}"
proof -
  let ?k = "unat (active_numa_node_count s)"
  define start where "start = round_robin_numa_node s mod active_numa_node_count s"
  define nth_node where "nth_node = (\<lambda>i. ucast (((ucast start :: u32) + of_nat i) mod
      ucast (active_numa_node_count s)) :: u8)"
  have k: "0 < ?k" "?k \<le> 8"
    using assms active_less [OF assms] by (auto simp: layout_ok_def word_less_nat_alt)
  have st: "unat start < ?k" using k(1) by (simp add: start_def unat_mod)
  have rot: "unat (nth_node i) = (unat start + i) mod ?k" if "i < ?k" for i
    unfolding nth_node_def using unat_rotate [OF that k(2) st] .
  have "node \<in> nth_node ` {0..<?k}" if "unat node < ?k" for node
  proof -
    define i where "i = (unat node + (?k - unat start)) mod ?k"
    have "(unat start + i) mod ?k = unat node"
      using that st by (simp add: i_def mod_add_right_eq add.left_commute [of "unat start"])
    then show ?thesis using rot [of i] k(1) by (intro image_eqI [of _ _ i]) (auto simp: i_def word_unat_eq_iff)
  qed
  moreover have "unat (nth_node i) < ?k" if "i < ?k" for i using rot [OF that] k(1) by simp
  ultimately have "nth_node ` {0..<?k} = {node. node < active_numa_node_count s}"
    by (auto simp: word_less_nat_alt)
  then show ?thesis by (simp add: node_order_def Let_def start_def [symmetric] nth_node_def)
qed

text \<open>A search that leaves the state alone when it fails is tried on every node.\<close>

lemma node_loop_None:
  "node_loop search pref nodes s = (None, s') \<Longrightarrow>
   \<forall>node\<in>set nodes. \<forall>t. search node s = (None, t) \<longrightarrow> t = s \<Longrightarrow>
   s' = s \<and> (\<forall>node\<in>set nodes. pref < active_numa_node_count s \<and> node = pref \<or> search node s = (None, s))"
  by (induction nodes) (auto split: if_splits prod.splits option.splits)

lemma node_loop_Some:
  "node_loop search pref nodes s = (Some f, s') \<Longrightarrow>
   \<forall>node\<in>set nodes. \<forall>t. search node s = (None, t) \<longrightarrow> t = s \<Longrightarrow>
   \<exists>node\<in>set nodes. \<exists>t q. search node s = (Some f, t) \<and> s' = t\<lparr>round_robin_numa_node := q\<rparr>"
proof (induction nodes)
  case (Cons node nodes)
  obtain r1 s1 where s1: "search node s = (r1, s1)" by fastforce
  show ?case
  proof (cases "pref \<noteq> PMM_NUMA_NODE_ANY \<and> pref < active_numa_node_count s \<and> node = pref \<or> r1 = None")
    case True
    then have "node_loop search pref nodes s = (Some f, s')" using Cons.prems s1 by (auto split: if_splits)
    then show ?thesis using Cons by auto
  next
    case False
    then show ?thesis using Cons.prems(1) s1 by auto
  qed
qed simp

lemma any_not_active: "layout_ok s \<Longrightarrow> \<not> PMM_NUMA_NODE_ANY < active_numa_node_count s"
  by (auto simp: layout_ok_def PMM_NUMA_NODE_ANY_def PMM_MAX_NUMA_NODES_def word_less_nat_alt word_le_nat_alt)

lemma try_nodes_preferred:
  assumes "layout_ok s" "pref < active_numa_node_count s" "search pref s = (Some g, t)"
  shows "\<exists>q. try_nodes search pref s = ((True, Some g), t\<lparr>round_robin_numa_node := q\<rparr>)"
  using assms any_not_active [OF assms(1)] by (auto simp: try_nodes_def Let_def)

lemma try_nodes_rest:
  assumes "layout_ok s" "pref < active_numa_node_count s \<longrightarrow> search pref s = (None, s)"
  shows "try_nodes search pref s =
     (case node_loop search pref (node_order s) s of (r, s') \<Rightarrow> ((False, r), s'))"
  using assms any_not_active [OF assms(1)] by (auto simp: try_nodes_def Let_def)

lemma try_nodes_None:
  assumes lay: "layout_ok s"
    and same: "\<forall>node < active_numa_node_count s. \<forall>t. search node s = (None, t) \<longrightarrow> t = s"
    and res: "try_nodes search pref s = ((b, None), s')"
  shows "s' = s \<and> \<not> b \<and> (\<forall>node < active_numa_node_count s. search node s = (None, s))"
proof -
  have pref: "pref < active_numa_node_count s \<longrightarrow> search pref s = (None, s)"
    using same res try_nodes_preferred [OF lay, of pref search]
    by (cases "search pref s"; cases "fst (search pref s)") auto
  then have "node_loop search pref (node_order s) s = (None, s')" "\<not> b"
    using try_nodes_rest [of s pref search, OF lay pref] res by (auto split: prod.splits)
  then show ?thesis
    using node_loop_None [of search pref "node_order s" s s'] same pref node_order_set [OF lay] by auto
qed

lemma try_nodes_Some:
  assumes lay: "layout_ok s"
    and same: "\<forall>node < active_numa_node_count s. \<forall>t. search node s = (None, t) \<longrightarrow> t = s"
    and res: "try_nodes search pref s = ((b, Some f), s')"
  obtains node t q where "node < active_numa_node_count s" "search node s = (Some f, t)"
    "s' = t\<lparr>round_robin_numa_node := q\<rparr>"
    "pref < active_numa_node_count s \<and> fst (search pref s) \<noteq> None \<longrightarrow> node = pref"
proof (cases "pref < active_numa_node_count s \<and> fst (search pref s) \<noteq> None")
  case True
  then obtain g t where g: "search pref s = (Some g, t)" by (cases "search pref s") auto
  then show ?thesis using that [of pref t] try_nodes_preferred [of s pref search, OF lay _ g] True res by auto
next
  case False
  then have pref: "pref < active_numa_node_count s \<longrightarrow> search pref s = (None, s)"
    using same by (cases "search pref s") auto
  then have "node_loop search pref (node_order s) s = (Some f, s')"
    using try_nodes_rest [of s pref search, OF lay pref] res by (auto split: prod.splits)
  then obtain node t q where "node \<in> set (node_order s)" "search node s = (Some f, t)"
    "s' = t\<lparr>round_robin_numa_node := q\<rparr>"
    using node_loop_Some [of search pref "node_order s" s f s'] same node_order_set [OF lay] by auto
  then show ?thesis using that False node_order_set [OF lay] by auto
qed

section \<open>Allocation\<close>

lemma frame_addr_roundtrip:
  assumes "unat f < 0x100000"
  shows "(f * PAGE_SIZE) div PAGE_SIZE = f" "unat (f * PAGE_SIZE) = unat f * 0x1000"
proof -
  show "unat (f * PAGE_SIZE) = unat f * 0x1000"
    using assms by (simp add: unat_word_ariths PAGE_SIZE_def)
  then show "(f * PAGE_SIZE) div PAGE_SIZE = f"
    by (simp add: word_unat_eq_iff unat_div PAGE_SIZE_def)
qed

lemma free_frame_bound: "pmm_inv s \<Longrightarrow> f \<in> free_set s \<Longrightarrow> unat f < 0x100000"
  by (auto simp: pmm_inv_def layout_ok_def free_set_def word_less_nat_alt word_le_nat_alt)

lemma free_set_empty_nodes:
  assumes "layout_ok s" "\<forall>node < active_numa_node_count s. free_set s \<inter> node_frames (numa_nodes s ! unat node) = {}"
  shows "free_set s = {}"
proof (rule ccontr)
  assume "free_set s \<noteq> {}"
  then obtain f where f: "f \<in> free_set s" by blast
  then have "f < total_frames s" by (simp add: free_set_def)
  then obtain i where "i < unat (active_numa_node_count s)" "f \<in> node_frames (numa_nodes s ! i)" "i < 8"
    using node_index_for_frame [OF assms(1)] by metis
  moreover from this have "unat (of_nat i :: u8) = i" "(of_nat i :: u8) < active_numa_node_count s"
    using unat_node_index [of i] by (auto simp: word_less_nat_alt)
  ultimately show False using assms(2) f by fastforce
qed

lemma free_frames_zero: "pmm_inv s \<Longrightarrow> free_frames s = 0 \<longleftrightarrow> free_set s = {}"
  by (metis card_0_eq counts_ok_def finite_free_set pmm_inv_def unat_eq_zero)

lemma alloc_frame_ok:
  assumes inv: "pmm_inv s" and init: "initialized s" and res: "pmm_alloc_frame_on_node pref s = (r, s')"
  shows "case r of
      None \<Rightarrow> s' = s \<and> free_set s = {}
    | Some a \<Rightarrow> \<exists>f \<in> free_set s. a = f * PAGE_SIZE \<and> a div PAGE_SIZE = f \<and> becomes s (free_set s - {f}) s' \<and>
        (pref < active_numa_node_count s \<and> free_set s \<inter> node_frames (numa_nodes s ! unat pref) \<noteq> {} \<longrightarrow>
          f \<in> node_frames (numa_nodes s ! unat pref))"
proof (cases "free_set s = {}")
  case True
  then show ?thesis using res free_frames_zero [OF inv] by (simp add: pmm_alloc_frame_on_node_def)
next
  case False
  have lay: "layout_ok s" using inv by (simp add: pmm_inv_def)
  have act: "active_numa_node_count s \<noteq> 0" using lay by (auto simp: layout_ok_def)
  let ?search = "pmm_find_free_frame_in_node_locked"
  note node_ok = find_in_node_ok [OF inv]
  have same: "\<forall>node < active_numa_node_count s. \<forall>t. ?search node s = (None, t) \<longrightarrow> t = s"
    using node_ok by fastforce
  obtain b q t where q: "try_nodes ?search pref s = ((b, q), t)" by (metis prod.collapse)
  have eq: "(r, s') = (map_option (\<lambda>f. f * PAGE_SIZE) q, t)"
    using res q init act False free_frames_zero [OF inv]
    by (auto simp: pmm_alloc_frame_on_node_def split: option.splits)
  show ?thesis
  proof (cases q)
    case None
    then have "\<forall>node < active_numa_node_count s. ?search node s = (None, s)"
      using try_nodes_None [of s ?search pref b t] q lay same by simp
    then have "\<forall>node < active_numa_node_count s. free_set s \<inter> node_frames (numa_nodes s ! unat node) = {}"
      using node_ok by fastforce
    then show ?thesis using free_set_empty_nodes [OF lay] False by simp
  next
    case (Some f)
    obtain node u p where u: "node < active_numa_node_count s" "?search node s = (Some f, u)"
      "t = u\<lparr>round_robin_numa_node := p\<rparr>"
      "pref < active_numa_node_count s \<and> fst (?search pref s) \<noteq> None \<longrightarrow> node = pref"
      using try_nodes_Some [of s ?search pref b f t] q Some lay same by metis
    have f: "f \<in> free_set s" "f \<in> node_frames (numa_nodes s ! unat node)" "becomes s (free_set s - {f}) u"
      using node_ok [OF u(1,2)] by auto
    have "node = pref" if "pref < active_numa_node_count s" "free_set s \<inter> node_frames (numa_nodes s ! unat pref) \<noteq> {}"
      using node_ok [OF that(1), of "fst (?search pref s)" "snd (?search pref s)"] u(4) that
      by (auto split: option.splits)
    then show ?thesis
      using eq Some f u(3) becomes_robin(1) [OF f(3), of p] frame_addr_roundtrip(1) [OF free_frame_bound [OF inv f(1)]]
      by auto
  qed
qed

subsection \<open>Contiguous allocation\<close>

lemma card_frames: "a + n \<le> 2 ^ 32 \<Longrightarrow> card {f :: u32. a \<le> unat f \<and> unat f < a + n} = n"
proof -
  assume le: "a + n \<le> 2 ^ 32"
  have "unat ` {f :: u32. a \<le> unat f \<and> unat f < a + n} = {a..<a + n}"
  proof safe
    fix k assume k: "k \<in> {a..<a + n}"
    then have "unat (of_nat k :: u32) = k" using le by (simp add: unat_of_nat)
    then show "k \<in> unat ` {f :: u32. a \<le> unat f \<and> unat f < a + n}"
      using k by (intro image_eqI [of _ _ "of_nat k"]) auto
  qed auto
  moreover have "inj_on unat {f :: u32. a \<le> unat f \<and> unat f < a + n}"
    by (simp add: inj_on_def word_unat_eq_iff)
  ultimately show ?thesis using card_image by fastforce
qed

lemma run_needs_free:
  assumes "pmm_inv s" "a + n \<le> unat (total_frames s)" "run_free s a n"
  shows "n \<le> unat (free_frames s)"
proof -
  have "{f :: u32. a \<le> unat f \<and> unat f < a + n} \<subseteq> free_set s"
    using assms(2,3) by (auto simp: run_free_def free_set_def word_less_nat_alt)
  then have "card {f :: u32. a \<le> unat f \<and> unat f < a + n} \<le> card (free_set s)"
    by (intro card_mono) auto
  moreover have "a + n \<le> 2 ^ 32" using assms(2) unat_u32_less [of "total_frames s"] by simp
  ultimately show ?thesis using card_frames assms(1) by (simp add: pmm_inv_def counts_ok_def)
qed

lemma becomes_note_run: "becomes s F t \<Longrightarrow> becomes s F (note_run r n t)"
  by (auto simp: note_run_def Let_def intro!: becomes_robin)

definition run_allocated :: "pmm \<Rightarrow> u32 \<Rightarrow> u32 \<Rightarrow> pmm \<Rightarrow> bool" where
  "run_allocated s n r s' \<longleftrightarrow> n \<noteq> 0 \<and> run_set r n \<subseteq> free_set s \<and> unat r + unat n \<le> unat (total_frames s) \<and>
     becomes s (free_set s - run_set r n) s'"

lemma run_allocated_note: "run_allocated s n g t \<Longrightarrow> run_allocated s n g (note_run r m t)"
  by (simp add: run_allocated_def becomes_note_run)

lemma run_start_bound: "pmm_inv s \<Longrightarrow> run_allocated s n r s' \<Longrightarrow> unat r < 0x100000"
  using free_frame_bound [of s r] by (auto simp: run_allocated_def run_set_def unat_gt_0)

lemma alloc_frames_found:
  assumes inv: "pmm_inv s" and init: "initialized s" and "n \<noteq> 0" "n \<le> free_frames s"
    and res: "pmm_alloc_frames_on_node n pref s = (r, s')"
  shows "case r of
      None \<Rightarrow> s' = s \<and> pmm_find_contiguous_free_wrapped_locked 0 (total_frames s) n (global_next_scan_frame s) s = None
    | Some a \<Rightarrow> \<exists>g. a = g * PAGE_SIZE \<and> run_allocated s n g s'"
proof -
  have lay: "layout_ok s" using inv by (simp add: pmm_inv_def)
  have go: "\<not> (\<not> initialized s \<or> active_numa_node_count s = 0 \<or> free_frames s < n)"
    using lay init assms(4) by (auto simp: layout_ok_def)
  let ?search = "\<lambda>node. pmm_find_contiguous_in_node_locked node n"
  note node_ok = find_contiguous_in_node_ok [OF inv]
  have same: "\<forall>node < active_numa_node_count s. \<forall>t. ?search node s = (None, t) \<longrightarrow> t = s"
    using node_ok by fastforce
  obtain b q t where q: "try_nodes ?search pref s = ((b, q), t)" by (metis prod.collapse)
  note eq = res [unfolded pmm_alloc_frames_on_node_def if_not_P [OF \<open>n \<noteq> 0\<close>] if_not_P [OF go] q]
  show ?thesis
  proof (cases q)
    case (Some g)
    obtain node u p where "node < active_numa_node_count s" "?search node s = (Some g, u)"
      "t = u\<lparr>round_robin_numa_node := p\<rparr>"
      using try_nodes_Some [of s ?search pref b g t] q Some lay same by metis
    then have "run_allocated s n g t"
      using node_ok becomes_robin(1) by (fastforce simp: run_allocated_def)
    moreover have "r = Some (g * PAGE_SIZE)" "s' = t \<or> s' = note_run g n t"
      using eq Some by (cases b; simp)+
    ultimately show ?thesis using run_allocated_note by auto
  next
    case None
    then have t: "t = s" "\<not> b" using try_nodes_None [of s ?search pref b t] q lay same by auto
    show ?thesis
    proof (cases "pmm_find_contiguous_free_wrapped_locked 0 (total_frames s) n (global_next_scan_frame s) s")
      case None2: None
      then show ?thesis using eq None t by simp
    next
      case (Some g)
      then have run: "unat g + unat n \<le> unat (total_frames s)" "run_free s (unat g) (unat n)"
        using find_wrapped_ok [where st = 0 and fend = "total_frames s" and n = n and p = "global_next_scan_frame s" and s = s]
        by auto
      obtain u where u: "pmm_reserve_contiguous_locked g n s = (True, u)" "becomes s (free_set s - run_set g n) u"
        using reserve_run_ok [OF inv run(2,1)] by blast
      then have "r = Some (g * PAGE_SIZE)" "s' = note_run g n u" using eq None t Some by auto
      then show ?thesis
        using becomes_note_run [OF u(2)] run run_free_subset [OF run(2,1)] assms(3) by (auto simp: run_allocated_def)
    qed
  qed
qed

lemma alloc_frames_ok:
  assumes inv: "pmm_inv s" and init: "initialized s" and n: "n \<noteq> 0"
    and res: "pmm_alloc_frames_on_node n pref s = (r, s')"
  shows "case r of
      None \<Rightarrow> s' = s \<and> (\<forall>a. a + unat n \<le> unat (total_frames s) \<and>
          (unat (search_point 0 (total_frames s) (global_next_scan_frame s)) \<le> a \<or>
           a + unat n \<le> unat (search_point 0 (total_frames s) (global_next_scan_frame s))) \<longrightarrow>
          \<not> run_free s a (unat n))
    | Some a \<Rightarrow> a div PAGE_SIZE * PAGE_SIZE = a \<and> run_allocated s n (a div PAGE_SIZE) s'"
proof (cases "n \<le> free_frames s")
  case True
  note found = alloc_frames_found [OF inv init n True res]
  show ?thesis
  proof (cases r)
    case None
    then show ?thesis
      using found n find_wrapped_ok [where st = 0 and fend = "total_frames s" and n = n and
          p = "global_next_scan_frame s" and s = s] by auto
  next
    case (Some a)
    then obtain g where "a = g * PAGE_SIZE" "run_allocated s n g s'" using found by auto
    then show ?thesis
      using Some frame_addr_roundtrip(1) [OF run_start_bound [OF inv]] by auto
  qed
next
  case False
  then have "free_frames s < n" by simp
  then have "(r, s') = (None, s)" using res n by (simp add: pmm_alloc_frames_on_node_def)
  moreover have "\<not> run_free s a (unat n)" if "a + unat n \<le> unat (total_frames s)" for a
    using run_needs_free [OF inv that] False by (auto simp: word_le_nat_alt)
  ultimately show ?thesis by simp
qed

end
