(* ===== verification/Phys_Mem_Ranges.thy ===== *)
theory Phys_Mem_Ranges
  imports Phys_Mem_Alloc
begin

text \<open>
  Reserving and releasing byte ranges, the NUMA layout and the recount of its counters
  (\<^verbatim>\<open>kernel/kernel/pmm.c\<close>).
\<close>

section \<open>Ranges\<close>

lemma range_step:
  fixes f fend :: u32
  assumes "f < fend"
  shows "{g. f \<le> g \<and> g < fend} = insert f {g. f + 1 \<le> g \<and> g < fend}"
  using unat_succ_less [OF assms] assms
  by (auto simp: word_le_nat_alt word_less_nat_alt word_unat_eq_iff)

lemma release_range_ok:
  "pmm_inv s \<Longrightarrow> becomes s (free_set s \<union> {g. f \<le> g \<and> g < fend \<and> g < total_frames s}) (release_range_loop f fend s)"
proof (induction f fend s rule: release_range_loop.induct)
  case (1 f fend s)
  show ?case
  proof (cases "f < fend \<and> f < total_frames s")
    case True
    obtain ok s1 where s1: "release_frame_locked f s = (ok, s1)" by fastforce
    then have b: "becomes s (insert f (free_set s)) s1"
      using release_frame_ok(2) [OF "1.prems" s1] True by simp
    have "becomes s1 (free_set s1 \<union> {g. f + 1 \<le> g \<and> g < fend \<and> g < total_frames s1}) (release_range_loop (f + 1) fend s1)"
      using "1.IH" True s1 b by (simp add: becomes_def)
    moreover have "free_set s1 \<union> {g. f + 1 \<le> g \<and> g < fend \<and> g < total_frames s1} =
        free_set s \<union> {g. f \<le> g \<and> g < fend \<and> g < total_frames s}"
      using b range_step [of f fend] True by (auto simp: becomes_def same_layout_def)
    ultimately show ?thesis
      using True s1 becomes_trans [OF b] by (simp add: release_range_loop.simps [of f])
  next
    case False
    then have "{g. f \<le> g \<and> g < fend \<and> g < total_frames s} = {}"
      by (auto simp: word_le_nat_alt word_less_nat_alt)
    then show ?thesis
      using becomes_refl [OF "1.prems"] trans [OF release_range_loop.simps [of f fend s] if_not_P [OF False]]
      by (simp del: Collect_empty_eq)
  qed
qed

lemma reserve_range_ok:
  "pmm_inv s \<Longrightarrow> becomes s (free_set s - {g. f \<le> g \<and> g < fend}) (reserve_range_loop f fend s)"
proof (induction f fend s rule: reserve_range_loop.induct)
  case (1 f fend s)
  show ?case
  proof (cases "f < fend \<and> f < total_frames s")
    case True
    obtain ok s1 where s1: "reserve_frame_locked f s = (ok, s1)" by fastforce
    have b: "becomes s (free_set s - {f}) s1" using reserve_frame_ok(2) [OF "1.prems" s1] .
    have "becomes s1 (free_set s1 - {g. f + 1 \<le> g \<and> g < fend}) (reserve_range_loop (f + 1) fend s1)"
      using "1.IH" True s1 b by (simp add: becomes_def)
    moreover have "free_set s1 - {g. f + 1 \<le> g \<and> g < fend} = free_set s - {g. f \<le> g \<and> g < fend}"
      using b range_step [of f fend] True by (auto simp: becomes_def)
    ultimately show ?thesis
      using True s1 becomes_trans [OF b] by (simp add: reserve_range_loop.simps [of f])
  next
    case False
    then have "free_set s - {g. f \<le> g \<and> g < fend} = free_set s"
      by (auto simp: free_set_def word_le_nat_alt word_less_nat_alt)
    then show ?thesis
      using becomes_refl [OF "1.prems"] trans [OF reserve_range_loop.simps [of f fend s] if_not_P [OF False]]
      by simp
  qed
qed

lemma unat_div_page: "unat (a div PAGE_SIZE) = unat a div 0x1000"
  by (simp add: unat_div PAGE_SIZE_def)

lemma range_end_down:
  "unat (ucast (((ucast (base :: u32) :: u64) + ucast (len :: u32)) div ucast PAGE_SIZE) :: u32) =
     (unat base + unat len) div 0x1000"
proof -
  have s: "unat ((ucast base :: u64) + ucast len) = unat base + unat len" by (rule unat_u64_add_u32)
  then have "unat (((ucast base :: u64) + ucast len) div ucast PAGE_SIZE) = (unat base + unat len) div 0x1000"
    by (simp add: unat_div PAGE_SIZE_def)
  moreover have "(unat base + unat len) div 0x1000 < 2 ^ 32"
    using unat_u32_less [of base] unat_u32_less [of len] by simp
  ultimately show ?thesis by (simp add: unsigned_ucast_eq unsigned_take_bit_eq take_bit_nat_def)
qed

lemma range_end_up:
  "unat (ucast (pmm_align_up_u64 ((ucast (base :: u32) :: u64) + ucast (len :: u32)) PAGE_SIZE div ucast PAGE_SIZE) :: u32) =
     (unat base + unat len + 0xFFF) div 0x1000"
proof -
  let ?e = "(ucast base :: u64) + ucast len"
  have s: "unat ?e = unat base + unat len" by (rule unat_u64_add_u32)
  have b: "unat base + unat len < 2 ^ 33" using unat_u32_less [of base] unat_u32_less [of len] by simp
  have "unat (?e + 0xFFF) = unat base + unat len + 0xFFF"
    using s b by (simp add: unat_word_ariths)
  moreover have "pmm_align_up_u64 ?e PAGE_SIZE = (?e + 0xFFF) AND NOT (mask 12)"
    by (simp add: pmm_align_up_u64_def PAGE_SIZE_def mask_eq_decr_exp) (simp add: ac_simps)
  ultimately have "unat (pmm_align_up_u64 ?e PAGE_SIZE) = (unat base + unat len + 0xFFF) div 0x1000 * 0x1000"
    using unat_and_not_mask [of "?e + 0xFFF" 12] by (simp add: minus_mod_eq_div_mult)
  then have "unat (pmm_align_up_u64 ?e PAGE_SIZE div ucast PAGE_SIZE) = (unat base + unat len + 0xFFF) div 0x1000"
    by (simp add: unat_div PAGE_SIZE_def)
  moreover have "(unat base + unat len + 0xFFF) div 0x1000 < 2 ^ 32" using b by simp
  ultimately show ?thesis by (simp add: unsigned_ucast_eq unsigned_take_bit_eq take_bit_nat_def)
qed

text \<open>The frames a byte range touches, and those from the frame of its start to its last whole frame.\<close>

definition frames_touched :: "u32 \<Rightarrow> u32 \<Rightarrow> u32 set" where
  "frames_touched base len =
     {g. unat base div 0x1000 \<le> unat g \<and> unat g < (unat base + unat len + 0xFFF) div 0x1000}"

definition frames_released :: "u32 \<Rightarrow> u32 \<Rightarrow> u32 set" where
  "frames_released base len =
     {g. unat base div 0x1000 \<le> unat g \<and> unat g < (unat base + unat len) div 0x1000}"

lemma mark_available_ok:
  assumes "pmm_inv s"
  shows "becomes s (free_set s \<union> (frames_released base len \<inter> {g. g < total_frames s}))
           (pmm_mark_available_range base len s)"
proof -
  let ?e = "ucast (((ucast base :: u64) + ucast len) div ucast PAGE_SIZE) :: u32"
  have "{g. base div PAGE_SIZE \<le> g \<and> g < ?e \<and> g < total_frames s} =
      frames_released base len \<inter> {g. g < total_frames s}"
    using range_end_down [of base len]
    by (auto simp: frames_released_def word_le_nat_alt word_less_nat_alt unat_div_page)
  then show ?thesis
    using release_range_ok [OF assms, of "base div PAGE_SIZE" ?e]
    by (simp add: pmm_mark_available_range_def Let_def)
qed

lemma pmm_reserve_range_ok:
  assumes "pmm_inv s"
  shows "becomes s (free_set s - frames_touched base len) (pmm_reserve_range base len s)"
proof -
  let ?e = "ucast (pmm_align_up_u64 ((ucast base :: u64) + ucast len) PAGE_SIZE div ucast PAGE_SIZE) :: u32"
  have "{g. base div PAGE_SIZE \<le> g \<and> g < ?e} = frames_touched base len"
    using range_end_up [of base len]
    by (auto simp: frames_touched_def word_le_nat_alt word_less_nat_alt unat_div_page)
  then show ?thesis
    using reserve_range_ok [OF assms, of "base div PAGE_SIZE" ?e]
    by (simp add: pmm_reserve_range_def Let_def)
qed

lemma free_frames_loop_ok:
  "pmm_inv s \<Longrightarrow> becomes s (free_set s \<union> {g. g < total_frames s \<and> (\<exists>k. i \<le> k \<and> k < n \<and> g = f + k)})
     (free_frames_loop i n f s)"
proof (induction i n f s rule: free_frames_loop.induct)
  case (1 i n f s)
  show ?case
  proof (cases "i < n")
    case True
    obtain ok s1 where s1: "release_frame_locked (f + i) s = (ok, s1)" by fastforce
    have b: "becomes s (if f + i < total_frames s then insert (f + i) (free_set s) else free_set s) s1"
      using release_frame_ok(2) [OF "1.prems" s1] .
    have step: "i \<le> k \<and> k < n \<longleftrightarrow> k = i \<or> i + 1 \<le> k \<and> k < n" for k
      using range_step [OF True] by blast
    have "becomes s1 (free_set s1 \<union> {g. g < total_frames s1 \<and> (\<exists>k. i + 1 \<le> k \<and> k < n \<and> g = f + k)})
        (free_frames_loop (i + 1) n f s1)"
      using "1.IH" True s1 b by (simp add: becomes_def)
    moreover have "free_set s1 \<union> {g. g < total_frames s1 \<and> (\<exists>k. i + 1 \<le> k \<and> k < n \<and> g = f + k)} =
        free_set s \<union> {g. g < total_frames s \<and> (\<exists>k. i \<le> k \<and> k < n \<and> g = f + k)}"
      using b unfolding conj_assoc [symmetric] step by (auto simp: becomes_def same_layout_def split: if_splits)
    ultimately show ?thesis
      using True s1 becomes_trans [OF b] by (simp add: free_frames_loop.simps [of i])
  next
    case False
    then have "{g. g < total_frames s \<and> (\<exists>k. i \<le> k \<and> k < n \<and> g = f + k)} = {}" by auto
    then show ?thesis
      using False becomes_refl [OF "1.prems"] by (simp add: free_frames_loop.simps [of i] del: Collect_empty_eq)
  qed
qed

lemma run_set_offsets:
  assumes "unat r + unat n \<le> unat t"
  shows "{g. g < t \<and> (\<exists>k. 0 \<le> k \<and> k < n \<and> g = r + k)} = run_set r n"
proof -
  have sum: "unat (r + k) = unat r + unat k" if "k < n" for k
    using that assms unat_u32_less [of t] by (intro unat_add_lem [THEN iffD1]) (simp add: word_less_nat_alt)
  have "g = r + (g - r) \<and> g - r < n" if "g \<in> run_set r n" for g
    using that by (auto simp: run_set_def word_less_nat_alt unat_sub word_le_nat_alt)
  then show ?thesis
    using sum assms by (fastforce simp: run_set_def word_less_nat_alt)
qed

section \<open>NUMA layout\<close>

lemma numa_layout_loop_ok:
  assumes "length ns = 8" "i \<le> n" "n \<le> 8" "unat remd \<le> n - i"
    "unat cur + (n - i) * unat base + unat remd < 2 ^ 32"
    "ns' = numa_layout_loop [i..<n] base remd cur ns"
  shows "length ns' = 8 \<and> take i ns' = take i ns \<and>
     tiles (unat cur) (unat cur + (n - i) * unat base + unat remd) (drop i (take n ns')) \<and>
     (\<forall>j. i \<le> j \<and> j < n \<longrightarrow> unat (frame_count (ns' ! j)) \<in> {unat base, Suc (unat base)})"
  using assms
proof (induction "n - i" arbitrary: i remd cur ns)
  case 0
  then have "i = n" by simp
  then show ?case using 0 by (simp add: unat_eq_zero)
next
  case (Suc k)
  then have i: "i < n" by simp
  define fr where "fr = base + (if remd > 0 then 1 else 0)"
  define remd' where "remd' = (if remd > 0 then remd - 1 else remd)"
  define nd where "nd = \<lparr>first_frame = cur, frame_count = fr, node_free_frames = 0, next_scan_frame = cur\<rparr>"
  have ns': "ns' = numa_layout_loop [Suc i..<n] base remd' (cur + fr) (ns[i := nd])"
    using Suc.prems(6) i by (simp add: upt_conv_Cons fr_def remd'_def nd_def Let_def)
  have mul: "(n - i) * unat base = unat base + (n - Suc i) * unat base"
    using i by (metis Suc_diff_Suc mult_Suc)
  have remd: "unat remd' = unat remd - 1" by (auto simp: remd'_def unat_minus_one word_gt_0 unat_eq_zero)
  have fr: "unat fr = unat base + (if remd > 0 then 1 else 0)"
  proof (cases "remd > 0")
    case True
    then have "0 < unat remd" by (simp add: word_less_nat_alt)
    then have "unat base + 1 < 2 ^ 32" using Suc.prems(5) mul by linarith
    then show ?thesis using True by (simp add: fr_def unat_word_ariths)
  qed (simp add: fr_def)
  have sum: "unat base + unat remd = unat fr + unat remd'"
    using fr remd by (auto simp: word_gt_0 unat_eq_zero unat_gt_0 word_less_nat_alt)
  have "unat cur + unat fr < 2 ^ 32" using Suc.prems(5) mul sum by linarith
  then have cur: "unat (cur + fr) = unat cur + unat fr" by (simp add: unat_word_ariths)
  have len: "length (ns[i := nd]) = 8" using Suc.prems(1) by simp
  have tot: "unat cur + (n - i) * unat base + unat remd = unat (cur + fr) + (n - Suc i) * unat base + unat remd'"
    using mul sum cur by simp
  have k: "k = n - Suc i" "unat remd' \<le> n - Suc i"
    using Suc.hyps(2) Suc.prems(4) i remd by linarith+
  have IH: "length ns' = 8 \<and> take (Suc i) ns' = take (Suc i) (ns[i := nd]) \<and>
     tiles (unat (cur + fr)) (unat (cur + fr) + (n - Suc i) * unat base + unat remd') (drop (Suc i) (take n ns')) \<and>
     (\<forall>j. Suc i \<le> j \<and> j < n \<longrightarrow> unat (frame_count (ns' ! j)) \<in> {unat base, Suc (unat base)})"
    using Suc.hyps(1) [OF k(1) len _ Suc.prems(3) k(2) _ ns'] Suc.prems(5) i tot by (simp add: Suc_leI)
  have at: "ns' ! i = nd"
  proof -
    have "ns' ! i = take (Suc i) ns' ! i" by simp
    also have "\<dots> = take (Suc i) (ns[i := nd]) ! i" using IH by simp
    finally show ?thesis using i Suc.prems(1,3) by simp
  qed
  have t: "take i ns' = take i ns"
  proof -
    have "take i ns' = take i (take (Suc i) ns')" by simp
    also have "\<dots> = take i (take (Suc i) (ns[i := nd]))" using IH by simp
    finally show ?thesis by simp
  qed
  have d: "drop i (take n ns') = nd # drop (Suc i) (take n ns')"
    using at IH i Suc.prems(3) by (subst Cons_nth_drop_Suc [symmetric]) auto
  have "tiles (unat cur) (unat cur + (n - i) * unat base + unat remd) (drop i (take n ns'))"
    unfolding d tot using IH cur by (simp add: nd_def)
  moreover have "unat (frame_count (ns' ! j)) \<in> {unat base, Suc (unat base)}" if "i \<le> j" "j < n" for j
    using that IH at fr by (cases "j = i") (simp_all add: nd_def)
  ultimately show ?case using IH t by simp
qed

definition numa_geometry :: "u8 \<Rightarrow> pmm \<Rightarrow> bool" where
  "numa_geometry n s \<longleftrightarrow> active_numa_node_count s = n \<and> layout_ok s \<and>
     (\<forall>j < unat n. unat (frame_count (numa_nodes s ! j)) \<in>
        {unat (total_frames s) div unat n, Suc (unat (total_frames s) div unat n)})"

lemma clear_tail_nodes:
  "length ns = 8 \<Longrightarrow> let ns' = fold (\<lambda>node ns. ns[node := z]) [n..<m] ns in
     length ns' = 8 \<and> (\<forall>j < n. ns' ! j = ns ! j)"
  by (induction m) (auto simp: Let_def)

lemma reset_layout_ok:
  assumes "length (numa_nodes s) = 8" "total_frames s \<le> 0x100000" "n \<noteq> 0" "n \<le> PMM_MAX_NUMA_NODES"
  shows "numa_geometry n (pmm_numa_reset_layout n s)"
    "total_frames (pmm_numa_reset_layout n s) = total_frames s"
    "frame_bitmap (pmm_numa_reset_layout n s) = frame_bitmap s"
    "bitmap_base (pmm_numa_reset_layout n s) = bitmap_base s"
    "initialized (pmm_numa_reset_layout n s) = initialized s"
proof -
  let ?t = "total_frames s" and ?s' = "pmm_numa_reset_layout n s"
  have n: "0 < unat n" "unat n \<le> 8" "\<not> PMM_MAX_NUMA_NODES < n"
    using assms(3,4) by (auto simp: unat_gt_0 PMM_MAX_NUMA_NODES_def word_le_nat_alt word_less_nat_alt)
  have un: "unat (ucast n :: u32) = unat n"
    by (rule unat_u32_of_u8)
  define base where "base = ?t div ucast n"
  define remd where "remd = ?t mod ucast n"
  have b: "unat base = unat ?t div unat n" and r: "unat remd = unat ?t mod unat n"
    using un by (simp_all add: base_def remd_def unat_div unat_mod)
  have tot: "(unat n - 0) * unat base + unat remd = unat ?t" by (simp add: b r)
  define ns1 where "ns1 = numa_layout_loop [0..<unat n] base remd 0 (numa_nodes s)"
  have ns1: "length ns1 = 8" "tiles 0 (unat ?t) (take (unat n) ns1)"
    "\<forall>j < unat n. unat (frame_count (ns1 ! j)) \<in> {unat base, Suc (unat base)}"
    using numa_layout_loop_ok [OF assms(1) _ n(2), of 0 remd 0 base ns1] tot r n(1)
      unat_u32_less [of ?t] by (auto simp: ns1_def less_imp_le)
  define z where "z = \<lparr>first_frame = 0 :: u32, frame_count = 0 :: u32, node_free_frames = 0 :: u32,
     next_scan_frame = 0 :: u32\<rparr>"
  have nodes: "numa_nodes ?s' = fold (\<lambda>node ns. ns[node := z]) [unat n..<unat PMM_MAX_NUMA_NODES] ns1"
    "active_numa_node_count ?s' = n"
    using assms(3) n(3) by (simp_all add: pmm_numa_reset_layout_def Let_def ns1_def base_def remd_def z_def)
  have kept: "length (numa_nodes ?s') = 8" "\<forall>j < unat n. numa_nodes ?s' ! j = ns1 ! j"
    using clear_tail_nodes [OF ns1(1), where z = z and n = "unat n" and m = "unat PMM_MAX_NUMA_NODES"] nodes
    by (simp_all add: Let_def)
  then have "take (unat n) (numa_nodes ?s') = take (unat n) ns1"
    using ns1(1) n(2) by (intro nth_equalityI) auto
  then show "numa_geometry n ?s'"
    using kept nodes ns1 b n assms(2,3,4)
    by (auto simp: numa_geometry_def layout_ok_def pmm_numa_reset_layout_def Let_def word_gt_0)
qed (simp_all add: pmm_numa_reset_layout_def Let_def)

subsection \<open>Recounting\<close>

lemma range_mem:
  fixes f fend :: u32
  assumes "f < fend"
  shows "f \<le> g \<and> g < fend \<longleftrightarrow> g = f \<or> f + 1 \<le> g \<and> g < fend"
  using assms unat_succ_less [OF assms]
  by (auto simp: word_le_nat_alt word_less_nat_alt word_unat_eq_iff)

lemma range_filter_step:
  fixes f fend :: u32
  assumes "f < fend"
  shows "{g. f \<le> g \<and> g < fend \<and> P g} =
     (if P f then insert f {g. f + 1 \<le> g \<and> g < fend \<and> P g} else {g. f + 1 \<le> g \<and> g < fend \<and> P g})"
proof -
  have "{g. f \<le> g \<and> g < fend \<and> P g} = {g. (f \<le> g \<and> g < fend) \<and> P g}" by blast
  also have "\<dots> = {g. (g = f \<or> f + 1 \<le> g \<and> g < fend) \<and> P g}"
    by (simp only: range_mem [OF assms])
  finally show ?thesis by auto
qed

lemma count_free_loop_ok:
  "count_free_loop s f fend n = n + of_nat (card {g. f \<le> g \<and> g < fend \<and> \<not> bitmap_test g s})"
proof (induction s f fend n rule: count_free_loop.induct)
  case (1 s f fend n)
  show ?case
  proof (cases "f < fend")
    case True
    let ?A = "{g. f + 1 \<le> g \<and> g < fend \<and> \<not> bitmap_test g s}"
    have f: "f \<notin> ?A" using True unat_succ_less [OF True] by (auto simp: word_le_nat_alt)
    have "card {g. f \<le> g \<and> g < fend \<and> \<not> bitmap_test g s} =
        (if bitmap_test f s then card ?A else Suc (card ?A))"
      unfolding range_filter_step [OF True]
      using card_insert_disjoint [OF finite f] by (cases "bitmap_test f s") (simp_all only: simp_thms if_True if_False)
    moreover have "count_free_loop s f fend n = count_free_loop s (f + 1) fend (if bitmap_test f s then n else n + 1)"
      using True by (subst count_free_loop.simps) (simp only: if_True)
    ultimately show ?thesis unfolding 1 [OF True] by simp
  next
    case False
    then have "{g. f \<le> g \<and> g < fend \<and> \<not> bitmap_test g s} = {}" by auto
    moreover have "count_free_loop s f fend n = n"
      using False by (subst count_free_loop.simps) (simp only: if_False)
    ultimately show ?thesis by (simp only: card.empty) simp
  qed
qed

lemma tiles_card_sum:
  assumes "tiles a b nds" "finite F"
  shows "card (F \<inter> {f. a \<le> unat f \<and> unat f < b}) = (\<Sum>nd\<leftarrow>nds. card (F \<inter> node_frames nd))"
  using assms
proof (induction nds arbitrary: a)
  case (Cons nd nds)
  let ?m = "a + unat (frame_count nd)"
  have "F \<inter> {f. a \<le> unat f \<and> unat f < b} = (F \<inter> node_frames nd) \<union> (F \<inter> {f. ?m \<le> unat f \<and> unat f < b})"
    using Cons.prems(1) tiles_le [of ?m b nds] by (auto simp: node_frames_def)
  moreover have "(F \<inter> node_frames nd) \<inter> (F \<inter> {f. ?m \<le> unat f \<and> unat f < b}) = {}"
    using Cons.prems(1) by (auto simp: node_frames_def)
  ultimately have "card (F \<inter> {f. a \<le> unat f \<and> unat f < b}) =
      card (F \<inter> node_frames nd) + card (F \<inter> {f. ?m \<le> unat f \<and> unat f < b})"
    using Cons.prems(2) by (simp add: card_Un_disjoint)
  then show ?case using Cons by simp
qed auto

lemma recount_loop_ok:
  assumes "layout_ok s" "k \<le> unat (active_numa_node_count s)" "recount_loop [i..<k] tot s = (tot', s')" "i \<le> k"
  shows "same_layout s s' \<and> free_set s' = free_set s \<and>
     tot' = tot + of_nat (\<Sum>j\<leftarrow>[i..<k]. card (free_set s \<inter> node_frames (numa_nodes s ! j))) \<and>
     (\<forall>j < unat (active_numa_node_count s).
        node_free_frames (numa_nodes s' ! j) =
          (if i \<le> j \<and> j < k then of_nat (card (free_set s \<inter> node_frames (numa_nodes s ! j)))
           else node_free_frames (numa_nodes s ! j)))"
  using assms
proof (induction "k - i" arbitrary: i tot s)
  case 0
  then show ?case by auto
next
  case (Suc d)
  then have i: "i < k" "i < unat (active_numa_node_count s)" "d = k - Suc i" by auto
  let ?nd = "numa_nodes s ! i"
  define c where "c = card (free_set s \<inter> node_frames ?nd)"
  define nd where "nd = (let nd1 = ?nd\<lparr>node_free_frames := of_nat c\<rparr> in
     if \<not> pmm_node_contains_frame nd1 (next_scan_frame nd1) then nd1\<lparr>next_scan_frame := first_frame ?nd\<rparr> else nd1)"
  define s1 where "s1 = s\<lparr>numa_nodes := (numa_nodes s)[i := nd]\<rparr>"
  have "{g. first_frame ?nd \<le> g \<and> g < first_frame ?nd + frame_count ?nd \<and> \<not> bitmap_test g s} =
      free_set s \<inter> node_frames ?nd"
    using layout_nodes(1,2) [OF Suc.prems(1) i(2)]
    by (auto simp: free_set_def node_frames_def word_le_nat_alt word_less_nat_alt)
  then have "count_free_loop s (first_frame ?nd) (first_frame ?nd + frame_count ?nd) 0 = of_nat c"
    by (simp add: count_free_loop_ok c_def)
  then have loop: "recount_loop [Suc i..<k] (tot + of_nat c) s1 = (tot', s')"
    using Suc.prems(3) i(1) by (simp add: upt_conv_Cons Let_def nd_def s1_def cong: if_cong)
  have len: "i < length (numa_nodes s)"
    using i(2) active_less [OF Suc.prems(1)] Suc.prems(1) by (simp add: layout_ok_def)
  have sl: "same_layout s s1"
  proof -
    have "first_frame nd = first_frame ?nd" "frame_count nd = frame_count ?nd"
      by (simp_all add: nd_def Let_def)
    then have "map (\<lambda>nd. (first_frame nd, frame_count nd)) ((numa_nodes s)[i := nd]) =
        map (\<lambda>nd. (first_frame nd, frame_count nd)) (numa_nodes s)"
      using len by (simp add: map_update list_update_same_conv)
    then show ?thesis by (simp add: same_layout_def s1_def)
  qed
  have F: "free_set s1 = free_set s" by (simp add: s1_def free_set_def)
  have N: "node_frames (numa_nodes s1 ! j) = node_frames (numa_nodes s ! j)"
    if "j < unat (active_numa_node_count s)" for j
    using same_layout_node(1) [OF sl Suc.prems(1) that] .
  have A: "active_numa_node_count s1 = active_numa_node_count s" by (simp add: s1_def)
  have at: "node_free_frames (numa_nodes s1 ! j) = (if j = i then of_nat c else node_free_frames (numa_nodes s ! j))" for j
    using len by (auto simp: s1_def nd_def Let_def)
  have IH: "same_layout s1 s' \<and> free_set s' = free_set s1 \<and>
     tot' = tot + of_nat c + of_nat (\<Sum>j\<leftarrow>[Suc i..<k]. card (free_set s1 \<inter> node_frames (numa_nodes s1 ! j))) \<and>
     (\<forall>j < unat (active_numa_node_count s1).
        node_free_frames (numa_nodes s' ! j) =
          (if Suc i \<le> j \<and> j < k then of_nat (card (free_set s1 \<inter> node_frames (numa_nodes s1 ! j)))
           else node_free_frames (numa_nodes s1 ! j)))"
    using Suc.hyps(1) [OF i(3) same_layout_ok [OF sl Suc.prems(1)] _ loop] Suc.prems(2) i(1) A by simp
  have "(\<Sum>j\<leftarrow>[Suc i..<k]. card (free_set s1 \<inter> node_frames (numa_nodes s1 ! j))) =
      (\<Sum>j\<leftarrow>[Suc i..<k]. card (free_set s \<inter> node_frames (numa_nodes s ! j)))"
    using N F Suc.prems(2) by (intro arg_cong [of _ _ sum_list] map_cong) auto
  then show ?case
    using IH F N A at i(1) same_layout_trans [OF sl] by (auto simp: upt_conv_Cons c_def)
qed

lemma recount_ok:
  assumes "layout_ok s"
  shows "becomes s (free_set s) (pmm_recount_numa_free_frames_locked s)"
proof -
  let ?k = "unat (active_numa_node_count s)"
  obtain tot s1 where r: "recount_loop [0..<?k] 0 s = (tot, s1)" by fastforce
  let ?nds = "take ?k (numa_nodes s)"
  note ok = recount_loop_ok [OF assms order_refl r]
  have len: "?k \<le> length (numa_nodes s)" using assms active_less [OF assms] by (simp add: layout_ok_def)
  then have nds: "?nds = map ((!) (numa_nodes s)) [0..<?k]" by (intro nth_equalityI) auto
  have "card (free_set s \<inter> {f. 0 \<le> unat f \<and> unat f < unat (total_frames s)}) = (\<Sum>nd\<leftarrow>?nds. card (free_set s \<inter> node_frames nd))"
    using assms by (intro tiles_card_sum) (auto simp: layout_ok_def)
  moreover have "free_set s \<inter> {f. 0 \<le> unat f \<and> unat f < unat (total_frames s)} = free_set s"
    by (auto simp: free_set_def word_less_nat_alt)
  ultimately have tot: "tot = of_nat (card (free_set s))"
    using ok nds by (simp add: comp_def)
  have le: "card (free_set s \<inter> N) < 2 ^ 32" for N
  proof -
    have "card (free_set s \<inter> N) \<le> card (free_set s)" by (intro card_mono) auto
    then show ?thesis using card_free_set_le [of s] unat_u32_less [of "total_frames s"] by simp
  qed
  have sl: "same_layout s s1" and F: "free_set s1 = free_set s" using ok by auto
  have lay: "layout_ok s1" using same_layout_ok [OF sl assms] .
  have "unat (node_free_frames (numa_nodes s1 ! j)) = card (free_set s1 \<inter> node_frames (numa_nodes s1 ! j))"
    if "j < ?k" for j
    using ok that same_layout_node(1) [OF sl assms that] F le by (simp add: unat_of_nat)
  moreover have "unat tot = card (free_set s)" using tot le [of UNIV] by (simp add: unat_of_nat)
  ultimately have "becomes s (free_set s) (s1\<lparr>free_frames := tot\<rparr>)"
    using sl F lay
    by (auto simp: becomes_def pmm_inv_def counts_ok_def layout_ok_def same_layout_def free_set_def)
  then show ?thesis using r by (simp add: pmm_recount_numa_free_frames_locked_def)
qed

lemma configure_ok:
  assumes "pmm_inv s" "bitmap_base s \<noteq> 0" "0 < total_frames s" "n \<noteq> 0" "n \<le> PMM_MAX_NUMA_NODES"
    "pmm_configure_numa_topology n s = (ok, s')"
  shows "ok \<and> pmm_inv s' \<and> free_set s' = free_set s \<and> numa_geometry n s' \<and> total_frames s' = total_frames s \<and>
    initialized s' = initialized s"
proof -
  let ?s1 = "pmm_numa_reset_layout n s"
  have pre: "length (numa_nodes s) = 8" "total_frames s \<le> 0x100000"
    using assms(1) by (auto simp: pmm_inv_def layout_ok_def)
  note rl = reset_layout_ok [OF pre assms(4,5)]
  have lay: "layout_ok ?s1" using rl(1) by (simp add: numa_geometry_def)
  have s': "ok" "s' = pmm_recount_numa_free_frames_locked ?s1"
    using assms(2-6) rl(2,4) by (auto simp: pmm_configure_numa_topology_def Let_def not_less [symmetric])
  have b: "becomes ?s1 (free_set ?s1) s'" unfolding s'(2) by (rule recount_ok [OF lay])
  have "free_set ?s1 = free_set s"
    using rl(2,3) by (auto simp: free_set_def bitmap_test_def)
  moreover have "unat (frame_count (numa_nodes s' ! j)) = unat (frame_count (numa_nodes ?s1 ! j))"
    if "j < unat n" for j
    using same_layout_node(3) [OF _ lay, of s' j] b that rl(1) by (simp add: becomes_def numa_geometry_def)
  ultimately show ?thesis
    using b rl s'(1) by (simp add: becomes_def numa_geometry_def pmm_inv_def same_layout_def)
qed

end
