(* ===== verification/Boot_Info.thy ===== *)
theory Boot_Info
  imports Kernel_Prelude
begin

text \<open>
  \<^verbatim>\<open>kernel/kernel/bootinfo.c\<close>: access to the multiboot hand-off. Physical memory is a
  function from addresses to bytes and the packed structs of \<^verbatim>\<open>kernel/boot.h\<close> are read from it in
  little-endian order at their offsets. A pointer obtained with \<open>paging_phys_to_virt\<close> is represented by the
  physical address it aliases through the direct map; the panic of that function outside the
  256 MiB aperture is the outcome \<open>Panic\<close>.

  Shown: the iteration over the memory map always ends, returns exactly the entries that are encoded in
  it, and never reads an entry that is not completely inside the map.
\<close>

section \<open>Physical memory and outcomes\<close>

type_synonym phys_mem = "u32 \<Rightarrow> u8"

datatype 'a outcome = Panic | Return 'a

fun on_return :: "'a outcome \<Rightarrow> ('a \<Rightarrow> 'b outcome) \<Rightarrow> 'b outcome" where
  "on_return Panic k = Panic"
| "on_return (Return x) k = k x"

definition rd32 :: "phys_mem \<Rightarrow> u32 \<Rightarrow> u32" where
  "rd32 mem a = ucast (mem a) OR push_bit 8 (ucast (mem (a + 1))) OR
     push_bit 16 (ucast (mem (a + 2))) OR push_bit 24 (ucast (mem (a + 3)))"

definition rd64 :: "phys_mem \<Rightarrow> u32 \<Rightarrow> u64" where
  "rd64 mem a = ucast (rd32 mem a) OR push_bit 32 (ucast (rd32 mem (a + 4)))"

definition KERNEL_DIRECT_MAP_LIMIT_PHYS :: u32 where
  "KERNEL_DIRECT_MAP_LIMIT_PHYS = 0x10000000"

definition in_direct_map :: "u32 \<Rightarrow> bool" where
  "in_direct_map p \<longleftrightarrow> p < KERNEL_DIRECT_MAP_LIMIT_PHYS"

section \<open>The operations of bootinfo.c\<close>

definition MULTIBOOT_BOOTLOADER_MAGIC :: u32 where "MULTIBOOT_BOOTLOADER_MAGIC = 0x2BADB002"
definition MULTIBOOT_INFO_MEMORY :: u32 where "MULTIBOOT_INFO_MEMORY = 1"
definition MULTIBOOT_INFO_MODULES :: u32 where "MULTIBOOT_INFO_MODULES = 8"
definition MULTIBOOT_INFO_MEM_MAP :: u32 where "MULTIBOOT_INFO_MEM_MAP = 64"
definition MULTIBOOT_MEMORY_AVAILABLE :: u32 where "MULTIBOOT_MEMORY_AVAILABLE = 1"

datatype bootinfo_loader_kind = BOOTINFO_LOADER_UNKNOWN | BOOTINFO_LOADER_MULTIBOOT1

record bootinfo =
  loader_kind :: bootinfo_loader_kind
  info_phys :: u32
  multiboot_info :: "u32 option"

record bootinfo_memory_region =
  region_base :: u64
  region_length :: u64
  region_type :: u32

record bootinfo_module =
  mod_start :: u32
  mod_end :: u32
  mod_string :: "u32 option"

text \<open>The fields of the packed \<open>multiboot_info_t\<close>, by offset.\<close>

definition mbi_flags :: "phys_mem \<Rightarrow> u32 \<Rightarrow> u32" where "mbi_flags mem p = rd32 mem p"
definition mbi_mem_lower :: "phys_mem \<Rightarrow> u32 \<Rightarrow> u32" where "mbi_mem_lower mem p = rd32 mem (p + 4)"
definition mbi_mem_upper :: "phys_mem \<Rightarrow> u32 \<Rightarrow> u32" where "mbi_mem_upper mem p = rd32 mem (p + 8)"
definition mbi_mods_count :: "phys_mem \<Rightarrow> u32 \<Rightarrow> u32" where "mbi_mods_count mem p = rd32 mem (p + 20)"
definition mbi_mods_addr :: "phys_mem \<Rightarrow> u32 \<Rightarrow> u32" where "mbi_mods_addr mem p = rd32 mem (p + 24)"
definition mbi_mmap_length :: "phys_mem \<Rightarrow> u32 \<Rightarrow> u32" where "mbi_mmap_length mem p = rd32 mem (p + 44)"
definition mbi_mmap_addr :: "phys_mem \<Rightarrow> u32 \<Rightarrow> u32" where "mbi_mmap_addr mem p = rd32 mem (p + 48)"

lemmas mbi_defs = mbi_flags_def mbi_mem_lower_def mbi_mem_upper_def mbi_mods_count_def
  mbi_mods_addr_def mbi_mmap_length_def mbi_mmap_addr_def

definition sizeof_multiboot_info :: u32 where "sizeof_multiboot_info = 88"
definition sizeof_multiboot_module :: u32 where "sizeof_multiboot_module = 16"
definition sizeof_multiboot_memory_map :: u32 where "sizeof_multiboot_memory_map = 24"

definition multiboot_map_bounds :: "phys_mem \<Rightarrow> bootinfo \<Rightarrow> (u32 \<times> u32) option" where
  "multiboot_map_bounds mem bi =
     (case multiboot_info bi of
        None \<Rightarrow> None
      | Some p \<Rightarrow>
          if mbi_flags mem p AND MULTIBOOT_INFO_MEM_MAP = 0 then None
          else
            let st = mbi_mmap_addr mem p;
                e = st + mbi_mmap_length mem p
            in if e < st then None else Some (st, e))"

definition multiboot_decode_memory_region ::
  "phys_mem \<Rightarrow> bootinfo \<Rightarrow> u32 \<Rightarrow> (bootinfo_memory_region \<times> u32) option outcome" where
  "multiboot_decode_memory_region mem bi cur =
     (case multiboot_map_bounds mem bi of
        None \<Rightarrow> Return None
      | Some (map_start, map_end) \<Rightarrow>
          if cur < map_start \<or> cur \<ge> map_end then Return None
          else if \<not> in_direct_map cur then Panic
          else
            let payload_size = rd32 mem cur;
                entry_size = payload_size + 4;
                next_cursor = cur + entry_size
            in if payload_size < sizeof_multiboot_memory_map - 4 then Return None
               else if entry_size < 4 then Return None
               else if next_cursor \<le> cur \<or> next_cursor > map_end then Return None
               else Return (Some (\<lparr>region_base = rd64 mem (cur + 4), region_length = rd64 mem (cur + 12),
                                   region_type = rd32 mem (cur + 20)\<rparr>, next_cursor)))"

definition bootinfo_init :: "u32 \<Rightarrow> u32 \<Rightarrow> (bool \<times> bootinfo) outcome" where
  "bootinfo_init boot_magic boot_info_phys =
     (let bi = \<lparr>loader_kind = BOOTINFO_LOADER_UNKNOWN, info_phys = 0, multiboot_info = None\<rparr>
      in if boot_magic \<noteq> MULTIBOOT_BOOTLOADER_MAGIC then Return (False, bi)
         else if \<not> in_direct_map boot_info_phys then Panic
         else Return (True, \<lparr>loader_kind = BOOTINFO_LOADER_MULTIBOOT1, info_phys = boot_info_phys,
                             multiboot_info = Some boot_info_phys\<rparr>))"

definition bootinfo_info_phys :: "bootinfo \<Rightarrow> u32" where
  "bootinfo_info_phys bi = info_phys bi"

definition bootinfo_info_size_hint :: "bootinfo \<Rightarrow> u32" where
  "bootinfo_info_size_hint bi =
     (if loader_kind bi \<noteq> BOOTINFO_LOADER_MULTIBOOT1 then 0 else sizeof_multiboot_info)"

definition bootinfo_has_memory_map :: "phys_mem \<Rightarrow> bootinfo \<Rightarrow> bool" where
  "bootinfo_has_memory_map mem bi =
     (case multiboot_info bi of
        None \<Rightarrow> False
      | Some p \<Rightarrow>
          if loader_kind bi \<noteq> BOOTINFO_LOADER_MULTIBOOT1 then False
          else mbi_flags mem p AND MULTIBOOT_INFO_MEM_MAP \<noteq> 0 \<and> mbi_mmap_length mem p > 0)"

definition bootinfo_memory_map_phys :: "phys_mem \<Rightarrow> bootinfo \<Rightarrow> u32" where
  "bootinfo_memory_map_phys mem bi =
     (if \<not> bootinfo_has_memory_map mem bi then 0 else mbi_mmap_addr mem (the (multiboot_info bi)))"

definition bootinfo_memory_map_size :: "phys_mem \<Rightarrow> bootinfo \<Rightarrow> u32" where
  "bootinfo_memory_map_size mem bi =
     (if \<not> bootinfo_has_memory_map mem bi then 0 else mbi_mmap_length mem (the (multiboot_info bi)))"

text \<open>The iterator is its cursor; a step gives the region and the advanced cursor.\<close>

definition bootinfo_memory_next ::
  "phys_mem \<Rightarrow> bootinfo \<Rightarrow> u32 \<Rightarrow> (bootinfo_memory_region \<times> u32) option outcome" where
  "bootinfo_memory_next mem bi cur =
     (if cur = 0 then Return None
      else case multiboot_map_bounds mem bi of
             None \<Rightarrow> Return None
           | Some (map_start, map_end) \<Rightarrow>
               if cur < map_start \<or> cur \<ge> map_end then Return None
               else on_return (multiboot_decode_memory_region mem bi cur)
                 (\<lambda>d. case d of
                        None \<Rightarrow> Return None
                      | Some (region, next_cursor) \<Rightarrow>
                          Return (Some (region, if next_cursor \<ge> map_end then 0 else next_cursor))))"

definition bootinfo_memory_begin ::
  "phys_mem \<Rightarrow> bootinfo \<Rightarrow> (bootinfo_memory_region \<times> u32) option outcome" where
  "bootinfo_memory_begin mem bi =
     (case multiboot_map_bounds mem bi of
        None \<Rightarrow> Return None
      | Some (start_phys, end_phys) \<Rightarrow> bootinfo_memory_next mem bi start_phys)"

definition bootinfo_has_memory_kib_info :: "phys_mem \<Rightarrow> bootinfo \<Rightarrow> bool" where
  "bootinfo_has_memory_kib_info mem bi =
     (case multiboot_info bi of
        None \<Rightarrow> False
      | Some p \<Rightarrow>
          if loader_kind bi \<noteq> BOOTINFO_LOADER_MULTIBOOT1 then False
          else mbi_flags mem p AND MULTIBOOT_INFO_MEMORY \<noteq> 0)"

definition bootinfo_lower_memory_kib :: "phys_mem \<Rightarrow> bootinfo \<Rightarrow> u32" where
  "bootinfo_lower_memory_kib mem bi =
     (if \<not> bootinfo_has_memory_kib_info mem bi then 0 else mbi_mem_lower mem (the (multiboot_info bi)))"

definition bootinfo_upper_memory_kib :: "phys_mem \<Rightarrow> bootinfo \<Rightarrow> u32" where
  "bootinfo_upper_memory_kib mem bi =
     (if \<not> bootinfo_has_memory_kib_info mem bi then 0 else mbi_mem_upper mem (the (multiboot_info bi)))"

definition bootinfo_module_count :: "phys_mem \<Rightarrow> bootinfo \<Rightarrow> u32" where
  "bootinfo_module_count mem bi =
     (case multiboot_info bi of
        None \<Rightarrow> 0
      | Some p \<Rightarrow>
          if loader_kind bi \<noteq> BOOTINFO_LOADER_MULTIBOOT1 then 0
          else if mbi_flags mem p AND MULTIBOOT_INFO_MODULES = 0 then 0
          else mbi_mods_count mem p)"

definition bootinfo_module_at :: "phys_mem \<Rightarrow> bootinfo \<Rightarrow> u32 \<Rightarrow> bootinfo_module option outcome" where
  "bootinfo_module_at mem bi index =
     (if index \<ge> bootinfo_module_count mem bi then Return None
      else
        let modules = mbi_mods_addr mem (the (multiboot_info bi));
            entry = modules + index * sizeof_multiboot_module;
            str = rd32 mem (entry + 8)
        in if \<not> in_direct_map modules \<or> (str \<noteq> 0 \<and> \<not> in_direct_map str) then Panic
           else Return (Some \<lparr>mod_start = rd32 mem entry, mod_end = rd32 mem (entry + 4),
                              mod_string = (if str = 0 then None else Some str)\<rparr>))"

definition bootinfo_module_table_phys :: "phys_mem \<Rightarrow> bootinfo \<Rightarrow> u32" where
  "bootinfo_module_table_phys mem bi =
     (if bootinfo_module_count mem bi = 0 then 0 else mbi_mods_addr mem (the (multiboot_info bi)))"

definition bootinfo_module_table_size :: "phys_mem \<Rightarrow> bootinfo \<Rightarrow> u32" where
  "bootinfo_module_table_size mem bi =
     (let count = bootinfo_module_count mem bi
      in if count = 0 then 0 else count * sizeof_multiboot_module)"

section \<open>The iteration over the memory map\<close>

lemma decode_progress:
  "multiboot_decode_memory_region mem bi cur = Return (Some (r, nxt)) \<Longrightarrow> cur < nxt"
  by (auto simp: multiboot_decode_memory_region_def Let_def split: option.splits if_splits prod.splits)

definition cursor_measure :: "u32 \<Rightarrow> nat" where
  "cursor_measure cur = (if cur = 0 then 0 else 2 ^ 32 - unat cur)"

lemma next_progress:
  assumes "bootinfo_memory_next mem bi cur = Return (Some (r, nxt))"
  shows "cursor_measure nxt < cursor_measure cur"
proof -
  have cur: "cur \<noteq> 0" using assms by (auto simp: bootinfo_memory_next_def)
  obtain c where c: "multiboot_decode_memory_region mem bi cur = Return (Some (r, c))" "nxt = 0 \<or> nxt = c"
    using assms cur
    by (cases "multiboot_decode_memory_region mem bi cur")
      (auto simp: bootinfo_memory_next_def split: option.splits if_splits prod.splits)
  then have "unat cur < unat c" using decode_progress by (simp add: word_less_nat_alt)
  then show ?thesis
    using c(2) cur unat_u32_less [of c] unat_u32_less [of cur] by (auto simp: cursor_measure_def)
qed

text \<open>
  The loop \<open>for (ok = begin(&it, &r); ok; ok = next(&it, &r)) body\<close>. The body may write memory, so the
  memory that the iterator reads is a view of the loop state.
\<close>

function region_loop ::
  "('s \<Rightarrow> phys_mem) \<Rightarrow> bootinfo \<Rightarrow> (bootinfo_memory_region \<Rightarrow> 's \<Rightarrow> 's) \<Rightarrow> u32 \<Rightarrow> 's \<Rightarrow> 's outcome" where
  "region_loop view bi body cur s =
     (case bootinfo_memory_next (view s) bi cur of
        Panic \<Rightarrow> Panic
      | Return None \<Rightarrow> Return s
      | Return (Some (region, nxt)) \<Rightarrow> region_loop view bi body nxt (body region s))"
  by pat_completeness auto
termination
  by (relation "measure (\<lambda>(view, bi, body, cur, s). cursor_measure cur)") (auto simp: next_progress)

declare region_loop.simps [simp del]

definition region_for ::
  "('s \<Rightarrow> phys_mem) \<Rightarrow> bootinfo \<Rightarrow> (bootinfo_memory_region \<Rightarrow> 's \<Rightarrow> 's) \<Rightarrow> 's \<Rightarrow> 's outcome" where
  "region_for view bi body s =
     (case bootinfo_memory_begin (view s) bi of
        Panic \<Rightarrow> Panic
      | Return None \<Rightarrow> Return s
      | Return (Some (region, nxt)) \<Rightarrow> region_loop view bi body nxt (body region s))"

text \<open>The regions in the order the iterator yields them from a memory that does not change.\<close>

function regions_from :: "phys_mem \<Rightarrow> bootinfo \<Rightarrow> u32 \<Rightarrow> bootinfo_memory_region list outcome" where
  "regions_from mem bi cur =
     (case bootinfo_memory_next mem bi cur of
        Panic \<Rightarrow> Panic
      | Return None \<Rightarrow> Return []
      | Return (Some (r, nxt)) \<Rightarrow> on_return (regions_from mem bi nxt) (\<lambda>rs. Return (r # rs)))"
  by pat_completeness auto
termination
  by (relation "measure (\<lambda>(mem, bi, cur). cursor_measure cur)") (auto simp: next_progress)

declare regions_from.simps [simp del]

definition bootinfo_regions :: "phys_mem \<Rightarrow> bootinfo \<Rightarrow> bootinfo_memory_region list outcome" where
  "bootinfo_regions mem bi =
     (case multiboot_map_bounds mem bi of
        None \<Rightarrow> Return []
      | Some (st, e) \<Rightarrow> regions_from mem bi st)"

lemma region_loop_fold:
  "region_loop (\<lambda>_. mem) bi body cur s = on_return (regions_from mem bi cur) (\<lambda>rs. Return (fold body rs s))"
proof (induction mem bi cur arbitrary: s rule: regions_from.induct)
  case (1 mem bi cur)
  show ?case
  proof (cases "bootinfo_memory_next mem bi cur")
    case Panic
    then show ?thesis by (simp add: region_loop.simps [of _ _ _ cur] regions_from.simps [of _ _ cur])
  next
    case (Return x)
    show ?thesis
    proof (cases x)
      case None
      then show ?thesis
        using Return by (simp add: region_loop.simps [of _ _ _ cur] regions_from.simps [of _ _ cur])
    next
      case (Some y)
      obtain r nxt where y: "y = (r, nxt)" by fastforce
      have "region_loop (\<lambda>_. mem) bi body nxt (body r s) =
          on_return (regions_from mem bi nxt) (\<lambda>rs. Return (fold body rs (body r s)))"
        using "1.IH" [OF Return Some y [symmetric]] .
      then show ?thesis
        using Return Some y
        by (cases "regions_from mem bi nxt")
          (simp_all add: region_loop.simps [of _ _ _ cur] regions_from.simps [of _ _ cur])
    qed
  qed
qed

lemma region_for_loop:
  "region_for view bi body s =
     (case multiboot_map_bounds (view s) bi of
        None \<Rightarrow> Return s
      | Some (st, e) \<Rightarrow> region_loop view bi body st s)"
  by (auto simp: region_for_def bootinfo_memory_begin_def region_loop.simps [of view bi body _ s]
      split: option.splits)

lemma region_for_fold:
  "region_for (\<lambda>_. mem) bi body s = on_return (bootinfo_regions mem bi) (\<lambda>rs. Return (fold body rs s))"
  by (auto simp: region_for_loop bootinfo_regions_def region_loop_fold split: option.splits)

subsection \<open>A body that does not touch the boot data\<close>

definition bytes_at :: "u32 \<Rightarrow> nat \<Rightarrow> u32 set" where
  "bytes_at a n = {a + of_nat k | k. k < n}"

lemma bytes_at_sub: "d + m \<le> n \<Longrightarrow> bytes_at (a + of_nat d) m \<subseteq> bytes_at a n"
proof
  fix x assume dm: "d + m \<le> n" and "x \<in> bytes_at (a + of_nat d) m"
  then obtain k where "k < m" "x = a + of_nat d + of_nat k" by (auto simp: bytes_at_def)
  then have "x = a + of_nat (d + k)" "d + k < n" using dm by auto
  then show "x \<in> bytes_at a n" unfolding bytes_at_def by blast
qed

lemma bytes_at_bound: "x \<in> bytes_at a n \<Longrightarrow> unat a + n \<le> 2 ^ 32 \<Longrightarrow> unat a \<le> unat x \<and> unat x < unat a + n"
  by (auto simp: bytes_at_def unat_word_ariths unat_of_nat)

definition agree_on :: "u32 set \<Rightarrow> phys_mem \<Rightarrow> phys_mem \<Rightarrow> bool" where
  "agree_on A mem mem' \<longleftrightarrow> (\<forall>a\<in>A. mem' a = mem a)"

text \<open>The bytes the memory-map functions may read: the information block and the map, plus three bytes
  because the size field of a truncated last entry is read before it is checked.\<close>

definition map_bytes :: "phys_mem \<Rightarrow> bootinfo \<Rightarrow> u32 set" where
  "map_bytes mem bi =
     (case multiboot_info bi of
        None \<Rightarrow> {}
      | Some p \<Rightarrow> bytes_at p 88 \<union> bytes_at (mbi_mmap_addr mem p) (unat (mbi_mmap_length mem p) + 3))"

lemma rd32_agree:
  assumes "agree_on A mem mem'" "bytes_at a 4 \<subseteq> A"
  shows "rd32 mem' a = rd32 mem a"
proof -
  have "mem' (a + of_nat k) = mem (a + of_nat k)" if "k < 4" for k
    using assms that by (auto simp: agree_on_def bytes_at_def)
  from this [of 0] this [of 1] this [of 2] this [of 3] show ?thesis by (simp add: rd32_def)
qed

lemma rd64_agree:
  assumes "agree_on A mem mem'" "bytes_at a 8 \<subseteq> A"
  shows "rd64 mem' a = rd64 mem a"
proof -
  have "bytes_at a 4 \<subseteq> A" "bytes_at (a + 4) 4 \<subseteq> A"
    using assms(2) bytes_at_sub [of 0 4 8 a] bytes_at_sub [of 4 4 8 a] by auto
  then show ?thesis using rd32_agree [OF assms(1)] by (simp add: rd64_def)
qed

lemma info_agree:
  assumes "agree_on A mem mem'" "bytes_at p 88 \<subseteq> A" "d \<le> 84"
  shows "rd32 mem' (p + of_nat d) = rd32 mem (p + of_nat d)"
  using assms(2,3) bytes_at_sub [of d 4 88 p] by (intro rd32_agree [OF assms(1)]) auto

lemma mbi_agree:
  assumes "agree_on A mem mem'" "bytes_at p 88 \<subseteq> A"
  shows "mbi_flags mem' p = mbi_flags mem p" "mbi_mmap_addr mem' p = mbi_mmap_addr mem p"
    "mbi_mmap_length mem' p = mbi_mmap_length mem p" "mbi_mods_count mem' p = mbi_mods_count mem p"
    "mbi_mods_addr mem' p = mbi_mods_addr mem p"
  using info_agree [OF assms, of 0] info_agree [OF assms, of 48] info_agree [OF assms, of 44]
    info_agree [OF assms, of 20] info_agree [OF assms, of 24]
  by (simp_all add: mbi_defs)

lemma bounds_agree:
  "agree_on (map_bytes mem bi) mem mem' \<Longrightarrow> multiboot_map_bounds mem' bi = multiboot_map_bounds mem bi"
  using mbi_agree [of "map_bytes mem bi" mem mem']
  by (auto simp: multiboot_map_bounds_def map_bytes_def Let_def split: option.splits)

lemma bounds_map:
  assumes "multiboot_map_bounds mem bi = Some (st, e)"
  obtains p where "multiboot_info bi = Some p" "st = mbi_mmap_addr mem p"
    "unat e = unat st + unat (mbi_mmap_length mem p)"
    "bytes_at st (unat e - unat st + 3) \<subseteq> map_bytes mem bi"
proof -
  obtain p where p: "multiboot_info bi = Some p" "st = mbi_mmap_addr mem p" "\<not> e < st"
    "e = st + mbi_mmap_length mem p"
    using assms by (auto simp: multiboot_map_bounds_def Let_def split: option.splits if_splits)
  then have "unat e = unat st + unat (mbi_mmap_length mem p)"
    by (metis not_less unat_plus_simple word_le_plus_either word_le_nat_alt le_add1)
  then show ?thesis using that p by (auto simp: map_bytes_def)
qed

lemma decode_agree:
  assumes ag: "agree_on (map_bytes mem bi) mem mem'"
  shows "multiboot_decode_memory_region mem' bi cur = multiboot_decode_memory_region mem bi cur"
proof (cases "multiboot_map_bounds mem bi")
  case None
  then show ?thesis using bounds_agree [OF ag] by (simp add: multiboot_decode_memory_region_def)
next
  case (Some se)
  obtain st e where se: "se = (st, e)" by fastforce
  then have b: "multiboot_map_bounds mem bi = Some (st, e)" using Some by simp
  obtain p where p: "unat e = unat st + unat (mbi_mmap_length mem p)"
    "bytes_at st (unat e - unat st + 3) \<subseteq> map_bytes mem bi"
    using bounds_map [OF b] by metis
  show ?thesis
  proof (cases "cur < st \<or> e \<le> cur")
    case True
    then show ?thesis using b bounds_agree [OF ag] by (auto simp: multiboot_decode_memory_region_def)
  next
    case False
    define d where "d = unat cur - unat st"
    have cur: "cur = st + of_nat d" "d < unat e - unat st"
      using False by (auto simp: d_def word_less_nat_alt word_le_nat_alt not_less of_nat_diff)
    have sub: "bytes_at (cur + of_nat k) m \<subseteq> map_bytes mem bi" if "d + k + m \<le> unat e - unat st + 3" for k m
      using bytes_at_sub [OF that, of st] p(2) cur(1) by (simp add: add.assoc)
    have size: "rd32 mem' cur = rd32 mem cur"
      using sub [of 0 4] cur(2) by (intro rd32_agree [OF ag]) simp
    have fields: "rd64 mem' (cur + 4) = rd64 mem (cur + 4) \<and> rd64 mem' (cur + 12) = rd64 mem (cur + 12) \<and>
        rd32 mem' (cur + 20) = rd32 mem (cur + 20)" if "d + 24 \<le> unat e - unat st"
      using sub [of 4 8] sub [of 12 8] sub [of 20 4] that
      by (intro conjI rd32_agree [OF ag] rd64_agree [OF ag]) simp_all
    have "d + 24 \<le> unat e - unat st"
      if "\<not> rd32 mem cur < 20" "\<not> rd32 mem cur + 4 < 4" "\<not> cur + (rd32 mem cur + 4) \<le> cur"
        "\<not> e < cur + (rd32 mem cur + 4)"
    proof -
      have "4 \<le> 4 + rd32 mem cur" using that(2) by (simp add: add.commute)
      then have "unat (4 + rd32 mem cur) = unat (4 :: u32) + unat (rd32 mem cur)"
        by (subst unat_plus_simple [symmetric])
      moreover have "unat (cur + (rd32 mem cur + 4)) = unat cur + unat (rd32 mem cur + 4)"
        using that(3) by (subst unat_plus_simple [symmetric]) simp
      moreover have "unat (cur + (rd32 mem cur + 4)) \<le> unat e" using that(4) by (simp add: word_less_nat_alt)
      moreover have "20 \<le> unat (rd32 mem cur)" using that(1) by (simp add: word_less_nat_alt)
      moreover have "unat st \<le> unat cur" using False by (simp add: word_less_nat_alt)
      moreover have "unat (4 :: u32) = 4" by simp
      ultimately show ?thesis unfolding d_def add.commute [of 4] by linarith
    qed
    then show ?thesis
      using False b bounds_agree [OF ag] size fields
      by (auto simp: multiboot_decode_memory_region_def Let_def sizeof_multiboot_memory_map_def)
  qed
qed

lemma next_agree:
  "agree_on (map_bytes mem bi) mem mem' \<Longrightarrow> bootinfo_memory_next mem' bi cur = bootinfo_memory_next mem bi cur"
  by (auto simp: bootinfo_memory_next_def decode_agree bounds_agree split: option.splits)

lemma region_loop_view:
  assumes "\<And>s. I s \<Longrightarrow> agree_on (map_bytes mem bi) mem (view s)" "\<And>r s. I s \<Longrightarrow> I (body r s)" "I s"
  shows "region_loop view bi body cur s = region_loop (\<lambda>_. mem) bi body cur s"
  using assms(3)
proof (induction cur arbitrary: s rule: measure_induct_rule [of cursor_measure])
  case (less cur)
  have eq: "bootinfo_memory_next (view s) bi cur = bootinfo_memory_next mem bi cur"
    by (rule next_agree [OF assms(1) [OF less.prems]])
  show ?case
  proof (cases "\<exists>r nxt. bootinfo_memory_next mem bi cur = Return (Some (r, nxt))")
    case True
    then obtain r nxt where n: "bootinfo_memory_next mem bi cur = Return (Some (r, nxt))" by blast
    then show ?thesis
      using less.IH [OF next_progress [OF n] assms(2) [OF less.prems], of r] eq
      by (simp add: region_loop.simps [of _ _ _ cur])
  next
    case False
    then show ?thesis
      using eq by (auto simp: region_loop.simps [of _ _ _ cur] split: outcome.splits option.splits)
  qed
qed

lemma region_for_view:
  assumes "\<And>s. I s \<Longrightarrow> agree_on (map_bytes mem bi) mem (view s)" "\<And>r s. I s \<Longrightarrow> I (body r s)" "I s"
  shows "region_for view bi body s = on_return (bootinfo_regions mem bi) (\<lambda>rs. Return (fold body rs s))"
proof -
  have "region_for view bi body s = region_for (\<lambda>_. mem) bi body s"
    using bounds_agree [OF assms(1) [OF assms(3)]] region_loop_view [where I = I, OF assms]
    by (auto simp: region_for_loop split: option.splits)
  then show ?thesis by (simp add: region_for_fold)
qed

subsection \<open>Encoded maps\<close>

text \<open>A memory map with the given regions lies at \<open>a\<close> and ends at \<open>e\<close>: size-prefixed entries, each at least as
  long as the struct.\<close>

fun map_holds :: "phys_mem \<Rightarrow> u32 \<Rightarrow> bootinfo_memory_region list \<Rightarrow> u32 \<Rightarrow> bool" where
  "map_holds mem a [] e = (a = e)"
| "map_holds mem a (r # rs) e \<longleftrightarrow>
     (let n = unat (rd32 mem a) in
      20 \<le> n \<and> unat a + n + 4 \<le> unat e \<and>
      rd64 mem (a + 4) = region_base r \<and> rd64 mem (a + 12) = region_length r \<and>
      rd32 mem (a + 20) = region_type r \<and> map_holds mem (a + (rd32 mem a + 4)) rs e)"

lemma map_holds_le: "map_holds mem a rs e \<Longrightarrow> a \<le> e"
  by (cases rs) (auto simp: Let_def word_le_nat_alt)

lemma decode_map_holds:
  assumes "map_holds mem a (r # rs) e" "multiboot_map_bounds mem bi = Some (st, e)" "st \<le> a"
    "in_direct_map e"
  shows "multiboot_decode_memory_region mem bi a = Return (Some (r, a + (rd32 mem a + 4)))"
proof -
  let ?n = "rd32 mem a"
  have n: "20 \<le> unat ?n" "unat a + unat ?n + 4 \<le> unat e" using assms(1) by (auto simp: Let_def)
  have sz: "unat (?n + 4) = unat ?n + 4"
    using n(2) unat_u32_less [of e] by (simp add: unat_word_ariths)
  have nx: "unat (a + (?n + 4)) = unat a + unat ?n + 4"
    using sz n(2) unat_u32_less [of e] by (simp add: unat_word_ariths)
  have "\<not> (a < st \<or> e \<le> a)" "in_direct_map a"
    using assms(3,4) n by (auto simp: word_less_nat_alt word_le_nat_alt in_direct_map_def)
  moreover have "\<not> ?n < sizeof_multiboot_memory_map - 4" "\<not> ?n + 4 < 4"
    "\<not> (a + (?n + 4) \<le> a \<or> e < a + (?n + 4))"
    using n sz nx by (auto simp: word_less_nat_alt word_le_nat_alt sizeof_multiboot_memory_map_def)
  ultimately show ?thesis
    using assms(1,2) by (auto simp: multiboot_decode_memory_region_def Let_def)
qed

lemma regions_map_holds:
  "map_holds mem a rs e \<Longrightarrow> multiboot_map_bounds mem bi = Some (st, e) \<Longrightarrow> st \<le> a \<Longrightarrow> in_direct_map e \<Longrightarrow>
     0 < a \<Longrightarrow> regions_from mem bi a = Return rs"
proof (induction rs arbitrary: a)
  case Nil
  then show ?case by (subst regions_from.simps) (simp add: bootinfo_memory_next_def)
next
  case (Cons r rs)
  let ?nx = "a + (rd32 mem a + 4)"
  note dec = decode_map_holds [OF Cons.prems(1-4)]
  have le: "a < ?nx" using decode_progress [OF dec] .
  have h: "map_holds mem ?nx rs e" using Cons.prems(1) by (simp add: Let_def)
  have range: "\<not> (a < st \<or> e \<le> a)"
    using Cons.prems(1,3) by (auto simp: Let_def word_le_nat_alt word_less_nat_alt)
  have nxt: "bootinfo_memory_next mem bi a = Return (Some (r, if e \<le> ?nx then 0 else ?nx))"
    using Cons.prems(2,5) range dec by (simp add: bootinfo_memory_next_def)
  show ?case
  proof (cases "e \<le> ?nx")
    case True
    then have "rs = []" using h map_holds_le [OF h] by (cases rs) (auto simp: Let_def word_le_nat_alt)
    then show ?thesis
      using nxt True by (simp add: regions_from.simps [of _ _ a] regions_from.simps [of _ _ 0] bootinfo_memory_next_def)
  next
    case False
    have "regions_from mem bi ?nx = Return rs"
      using Cons.IH [OF h Cons.prems(2) _ Cons.prems(4)] le Cons.prems(3,5) by (simp add: less_imp_le order_trans)
    then show ?thesis using nxt False by (simp add: regions_from.simps [of _ _ a])
  qed
qed

section \<open>Properties\<close>

definition boot_block :: phys_mem where
  "boot_block a =
     (case map_of [(0x9000, 0x40), (0x902C, 48), (0x9031, 0x91), (0x9100, 20), (0x9106, 0x10),
                   (0x910E, 0x30), (0x9114, 1), (0x9118, 20), (0x911F, 0xFE), (0x9124, 1), (0x912C, 2)] a of
        None \<Rightarrow> 0 | Some b \<Rightarrow> b)"

definition boot_record :: bootinfo where
  "boot_record = \<lparr>loader_kind = BOOTINFO_LOADER_MULTIBOOT1, info_phys = 0x9000, multiboot_info = Some 0x9000\<rparr>"

lemma boot_block_bounds: "multiboot_map_bounds boot_block boot_record = Some (0x9100, 0x9130)"
  by code_simp

text \<open>C18. The iteration over the boot memory map ends and yields exactly the encoded entries, in order: when the
  size-prefixed entries of the regions fill the map, the regions are what the iterator returns.\<close>

theorem bootinfo_regions_exact:
  assumes "multiboot_map_bounds mem bi = Some (st, e)" "map_holds mem st rs e" "in_direct_map e" "0 < st"
  shows "bootinfo_regions mem bi = Return rs"
  using regions_map_holds [OF assms(2,1) order_refl assms(3,4)] assms(1) by (simp add: bootinfo_regions_def)

theorem bootinfo_regions_exact_witness:
  "bootinfo_regions boot_block boot_record =
     Return [\<lparr>region_base = 0x100000, region_length = 0x300000, region_type = 1\<rparr>,
             \<lparr>region_base = 0xFE000000, region_length = 1, region_type = 2\<rparr>]"
proof -
  have "rd32 boot_block 0x9100 = 20" "rd64 boot_block 0x9104 = 0x100000" "rd64 boot_block 0x910C = 0x300000"
    "rd32 boot_block 0x9114 = 1" "rd32 boot_block 0x9118 = 20" "rd64 boot_block 0x911C = 0xFE000000"
    "rd64 boot_block 0x9124 = 1" "rd32 boot_block 0x912C = 2"
    by code_simp+
  then have "map_holds boot_block 0x9100 [\<lparr>region_base = 0x100000, region_length = 0x300000, region_type = 1\<rparr>,
             \<lparr>region_base = 0xFE000000, region_length = 1, region_type = 2\<rparr>] 0x9130"
    by (simp add: Let_def)
  then show ?thesis
    using bootinfo_regions_exact [OF boot_block_bounds]
    by (simp add: in_direct_map_def KERNEL_DIRECT_MAP_LIMIT_PHYS_def)
qed

text \<open>C19. Whatever the boot loader left in memory, the iteration depends only on the information block, the map itself and
  the three bytes after it: a second memory that agrees on those bytes gives the same regions.\<close>

theorem bootinfo_reads_only_boot_data:
  assumes "agree_on (map_bytes mem bi) mem mem'"
  shows "bootinfo_regions mem' bi = bootinfo_regions mem bi"
proof -
  have "regions_from mem' bi cur = regions_from mem bi cur" for cur
  proof (induction cur rule: measure_induct_rule [of cursor_measure])
    case (less cur)
    have eq: "bootinfo_memory_next mem' bi cur = bootinfo_memory_next mem bi cur" by (rule next_agree [OF assms])
    show ?case
    proof (cases "\<exists>r nxt. bootinfo_memory_next mem bi cur = Return (Some (r, nxt))")
      case True
      then obtain r nxt where n: "bootinfo_memory_next mem bi cur = Return (Some (r, nxt))" by blast
      then show ?thesis
        using less.IH [OF next_progress [OF n]] eq by (simp add: regions_from.simps [of _ _ cur])
    next
      case False
      then show ?thesis
        using eq by (auto simp: regions_from.simps [of _ _ cur] split: outcome.splits option.splits)
    qed
  qed
  then show ?thesis using bounds_agree [OF assms] by (auto simp: bootinfo_regions_def split: option.splits)
qed

theorem bootinfo_reads_only_boot_data_witness:
  "bootinfo_regions (boot_block(0x100000 := 0xFF)) boot_record = bootinfo_regions boot_block boot_record"
proof -
  have "mbi_mmap_addr boot_block 0x9000 = 0x9100" "mbi_mmap_length boot_block 0x9000 = 48" by code_simp+
  then have m: "map_bytes boot_block boot_record = bytes_at 0x9000 88 \<union> bytes_at 0x9100 51"
    by (auto simp: map_bytes_def boot_record_def)
  have "unat a < 0x10000" if "a \<in> map_bytes boot_block boot_record" for a
    using that bytes_at_bound [of a "0x9000" 88] bytes_at_bound [of a "0x9100" 51] unfolding m by auto
  then have "0x100000 \<notin> map_bytes boot_block boot_record" by fastforce
  then have "agree_on (map_bytes boot_block boot_record) boot_block (boot_block(0x100000 := 0xFF))"
    by (auto simp: agree_on_def)
  then show ?thesis by (rule bootinfo_reads_only_boot_data)
qed

end
