(* ===== verification/Phys_Mem_Boot.thy ===== *)
theory Phys_Mem_Boot
  imports Phys_Mem_Ranges Boot_Info
begin

text \<open>
  \<open>pmm_init\<close> of \<^verbatim>\<open>kernel/kernel/pmm.c\<close>, composed with the boot information of
  \<^verbatim>\<open>kernel/kernel/bootinfo.c\<close>. The physical addresses of the kernel image are parameters (linker
  symbols). The bitmap is written into the memory the boot information is read from, so the loops read
  through \<open>boot_view\<close>; that the two do not overlap is a hypothesis of the result.
\<close>

section \<open>pmm_init\<close>

definition PMM_PHYS_CAP :: u64 where "PMM_PHYS_CAP = 0xFFFFF000"
definition BOOTSTRAP_WINDOW_SIZE :: u32 where "BOOTSTRAP_WINDOW_SIZE = 0x00400000"
definition KERNEL_VMA :: u32 where "KERNEL_VMA = 0xC0000000"

text \<open>The bodies of the two loops over the memory map.\<close>

definition highest_step :: "bootinfo_memory_region \<Rightarrow> u32 \<Rightarrow> u32" where
  "highest_step region highest =
     (let e0 = region_base region + region_length region;
          e1 = (if e0 < region_base region then PMM_PHYS_CAP else e0);
          e2 = (if e1 > PMM_PHYS_CAP then PMM_PHYS_CAP else e1)
      in if e2 = 0 then highest
         else let e = (ucast e2 :: u32) in if e > highest then e else highest)"

definition mark_region :: "bootinfo_memory_region \<Rightarrow> pmm \<Rightarrow> pmm" where
  "mark_region region s =
     (if region_type region \<noteq> MULTIBOOT_MEMORY_AVAILABLE \<or> region_length region = 0 then s
      else
        let st = region_base region;
            e0 = region_base region + region_length region
        in if e0 \<le> st then s
           else if st \<ge> PMM_PHYS_CAP then s
           else
             let e = (if e0 > PMM_PHYS_CAP then PMM_PHYS_CAP else e0)
             in pmm_mark_available_range (ucast st) (ucast (e - st)) s)"

text \<open>Physical memory as the boot code sees it once the bitmap is placed in it.\<close>

definition boot_view :: "phys_mem \<Rightarrow> u32 \<Rightarrow> u32 \<Rightarrow> pmm \<Rightarrow> phys_mem" where
  "boot_view mem bitmap_phys bitmap_bytes s a =
     (if a - bitmap_phys < bitmap_bytes then frame_bitmap s (a - bitmap_phys) else mem a)"

definition reserve_module :: "bootinfo_module \<Rightarrow> pmm \<Rightarrow> pmm" where
  "reserve_module m s =
     (let s1 = (if mod_end m > mod_start m
                then pmm_reserve_range (mod_start m) (mod_end m - mod_start m) s else s)
      in case mod_string m of None \<Rightarrow> s1 | Some str \<Rightarrow> pmm_reserve_range str 128 s1)"

function module_loop :: "(pmm \<Rightarrow> phys_mem) \<Rightarrow> bootinfo \<Rightarrow> u32 \<Rightarrow> u32 \<Rightarrow> pmm \<Rightarrow> pmm outcome" where
  "module_loop view bi i n s =
     (if i < n then
        case bootinfo_module_at (view s) bi i of
          Panic \<Rightarrow> Panic
        | Return None \<Rightarrow> module_loop view bi (i + 1) n s
        | Return (Some m) \<Rightarrow> module_loop view bi (i + 1) n (reserve_module m s)
      else Return s)"
  by pat_completeness auto
termination
  by (relation "measure (\<lambda>(view, bi, i, n, s). unat n - unat i)") (auto simp: word_loop_measure)

declare module_loop.simps [simp del]

definition pmm_highest_physical :: "phys_mem \<Rightarrow> bootinfo \<Rightarrow> u32 outcome" where
  "pmm_highest_physical mem bi =
     (if bootinfo_has_memory_map mem bi then region_for (\<lambda>_. mem) bi highest_step 0
      else if bootinfo_has_memory_kib_info mem bi
      then Return ((bootinfo_upper_memory_kib mem bi + 1024) * 1024)
      else Panic)"

text \<open>The reservations after the free ranges are known, in source order.\<close>

definition pmm_boot_reserve ::
  "(pmm \<Rightarrow> phys_mem) \<Rightarrow> bootinfo \<Rightarrow> u32 \<Rightarrow> u32 \<Rightarrow> u32 \<Rightarrow> u32 \<Rightarrow> pmm \<Rightarrow> pmm outcome" where
  "pmm_boot_reserve view bi kernel_start kernel_end bitmap_phys bitmap_bytes s =
     (let s1 = pmm_reserve_range 0 0x100000 s;
          s2 = pmm_reserve_range kernel_start (kernel_end - kernel_start) s1;
          s3 = pmm_reserve_range bitmap_phys bitmap_bytes s2;
          s4 = (if bootinfo_info_phys bi \<noteq> 0 \<and> bootinfo_info_size_hint bi \<noteq> 0
                then pmm_reserve_range (bootinfo_info_phys bi) (bootinfo_info_size_hint bi) s3 else s3);
          s5 = (if bootinfo_has_memory_map (view s4) bi
                then pmm_reserve_range (bootinfo_memory_map_phys (view s4) bi)
                       (bootinfo_memory_map_size (view s4) bi) s4 else s4);
          table_phys = bootinfo_module_table_phys (view s5) bi;
          table_size = bootinfo_module_table_size (view s5) bi;
          s6 = (if table_phys \<noteq> 0 \<and> table_size \<noteq> 0
                then pmm_reserve_range table_phys table_size s5 else s5)
      in module_loop view bi 0 (bootinfo_module_count (view s6) bi) s6)"

definition pmm_init :: "phys_mem \<Rightarrow> bootinfo \<Rightarrow> u32 \<Rightarrow> u32 \<Rightarrow> pmm \<Rightarrow> pmm outcome" where
  "pmm_init mem bi kernel_start_phys kernel_end_phys s0 =
     on_return (pmm_highest_physical mem bi) (\<lambda>highest_physical.
       if highest_physical = 0 then Panic
       else
         let total = pmm_align_up_u32 highest_physical PAGE_SIZE div PAGE_SIZE;
             bitmap_bytes = pmm_align_up_u32 ((total + 7) div 8) PAGE_SIZE;
             bitmap_phys = pmm_align_up_u32 kernel_end_phys PAGE_SIZE;
             bitmap_end = bitmap_phys + bitmap_bytes
         in if bitmap_end \<ge> BOOTSTRAP_WINDOW_SIZE \<or> \<not> in_direct_map bitmap_phys then Panic
            else
              let s1 = s0\<lparr>initialized := False, active_numa_node_count := 1, round_robin_numa_node := 0,
                          global_next_scan_frame := 0, total_frames := total,
                          total_memory_kib := total * 4, bitmap_end_phys := bitmap_end,
                          bitmap_base := KERNEL_VMA + bitmap_phys,
                          frame_bitmap := (\<lambda>i. if i < bitmap_bytes then 0xFF else mem (bitmap_phys + i)),
                          free_frames := 0\<rparr>;
                  s2 = pmm_numa_reset_layout 1 s1;
                  view = boot_view mem bitmap_phys bitmap_bytes
              in on_return (if bootinfo_has_memory_map (view s2) bi then region_for view bi mark_region s2
                            else Return s2)
                   (\<lambda>s3. on_return (pmm_boot_reserve view bi kernel_start_phys kernel_end_phys
                                      bitmap_phys bitmap_bytes s3)
                     (\<lambda>s4. Return ((pmm_recount_numa_free_frames_locked s4)\<lparr>initialized := True\<rparr>))))"

subsection \<open>What it reserves and frees\<close>

definition region_frames :: "bootinfo_memory_region \<Rightarrow> u32 set" where
  "region_frames r =
     (let st = region_base r; e = min (region_base r + region_length r) PMM_PHYS_CAP
      in if region_type r = MULTIBOOT_MEMORY_AVAILABLE \<and> st < region_base r + region_length r \<and> st < PMM_PHYS_CAP
         then frames_released (ucast st) (ucast (e - st)) else {})"

definition module_ranges :: "bootinfo_module \<Rightarrow> (u32 \<times> u32) list" where
  "module_ranges m =
     (if mod_end m > mod_start m then [(mod_start m, mod_end m - mod_start m)] else []) @
     (case mod_string m of None \<Rightarrow> [] | Some str \<Rightarrow> [(str, 128)])"

definition reserved_ranges ::
  "phys_mem \<Rightarrow> bootinfo \<Rightarrow> u32 \<Rightarrow> u32 \<Rightarrow> u32 \<Rightarrow> u32 \<Rightarrow> bootinfo_module list \<Rightarrow> (u32 \<times> u32) list" where
  "reserved_ranges mem bi kernel_start kernel_end bitmap_phys bitmap_bytes ms =
     [(0, 0x100000), (kernel_start, kernel_end - kernel_start), (bitmap_phys, bitmap_bytes)] @
     (if bootinfo_info_phys bi \<noteq> 0 \<and> bootinfo_info_size_hint bi \<noteq> 0
      then [(bootinfo_info_phys bi, bootinfo_info_size_hint bi)] else []) @
     (if bootinfo_has_memory_map mem bi
      then [(bootinfo_memory_map_phys mem bi, bootinfo_memory_map_size mem bi)] else []) @
     (if bootinfo_module_table_phys mem bi \<noteq> 0 \<and> bootinfo_module_table_size mem bi \<noteq> 0
      then [(bootinfo_module_table_phys mem bi, bootinfo_module_table_size mem bi)] else []) @
     concat (map module_ranges ms)"

definition touched :: "(u32 \<times> u32) list \<Rightarrow> u32 set" where
  "touched rs = (\<Union>(b, l) \<in> set rs. frames_touched b l)"

lemma touched_simps [simp]:
  "touched [] = {}" "touched (x # xs) = frames_touched (fst x) (snd x) \<union> touched xs"
  "touched (xs @ ys) = touched xs \<union> touched ys"
  by (auto simp: touched_def split: prod.splits)

lemma becomes_inv: "becomes s F s' \<Longrightarrow> pmm_inv s'" and becomes_free: "becomes s F s' \<Longrightarrow> free_set s' = F"
  and becomes_total: "becomes s F s' \<Longrightarrow> total_frames s' = total_frames s"
  by (simp_all add: becomes_def same_layout_def)

lemma becomes_step:
  assumes "becomes s F s'" "\<And>t. pmm_inv t \<Longrightarrow> becomes t (free_set t - A) (g t)"
  shows "becomes s (F - A) (g s')"
  using becomes_trans [OF assms(1) assms(2) [OF becomes_inv [OF assms(1)]]] becomes_free [OF assms(1)] by simp

lemma reserve_step: "becomes s F s' \<Longrightarrow> becomes s (F - frames_touched b l) (pmm_reserve_range b l s')"
  by (rule becomes_step) (auto intro: pmm_reserve_range_ok)

lemma mark_region_ok:
  assumes "pmm_inv s"
  shows "becomes s (free_set s \<union> (region_frames r \<inter> {g. g < total_frames s})) (mark_region r s)"
proof (cases "region_type r = MULTIBOOT_MEMORY_AVAILABLE \<and> region_base r < region_base r + region_length r \<and>
    region_base r < PMM_PHYS_CAP")
  case True
  then have "region_length r \<noteq> 0" by auto
  then show ?thesis
    using True mark_available_ok [OF assms]
    by (auto simp: mark_region_def region_frames_def Let_def min_def not_le [symmetric])
next
  case False
  then have "mark_region r s = s" "region_frames r = {}"
    by (auto simp: mark_region_def region_frames_def Let_def not_le)
  then show ?thesis using becomes_refl [OF assms] by simp
qed

lemma mark_regions_ok:
  "pmm_inv s \<Longrightarrow> becomes s (free_set s \<union> ((\<Union>r\<in>set rs. region_frames r) \<inter> {g. g < total_frames s}))
     (fold mark_region rs s)"
proof (induction rs arbitrary: s)
  case Nil
  then show ?case using becomes_refl by simp
next
  case (Cons r rs)
  note m = mark_region_ok [OF Cons.prems, of r]
  have "free_set (mark_region r s) \<union> ((\<Union>r\<in>set rs. region_frames r) \<inter> {g. g < total_frames (mark_region r s)}) =
      free_set s \<union> ((\<Union>r\<in>set (r # rs). region_frames r) \<inter> {g. g < total_frames s})"
    using becomes_free [OF m] becomes_total [OF m] by auto
  then show ?case using becomes_trans [OF m Cons.IH [OF becomes_inv [OF m]]] by simp
qed

lemma reserve_module_ok: "pmm_inv s \<Longrightarrow> becomes s (free_set s - touched (module_ranges m)) (reserve_module m s)"
proof -
  assume inv: "pmm_inv s"
  let ?A = "if mod_end m > mod_start m then frames_touched (mod_start m) (mod_end m - mod_start m) else {}"
  let ?s1 = "if mod_end m > mod_start m
     then pmm_reserve_range (mod_start m) (mod_end m - mod_start m) s else s"
  have s1: "becomes s (free_set s - ?A) ?s1"
    using reserve_step [OF becomes_refl [OF inv]] becomes_refl [OF inv] by simp
  show ?thesis
  proof (cases "mod_string m")
    case None
    then show ?thesis using s1 by (auto simp: reserve_module_def module_ranges_def split: if_splits)
  next
    case (Some str)
    have "free_set s - touched (module_ranges m) = free_set s - ?A - frames_touched str 128"
      using Some by (auto simp: module_ranges_def)
    then show ?thesis using reserve_step [OF s1] Some by (simp only: reserve_module_def Let_def option.case)
  qed
qed

lemma reserve_modules_ok:
  "pmm_inv s \<Longrightarrow> becomes s (free_set s - touched (concat (map module_ranges ms))) (fold reserve_module ms s)"
proof (induction ms arbitrary: s)
  case Nil
  then show ?case using becomes_refl by simp
next
  case (Cons m ms)
  note r = reserve_module_ok [OF Cons.prems, of m]
  have "free_set (reserve_module m s) - touched (concat (map module_ranges ms)) =
      free_set s - touched (concat (map module_ranges (m # ms)))"
    using becomes_free [OF r] by auto
  then show ?case using becomes_trans [OF r Cons.IH [OF becomes_inv [OF r]]] by simp
qed

text \<open>The modules of the table, one after the other.\<close>

definition module_table :: "phys_mem \<Rightarrow> bootinfo \<Rightarrow> bootinfo_module list \<Rightarrow> bool" where
  "module_table mem bi ms \<longleftrightarrow> length ms = unat (bootinfo_module_count mem bi) \<and>
     (\<forall>k < length ms. bootinfo_module_at mem bi (of_nat k) = Return (Some (ms ! k)))"

lemma module_loop_ok:
  assumes "module_table mem bi ms" "\<And>s i. bootinfo_module_at (view s) bi i = bootinfo_module_at mem bi i"
    "n = bootinfo_module_count mem bi" "i \<le> n"
  shows "module_loop view bi i n s = Return (fold reserve_module (drop (unat i) ms) s)"
  using assms(4)
proof (induction "unat n - unat i" arbitrary: i s)
  case 0
  then have "\<not> i < n" "drop (unat i) ms = []"
    using assms(1,3) by (auto simp: module_table_def word_less_nat_alt)
  then show ?case by (simp add: module_loop.simps [of _ _ i])
next
  case (Suc d)
  then have i: "i < n" by (simp add: word_less_nat_alt)
  have u: "unat (i + 1) = Suc (unat i)" "i + 1 \<le> n"
    using unat_succ_less [OF i] i by (auto simp: word_le_nat_alt word_less_nat_alt)
  have lt: "unat i < length ms" using i assms(1,3) by (simp add: module_table_def word_less_nat_alt)
  then have "bootinfo_module_at (view s) bi i = Return (Some (ms ! unat i))"
    using assms(1,2) by (auto simp: module_table_def dest!: spec [of _ "unat i"])
  moreover have "d = unat n - unat (i + 1)" using Suc.hyps(2) u by simp
  ultimately show ?case
    using i Suc.hyps(1) [OF _ u(2)] u lt Cons_nth_drop_Suc [OF lt, symmetric]
    by (simp add: module_loop.simps [of _ _ i])
qed

subsection \<open>The whole initialisation\<close>

lemma unat_align_up_page:
  "unat x + 0xFFF < 2 ^ 32 \<Longrightarrow> unat (pmm_align_up_u32 x PAGE_SIZE) = (unat x + 0xFFF) div 0x1000 * 0x1000"
proof -
  assume x: "unat x + 0xFFF < 2 ^ 32"
  have "pmm_align_up_u32 x PAGE_SIZE = (x + 0xFFF) AND NOT (mask 12)"
    by (simp add: pmm_align_up_u32_def PAGE_SIZE_def mask_eq_decr_exp) (simp add: ac_simps)
  moreover have "unat (x + 0xFFF) = unat x + 0xFFF" using x by (simp add: unat_word_ariths)
  ultimately show ?thesis
    using unat_and_not_mask [of "x + 0xFFF" 12] by (simp add: minus_mod_eq_div_mult)
qed

lemma total_frames_bound: "unat (x div PAGE_SIZE) < 0x100000"
  using unat_u32_less [of x] by (simp add: unat_div_page)

text \<open>The bytes that hold boot data: the memory map and the module table.\<close>

definition boot_bytes :: "phys_mem \<Rightarrow> bootinfo \<Rightarrow> u32 set" where
  "boot_bytes mem bi = map_bytes mem bi \<union>
     bytes_at (bootinfo_module_table_phys mem bi) (16 * unat (bootinfo_module_count mem bi))"

lemma view_agrees:
  assumes "\<forall>a \<in> boot_bytes mem bi. \<not> a - bitmap_phys < bitmap_bytes"
  shows "agree_on (boot_bytes mem bi) mem (boot_view mem bitmap_phys bitmap_bytes s)"
  using assms by (simp add: agree_on_def boot_view_def)

lemma agree_mono: "agree_on A mem mem' \<Longrightarrow> B \<subseteq> A \<Longrightarrow> agree_on B mem mem'"
  by (auto simp: agree_on_def)

lemma info_bytes:
  assumes "multiboot_info bi = Some p"
  shows "bytes_at p 88 \<subseteq> boot_bytes mem bi"
  using assms by (auto simp: boot_bytes_def map_bytes_def)

lemma boot_queries_agree:
  assumes ag: "agree_on (boot_bytes mem bi) mem mem'"
  shows "bootinfo_has_memory_map mem' bi = bootinfo_has_memory_map mem bi"
    "bootinfo_memory_map_phys mem' bi = bootinfo_memory_map_phys mem bi"
    "bootinfo_memory_map_size mem' bi = bootinfo_memory_map_size mem bi"
    "bootinfo_module_count mem' bi = bootinfo_module_count mem bi"
    "bootinfo_module_table_phys mem' bi = bootinfo_module_table_phys mem bi"
    "bootinfo_module_table_size mem' bi = bootinfo_module_table_size mem bi"
proof -
  note m = mbi_agree [OF ag info_bytes]
  show hm: "bootinfo_has_memory_map mem' bi = bootinfo_has_memory_map mem bi"
    using m by (auto simp: bootinfo_has_memory_map_def split: option.splits)
  show mc: "bootinfo_module_count mem' bi = bootinfo_module_count mem bi"
    using m by (auto simp: bootinfo_module_count_def split: option.splits)
  have "multiboot_info bi = None \<Longrightarrow> \<not> bootinfo_has_memory_map mem bi \<and> bootinfo_module_count mem bi = 0"
    by (simp add: bootinfo_has_memory_map_def bootinfo_module_count_def)
  then show "bootinfo_memory_map_phys mem' bi = bootinfo_memory_map_phys mem bi"
    "bootinfo_memory_map_size mem' bi = bootinfo_memory_map_size mem bi"
    "bootinfo_module_table_phys mem' bi = bootinfo_module_table_phys mem bi"
    using m hm mc
    by (cases "multiboot_info bi"; simp add: bootinfo_memory_map_phys_def bootinfo_memory_map_size_def
        bootinfo_module_table_phys_def)+
  show "bootinfo_module_table_size mem' bi = bootinfo_module_table_size mem bi"
    by (simp add: bootinfo_module_table_size_def mc)
qed

lemma module_at_agree:
  assumes ag: "agree_on (boot_bytes mem bi) mem mem'"
  shows "bootinfo_module_at mem' bi i = bootinfo_module_at mem bi i"
proof (cases "i < bootinfo_module_count mem bi")
  case False
  then have "bootinfo_module_count mem bi \<le> i" by simp
  then show ?thesis using boot_queries_agree(4) [OF ag] by (simp add: bootinfo_module_at_def)
next
  case True
  then have "bootinfo_module_count mem bi \<noteq> 0" by auto
  then obtain p where p: "multiboot_info bi = Some p" "bootinfo_module_count mem bi \<noteq> 0"
    by (auto simp: bootinfo_module_count_def split: option.splits if_splits)
  have addr: "mbi_mods_addr mem' p = mbi_mods_addr mem p" using mbi_agree(5) [OF ag info_bytes [OF p(1)]] .
  let ?e = "mbi_mods_addr mem p + i * sizeof_multiboot_module"
  have e: "?e = mbi_mods_addr mem p + of_nat (16 * unat i)" by (simp add: sizeof_multiboot_module_def mult.commute)
  have "bytes_at (?e + of_nat k) 4 \<subseteq> boot_bytes mem bi" if "k \<le> 12" for k
  proof -
    have "16 * unat i + k + 4 \<le> 16 * unat (bootinfo_module_count mem bi)"
      using True that by (simp add: word_less_nat_alt)
    from bytes_at_sub [OF this, of "mbi_mods_addr mem p"] show ?thesis
      using p unfolding e by (auto simp: boot_bytes_def bootinfo_module_table_phys_def add.assoc)
  qed
  from this [of 0] this [of 4] this [of 8]
  have "rd32 mem' ?e = rd32 mem ?e" "rd32 mem' (?e + 4) = rd32 mem (?e + 4)" "rd32 mem' (?e + 8) = rd32 mem (?e + 8)"
    by (auto intro!: rd32_agree [OF ag])
  then show ?thesis
    using p(1) addr boot_queries_agree(4) [OF ag] by (simp add: bootinfo_module_at_def Let_def)
qed

lemma boot_reserve_ok:
  assumes inv: "pmm_inv s" and ms: "module_table mem bi ms"
    and dis: "\<forall>a \<in> boot_bytes mem bi. \<not> a - bp < bb"
  shows "\<exists>s'. pmm_boot_reserve (boot_view mem bp bb) bi ks ke bp bb s = Return s' \<and>
     becomes s (free_set s - touched (reserved_ranges mem bi ks ke bp bb ms)) s'"
proof -
  note q = boot_queries_agree [OF view_agrees [OF dis]]
  define s3 where "s3 = pmm_reserve_range bp bb (pmm_reserve_range ks (ke - ks) (pmm_reserve_range 0 0x100000 s))"
  define s4 where "s4 = (if bootinfo_info_phys bi \<noteq> 0 \<and> bootinfo_info_size_hint bi \<noteq> 0
      then pmm_reserve_range (bootinfo_info_phys bi) (bootinfo_info_size_hint bi) s3 else s3)"
  define s5 where "s5 = (if bootinfo_has_memory_map mem bi
      then pmm_reserve_range (bootinfo_memory_map_phys mem bi) (bootinfo_memory_map_size mem bi) s4 else s4)"
  define s6 where "s6 = (if bootinfo_module_table_phys mem bi \<noteq> 0 \<and> bootinfo_module_table_size mem bi \<noteq> 0
      then pmm_reserve_range (bootinfo_module_table_phys mem bi) (bootinfo_module_table_size mem bi) s5 else s5)"
  define F3 where "F3 = free_set s - frames_touched 0 0x100000 - frames_touched ks (ke - ks) - frames_touched bp bb"
  have b3: "becomes s F3 s3"
    unfolding s3_def F3_def by (intro reserve_step becomes_refl inv)
  define F4 where "F4 = (if bootinfo_info_phys bi \<noteq> 0 \<and> bootinfo_info_size_hint bi \<noteq> 0
      then F3 - frames_touched (bootinfo_info_phys bi) (bootinfo_info_size_hint bi) else F3)"
  have b4: "becomes s F4 s4" unfolding s4_def F4_def using b3 reserve_step by simp
  define F5 where "F5 = (if bootinfo_has_memory_map mem bi
      then F4 - frames_touched (bootinfo_memory_map_phys mem bi) (bootinfo_memory_map_size mem bi) else F4)"
  have b5: "becomes s F5 s5" unfolding s5_def F5_def using b4 reserve_step by simp
  define F6 where "F6 = (if bootinfo_module_table_phys mem bi \<noteq> 0 \<and> bootinfo_module_table_size mem bi \<noteq> 0
      then F5 - frames_touched (bootinfo_module_table_phys mem bi) (bootinfo_module_table_size mem bi) else F5)"
  have b6: "becomes s F6 s6" unfolding s6_def F6_def using b5 reserve_step by simp
  have "pmm_boot_reserve (boot_view mem bp bb) bi ks ke bp bb s =
      module_loop (boot_view mem bp bb) bi 0 (bootinfo_module_count mem bi) s6"
    by (simp only: pmm_boot_reserve_def Let_def q s3_def s4_def s5_def s6_def)
  also have "\<dots> = Return (fold reserve_module ms s6)"
    using module_loop_ok [OF ms module_at_agree [OF view_agrees [OF dis]] refl, of 0] by simp
  finally have res: "pmm_boot_reserve (boot_view mem bp bb) bi ks ke bp bb s = Return (fold reserve_module ms s6)" .
  have "becomes s (F6 - touched (concat (map module_ranges ms))) (fold reserve_module ms s6)"
    using becomes_step [OF b6 reserve_modules_ok] .
  moreover have "F6 - touched (concat (map module_ranges ms)) =
      free_set s - touched (reserved_ranges mem bi ks ke bp bb ms)"
    by (auto simp: F6_def F5_def F4_def F3_def reserved_ranges_def)
  ultimately show ?thesis using res by simp
qed

definition boot_total :: "bootinfo_memory_region list \<Rightarrow> u32" where
  "boot_total rs = pmm_align_up_u32 (fold highest_step rs 0) PAGE_SIZE div PAGE_SIZE"

definition boot_bitmap_bytes :: "bootinfo_memory_region list \<Rightarrow> u32" where
  "boot_bitmap_bytes rs = pmm_align_up_u32 ((boot_total rs + 7) div 8) PAGE_SIZE"

lemma bitmap_covers:
  assumes "unat t < 0x100000" "f < t"
  shows "f div 8 < pmm_align_up_u32 ((t + 7) div 8) PAGE_SIZE"
proof -
  have "unat (t + 7) = unat t + 7" using assms(1) by (simp add: unat_word_ariths)
  then have b: "unat ((t + 7) div 8) = (unat t + 7) div 8" by (simp add: unat_div)
  have "(unat t + 7) div 8 + 0xFFF < 2 ^ 32" using assms(1) by simp
  then have "unat (pmm_align_up_u32 ((t + 7) div 8) PAGE_SIZE) = ((unat t + 7) div 8 + 0xFFF) div 0x1000 * 0x1000"
    using unat_align_up_page [of "(t + 7) div 8"] b by simp
  moreover have "(unat t + 7) div 8 \<le> ((unat t + 7) div 8 + 0xFFF) div 0x1000 * 0x1000"
    using nat_round_up_ge [of "0x1000" "(unat t + 7) div 8"] by simp
  moreover have "unat f div 8 < (unat t + 7) div 8"
    using nat_div_less_ceil [of "unat f" "unat t" 8] assms(2) by (simp add: word_less_nat_alt)
  moreover have "unat (f div 8) = unat f div 8" by (simp add: unat_div)
  ultimately show ?thesis unfolding word_less_nat_alt by linarith
qed

text \<open>The state after the bitmap is filled and the layout is reset: valid, with no free frame.\<close>

lemma boot_start_ok:
  assumes "length (numa_nodes s) = 8" "unat (total_frames s) < 0x100000" "free_frames s = 0"
    "\<And>i. i < pmm_align_up_u32 ((total_frames s + 7) div 8) PAGE_SIZE \<Longrightarrow> frame_bitmap s i = 0xFF"
  shows "pmm_inv (pmm_numa_reset_layout 1 s)" "free_set (pmm_numa_reset_layout 1 s) = {}"
proof -
  let ?s = "pmm_numa_reset_layout 1 s"
  have le: "total_frames s \<le> 0x100000" using assms(2) by (simp add: word_le_nat_alt)
  note r = reset_layout_ok [OF assms(1) le, of 1]
  have one: "(1 :: u8) \<noteq> 0" "(1 :: u8) \<le> PMM_MAX_NUMA_NODES" by (simp_all add: PMM_MAX_NUMA_NODES_def)
  have "bitmap_test f ?s" if f: "f < total_frames s" for f
  proof -
    have "frame_bitmap s (f div 8) = 0xFF" using assms(4) bitmap_covers [OF assms(2) f] by blast
    moreover have "bit (0xFF :: u8) k" if "k < 8" for k
    proof -
      have "(0xFF :: u8) = mask 8" by (simp add: mask_eq_decr_exp)
      then show ?thesis unfolding \<open>_ = mask 8\<close> using that by (simp only: bit_mask_iff) simp
    qed
    ultimately show ?thesis using r(3) [OF one] frame_bit_less [of f] by (simp add: bitmap_test_bit)
  qed
  then show F: "free_set ?s = {}" using r(2) [OF one] by (auto simp: free_set_def)
  have "free_frames ?s = 0" using assms(3) by (simp add: pmm_numa_reset_layout_def Let_def)
  moreover have "active_numa_node_count ?s = 1" using r(1) [OF one] by (simp add: numa_geometry_def)
  moreover have "node_free_frames (numa_nodes ?s ! 0) = 0"
  proof -
    have "numa_nodes ?s ! 0 = numa_layout_loop [0] (total_frames s div 1) (total_frames s mod 1) 0 (numa_nodes s) ! 0"
      using clear_tail_nodes [where n = 1 and m = 8 and ns = "numa_layout_loop [0] (total_frames s div 1)
          (total_frames s mod 1) 0 (numa_nodes s)"] assms(1)
      by (simp add: pmm_numa_reset_layout_def Let_def PMM_MAX_NUMA_NODES_def)
    then show ?thesis using assms(1) by (simp add: Let_def)
  qed
  ultimately show "pmm_inv ?s"
    using F r(1) [OF one] by (simp add: pmm_inv_def counts_ok_def numa_geometry_def)
qed

lemma pmm_init_ok:
  assumes map: "bootinfo_has_memory_map mem bi" "bootinfo_regions mem bi = Return rs"
    and ms: "module_table mem bi ms"
    and h: "fold highest_step rs 0 \<noteq> 0"
    and bp: "bp = pmm_align_up_u32 ke PAGE_SIZE" and bb: "bb = boot_bitmap_bytes rs"
    and win: "bp + bb < BOOTSTRAP_WINDOW_SIZE" "in_direct_map bp"
    and dis: "\<forall>a \<in> boot_bytes mem bi. \<not> a - bp < bb"
    and len: "length (numa_nodes s0) = 8"
  shows "\<exists>s. pmm_init mem bi ks ke s0 = Return s \<and> pmm_inv s \<and> initialized s \<and>
     total_frames s = boot_total rs \<and>
     free_set s = ((\<Union>r\<in>set rs. region_frames r) \<inter> {g. g < boot_total rs}) -
        touched (reserved_ranges mem bi ks ke bp bb ms)"
proof -
  define s1 where "s1 = s0\<lparr>initialized := False, active_numa_node_count := 1, round_robin_numa_node := 0,
      global_next_scan_frame := 0, total_frames := boot_total rs, total_memory_kib := boot_total rs * 4,
      bitmap_end_phys := bp + bb, bitmap_base := KERNEL_VMA + bp,
      frame_bitmap := (\<lambda>i. if i < bb then 0xFF else mem (bp + i)), free_frames := 0\<rparr>"
  define s2 where "s2 = pmm_numa_reset_layout 1 s1"
  define view where "view = boot_view mem bp bb"
  have s2: "pmm_inv s2" "free_set s2 = {}"
    using boot_start_ok [of s1] len total_frames_bound
    by (auto simp: s1_def s2_def bb boot_bitmap_bytes_def boot_total_def)
  have t2: "total_frames s2 = boot_total rs"
    by (simp add: s2_def s1_def pmm_numa_reset_layout_def Let_def)
  have hp: "pmm_highest_physical mem bi = Return (fold highest_step rs 0)"
    using map by (simp add: pmm_highest_physical_def region_for_fold)
  have ag: "agree_on (map_bytes mem bi) mem (view s)" for s
    using agree_mono [OF view_agrees [OF dis]] by (simp add: view_def boot_bytes_def)
  have rf: "region_for view bi mark_region s2 = Return (fold mark_region rs s2)"
    using region_for_view [of "\<lambda>_. True" mem bi view mark_region s2] ag map(2) by simp
  define s3 where "s3 = fold mark_region rs s2"
  have b3: "becomes s2 ((\<Union>r\<in>set rs. region_frames r) \<inter> {g. g < boot_total rs}) s3"
    using mark_regions_ok [OF s2(1), of rs] s2(2) t2 by (simp add: s3_def)
  obtain s4 where s4: "pmm_boot_reserve view bi ks ke bp bb s3 = Return s4"
    "becomes s3 (free_set s3 - touched (reserved_ranges mem bi ks ke bp bb ms)) s4"
    using boot_reserve_ok [OF becomes_inv [OF b3] ms dis] unfolding view_def by blast
  define s where "s = (pmm_recount_numa_free_frames_locked s4)\<lparr>initialized := True\<rparr>"
  have "pmm_init mem bi ks ke s0 = Return s"
    unfolding pmm_init_def hp on_return.simps if_not_P [OF h] Let_def
      boot_total_def [symmetric] boot_bitmap_bytes_def [symmetric] bp [symmetric] bb [symmetric]
      s1_def [symmetric] s2_def [symmetric] view_def [symmetric]
    using win boot_queries_agree(1) [OF view_agrees [OF dis]] map(1) rf s4(1)
    by (simp add: not_less [symmetric] s3_def s_def view_def)
  moreover have "layout_ok s4" using becomes_inv [OF s4(2)] by (simp add: pmm_inv_def)
  note rc = recount_ok [OF this]
  have "pmm_inv s" "free_set s = free_set s4" "total_frames s = total_frames s4"
    using becomes_inv [OF rc] becomes_free [OF rc] becomes_total [OF rc]
    by (simp_all add: s_def pmm_inv_def layout_ok_def counts_ok_def free_set_def bitmap_test_def)
  ultimately show ?thesis
    using becomes_free [OF s4(2)] becomes_total [OF s4(2)] becomes_free [OF b3] becomes_total [OF b3] t2
    by (simp add: s_def)
qed

end
