(* ===== verification/Phys_Mem_Props.thy ===== *)
theory Phys_Mem_Props
  imports Phys_Mem_Boot
begin

text \<open>
  The contract \<open>frame_allocator\<close> that the clients of \<^verbatim>\<open>kernel/kernel/pmm.c\<close> rely on, its interpretation,
  and the properties of the component.
\<close>

section \<open>The contract of a frame allocator\<close>

text \<open>
  What \<^verbatim>\<open>kernel/kernel/paging.c\<close>, \<^verbatim>\<open>heap.c\<close> and \<^verbatim>\<open>cpu.c\<close> rely on: frames are handed out by
  physical address, never twice before they are released, and as long as one is free.
\<close>

fun alloc_many :: "('s \<Rightarrow> u32 option \<times> 's) \<Rightarrow> nat \<Rightarrow> 's \<Rightarrow> u32 list \<times> 's" where
  "alloc_many get 0 s = ([], s)"
| "alloc_many get (Suc n) s =
     (case get s of
        (None, s') \<Rightarrow> ([], s')
      | (Some a, s') \<Rightarrow> (case alloc_many get n s' of (as, s'') \<Rightarrow> (a # as, s'')))"

locale frame_allocator =
  fixes valid :: "'s \<Rightarrow> bool"
    and frees :: "'s \<Rightarrow> u32 set"
    and managed :: "'s \<Rightarrow> u32 set"
    and get :: "u8 \<Rightarrow> 's \<Rightarrow> u32 option \<times> 's"
    and put :: "u32 \<Rightarrow> 's \<Rightarrow> 's"
  assumes frees_managed: "valid s \<Longrightarrow> frees s \<subseteq> managed s"
    and frees_finite: "finite (frees s)"
    and get_none: "valid s \<Longrightarrow> get p s = (None, s') \<Longrightarrow> s' = s \<and> frees s = {}"
    and get_some: "valid s \<Longrightarrow> get p s = (Some a, s') \<Longrightarrow>
          valid s' \<and> a \<in> frees s \<and> frees s' = frees s - {a} \<and> managed s' = managed s"
    and put_free: "valid s \<Longrightarrow> a \<in> managed s \<Longrightarrow>
          valid (put a s) \<and> frees (put a s) = insert a (frees s) \<and> managed (put a s) = managed s"
begin

lemma get_put: "valid s \<Longrightarrow> get p s = (Some a, s') \<Longrightarrow> valid (put a s') \<and> frees (put a s') = frees s"
  using get_some [of s p a s'] put_free [of s' a] frees_managed [of s] by auto

lemma alloc_many_spec:
  "valid s \<Longrightarrow> alloc_many (get p) n s = (as, s') \<Longrightarrow>
     valid s' \<and> distinct as \<and> set as \<subseteq> frees s \<and> frees s' = frees s - set as \<and>
     length as = min n (card (frees s)) \<and> managed s' = managed s"
proof (induction n arbitrary: s as s')
  case (Suc n)
  obtain r t where r: "get p s = (r, t)" by fastforce
  show ?case
  proof (cases r)
    case None
    then show ?thesis using get_none [OF Suc.prems(1), of p t] Suc.prems r by auto
  next
    case (Some a)
    note g = get_some [OF Suc.prems(1), of p a t]
    obtain bs u where u: "alloc_many (get p) n t = (bs, u)" by fastforce
    have "card (frees s) = Suc (card (frees s - {a}))"
      using g r Some frees_finite [of s] by (intro card.remove) auto
    then have "card (frees s) = Suc (card (frees t))" using g r Some by simp
    then show ?thesis
      using Suc.IH [OF _ u] g r Some u Suc.prems(2) by auto
  qed
qed simp

lemma put_all:
  "valid s \<Longrightarrow> set as \<subseteq> managed s \<Longrightarrow> valid (fold put as s) \<and> frees (fold put as s) = frees s \<union> set as"
proof (induction as arbitrary: s)
  case (Cons a as)
  then show ?case using put_free [of s a] by auto
qed simp

lemma alloc_many_put_all:
  assumes "valid s" "alloc_many (get p) n s = (as, s')"
  shows "frees (fold put as s') = frees s"
  using alloc_many_spec [OF assms] put_all [of s' as] frees_managed [OF assms(1)] by auto

end

definition free_addrs :: "pmm \<Rightarrow> u32 set" where
  "free_addrs s = (\<lambda>f. f * PAGE_SIZE) ` free_set s"

definition managed_addrs :: "pmm \<Rightarrow> u32 set" where
  "managed_addrs s = (\<lambda>f. f * PAGE_SIZE) ` {f. f < total_frames s}"

lemma frame_addr_inj: "unat f < 0x100000 \<Longrightarrow> unat g < 0x100000 \<Longrightarrow> f * PAGE_SIZE = g * PAGE_SIZE \<Longrightarrow> f = g"
  using frame_addr_roundtrip(1) by metis

lemma managed_bound: "pmm_inv s \<Longrightarrow> f < total_frames s \<Longrightarrow> unat f < 0x100000"
  by (auto simp: pmm_inv_def layout_ok_def word_less_nat_alt word_le_nat_alt)

lemma free_addrs_remove:
  assumes "pmm_inv s" "f \<in> free_set s"
  shows "(\<lambda>f. f * PAGE_SIZE) ` (free_set s - {f}) = free_addrs s - {f * PAGE_SIZE}"
  using frame_addr_inj free_frame_bound [OF assms(1)] assms(2) by (auto simp: free_addrs_def)

lemma pmm_free_frame_ok:
  assumes "pmm_inv s" "f < total_frames s"
  shows "becomes s (insert f (free_set s)) (pmm_free_frame (f * PAGE_SIZE) s)"
  using release_frame_ok(2) [OF assms(1), of f] assms(2) frame_addr_roundtrip(1) [OF managed_bound [OF assms]]
  by (cases "release_frame_locked f s") (auto simp: pmm_free_frame_def)

interpretation pmm_frames: frame_allocator
  "\<lambda>s. pmm_inv s \<and> initialized s" free_addrs managed_addrs pmm_alloc_frame_on_node pmm_free_frame
proof (unfold_locales, goal_cases)
  case (1 s)
  then show ?case by (auto simp: free_addrs_def managed_addrs_def free_set_def)
next
  case (2 s)
  then show ?case by (simp add: free_addrs_def)
next
  case (3 s p s')
  then show ?case using alloc_frame_ok [of s p None s'] by (auto simp: free_addrs_def)
next
  case (4 s p a s')
  then obtain f where f: "f \<in> free_set s" "a = f * PAGE_SIZE" "becomes s (free_set s - {f}) s'"
    using alloc_frame_ok [of s p "Some a" s'] by auto
  then have "free_addrs s' = free_addrs s - {a}"
    using free_addrs_remove [of s f] 4(1) becomes_free [OF f(3)] by (simp add: free_addrs_def)
  then show ?case
    using f 4(1) by (auto simp: becomes_def same_layout_def free_addrs_def managed_addrs_def)
next
  case (5 s a)
  then obtain f where f: "f < total_frames s" "a = f * PAGE_SIZE" by (auto simp: managed_addrs_def)
  then have "becomes s (insert f (free_set s)) (pmm_free_frame a s)" using pmm_free_frame_ok 5(1) by auto
  then show ?case
    using f 5(1) by (auto simp: becomes_def same_layout_def free_addrs_def managed_addrs_def)
qed

section \<open>Properties\<close>

lemma free_set_code:
  "free_set s = set (filter (\<lambda>f. \<not> bitmap_test f s) (map of_nat [0..<unat (total_frames s)]))"
proof -
  have "f \<in> of_nat ` {0..<unat (total_frames s)}" if "f < total_frames s" for f
    using that by (intro image_eqI [of _ _ "unat f"]) (simp_all add: word_less_nat_alt)
  moreover have "of_nat k < total_frames s" if "k < unat (total_frames s)" for k
    using that unat_u32_less [of "total_frames s"] by (simp add: word_less_nat_alt unat_of_nat)
  ultimately show ?thesis by (auto simp: free_set_def)
qed

definition sample_pmm :: pmm where
  "sample_pmm = \<lparr>frame_bitmap = (\<lambda>i. if i = 1 then 0xE7 else 0xFF), bitmap_base = 0xC0200000,
     total_frames = 16, free_frames = 2, total_memory_kib = 64, bitmap_end_phys = 0x201000,
     initialized = True,
     numa_nodes = \<lparr>first_frame = 0, frame_count = 16, node_free_frames = 2, next_scan_frame = 12\<rparr> #
       replicate 7 \<lparr>first_frame = 0, frame_count = 0, node_free_frames = 0, next_scan_frame = 0\<rparr>,
     active_numa_node_count = 1, round_robin_numa_node = 0, global_next_scan_frame = 12\<rparr>"

lemma sample_free: "free_set sample_pmm = {11, 12}"
  unfolding free_set_code by code_simp

lemma sample_pmm_inv: "pmm_inv sample_pmm" "initialized sample_pmm"
proof -
  have "node_frames (numa_nodes sample_pmm ! 0) \<inter> {11, 12} = {11, 12}"
    by (auto simp: node_frames_def sample_pmm_def)
  then show "pmm_inv sample_pmm"
    using sample_free
    by (simp add: pmm_inv_def layout_ok_def counts_ok_def sample_pmm_def PMM_MAX_NUMA_NODES_def Int_commute)
  show "initialized sample_pmm" by (simp add: sample_pmm_def)
qed

text \<open>C10. Allocating one frame: with the invariant (exact free counters, nodes that tile the
  frames) the call fails only when no frame is free; otherwise it returns the page-aligned address of a
  frame that was free, that frame and no other becomes reserved, the invariant is kept, and a preferred
  node with a free frame is honoured.\<close>

theorem pmm_alloc_frame_spec:
  assumes "pmm_inv s" "initialized s" "pmm_alloc_frame_on_node pref s = (r, s')"
  shows "case r of
      None \<Rightarrow> s' = s \<and> free_set s = {}
    | Some a \<Rightarrow> \<exists>f \<in> free_set s. a = f * PAGE_SIZE \<and> unat a = unat f * 4096 \<and> pmm_inv s' \<and>
        free_set s' = free_set s - {f} \<and>
        (pref < active_numa_node_count s \<and> free_set s \<inter> node_frames (numa_nodes s ! unat pref) \<noteq> {} \<longrightarrow>
          f \<in> node_frames (numa_nodes s ! unat pref))"
proof (cases r)
  case None
  then show ?thesis using alloc_frame_ok [OF assms] by simp
next
  case (Some a)
  then obtain f where "f \<in> free_set s" "a = f * PAGE_SIZE" "becomes s (free_set s - {f}) s'"
    "pref < active_numa_node_count s \<and> free_set s \<inter> node_frames (numa_nodes s ! unat pref) \<noteq> {} \<longrightarrow>
          f \<in> node_frames (numa_nodes s ! unat pref)"
    using alloc_frame_ok [OF assms] by auto
  then show ?thesis
    using Some frame_addr_roundtrip(2) [OF free_frame_bound [OF assms(1)]]
    by (auto simp: becomes_def intro!: bexI [of _ f])
qed

theorem pmm_alloc_frame_spec_witness:
  "\<exists>a s'. pmm_alloc_frame_on_node 0 sample_pmm = (Some a, s') \<and> a \<in> {11 * PAGE_SIZE, 12 * PAGE_SIZE} \<and> pmm_inv s'"
proof -
  obtain r s' where r: "pmm_alloc_frame_on_node 0 sample_pmm = (r, s')" by fastforce
  show ?thesis
    using pmm_alloc_frame_spec [OF sample_pmm_inv r] r sample_free by (cases r) auto
qed

text \<open>C13. Releasing the address of a managed frame makes exactly that frame free, whether or not it was free
  before (a second release changes nothing), and keeps the invariant; an address beyond the managed
  memory is ignored.\<close>

theorem pmm_free_frame_spec:
  assumes "pmm_inv s"
  shows "pmm_inv (pmm_free_frame a s) \<and>
     free_set (pmm_free_frame a s) =
       (if a div PAGE_SIZE < total_frames s then insert (a div PAGE_SIZE) (free_set s) else free_set s) \<and>
     pmm_free_frame a (pmm_free_frame a s) = pmm_free_frame a s"
proof -
  let ?f = "a div PAGE_SIZE"
  obtain ok s' where r: "release_frame_locked ?f s = (ok, s')" by fastforce
  note b = release_frame_ok(2) [OF assms r]
  obtain ok2 s2 where r2: "release_frame_locked ?f s' = (ok2, s2)" by fastforce
  have "\<not> ok2" using release_frame_ok(1) [OF becomes_inv [OF b] r2] becomes_free [OF b] becomes_total [OF b]
    by (auto split: if_splits)
  then have "s2 = s'" using r2 by (auto simp: release_frame_locked_def Let_def split: if_splits)
  then show ?thesis
    using b r r2 becomes_inv [OF b] becomes_free [OF b] by (simp add: pmm_free_frame_def)
qed

theorem pmm_free_frame_spec_witness:
  "free_set (pmm_free_frame 0x3000 sample_pmm) = {3, 11, 12}"
  using pmm_free_frame_spec [OF sample_pmm_inv(1), of "0x3000"] sample_free
  by (simp add: PAGE_SIZE_def sample_pmm_def)

text \<open>C11. Allocating a run of frames: on success the returned page-aligned address starts a run of that
  many frames which were all free and which become reserved, nothing else changes in the free set and the
  invariant is kept. When it fails, nothing changes and there is no free run of that length that lies
  on one side of the position where the global search starts.\<close>

theorem pmm_alloc_frames_spec:
  assumes "pmm_inv s" "initialized s" "n \<noteq> 0" "pmm_alloc_frames_on_node n pref s = (r, s')"
  shows "case r of
      None \<Rightarrow> s' = s \<and> (\<forall>a. a + unat n \<le> unat (total_frames s) \<and>
          (unat (search_point 0 (total_frames s) (global_next_scan_frame s)) \<le> a \<or>
           a + unat n \<le> unat (search_point 0 (total_frames s) (global_next_scan_frame s))) \<longrightarrow>
          \<not> run_free s a (unat n))
    | Some a \<Rightarrow> a div PAGE_SIZE * PAGE_SIZE = a \<and> run_set (a div PAGE_SIZE) n \<subseteq> free_set s \<and>
        unat (a div PAGE_SIZE) + unat n \<le> unat (total_frames s) \<and> pmm_inv s' \<and>
        free_set s' = free_set s - run_set (a div PAGE_SIZE) n"
  using alloc_frames_ok [OF assms] by (auto simp: run_allocated_def becomes_def split: option.splits)

theorem pmm_alloc_frames_spec_witness:
  "\<exists>s'. pmm_alloc_frames_on_node 1 0 sample_pmm = (Some 0xC000, s') \<and> free_set s' = {11}"
proof -
  obtain r s' where r: "pmm_alloc_frames_on_node 1 0 sample_pmm = (r, s')" by fastforce
  have "fst (pmm_alloc_frames_on_node 1 0 sample_pmm) = Some 0xC000" by code_simp
  then have "r = Some 0xC000" using r by simp
  moreover have "run_set (0xC000 div PAGE_SIZE) 1 = {12}"
    by (auto simp: run_set_def PAGE_SIZE_def word_unat_eq_iff)
  ultimately show ?thesis
    using pmm_alloc_frames_spec [OF sample_pmm_inv _ r] sample_free r by auto
qed

text \<open>C17. The restriction in C3 is real: in a valid state where frames 11 and 12 are free and the searches
  start at frame 12, a request for two contiguous frames fails, because neither half of the
  wrapped search looks at a run that straddles its starting point.\<close>

theorem pmm_alloc_frames_misses_straddling_run:
  "pmm_inv sample_pmm \<and> run_free sample_pmm 11 2 \<and> pmm_alloc_frames 2 sample_pmm = (None, sample_pmm)"
proof -
  have "fst (pmm_alloc_frames_on_node 2 PMM_NUMA_NODE_ANY sample_pmm) = None" by code_simp
  then have "pmm_alloc_frames 2 sample_pmm = (None, sample_pmm)"
    using alloc_frames_ok [OF sample_pmm_inv, of 2 PMM_NUMA_NODE_ANY]
    by (cases "pmm_alloc_frames_on_node 2 PMM_NUMA_NODE_ANY sample_pmm") (auto simp: pmm_alloc_frames_def)
  moreover have "run_free sample_pmm 11 2"
  proof -
    have "f \<in> free_set sample_pmm" if "11 \<le> unat f" "unat f < 13" for f
    proof -
      have "unat f = unat (11 :: u32) \<or> unat f = unat (12 :: u32)" using that by auto
      then show ?thesis unfolding sample_free word_unat_eq_iff [symmetric] by simp
    qed
    then show ?thesis by (auto simp: run_free_def free_set_def)
  qed
  ultimately show ?thesis using sample_pmm_inv by simp
qed

lemma pmm_free_frames_ok:
  assumes "pmm_inv s" "unat r + unat n \<le> unat (total_frames s)" "unat r < 0x100000"
  shows "becomes s (free_set s \<union> run_set r n) (pmm_free_frames (r * PAGE_SIZE) n s)"
  using free_frames_loop_ok [OF assms(1), of 0 n r] run_set_offsets [OF assms(2)] frame_addr_roundtrip(1) [OF assms(3)]
  by (simp add: pmm_free_frames_def)

text \<open>C14. Releasing a run right after it was allocated restores the set of free frames.\<close>

theorem pmm_run_roundtrip:
  assumes "pmm_inv s" "initialized s" "n \<noteq> 0" "pmm_alloc_frames_on_node n pref s = (Some a, s')"
  shows "free_set (pmm_free_frames a n s') = free_set s \<and> pmm_inv (pmm_free_frames a n s')"
proof -
  let ?r = "a div PAGE_SIZE"
  have r: "?r * PAGE_SIZE = a" "run_allocated s n ?r s'" using alloc_frames_ok [OF assms] by simp_all
  then have b: "becomes s (free_set s - run_set ?r n) s'" and sub: "run_set ?r n \<subseteq> free_set s"
    by (simp_all add: run_allocated_def)
  have "unat ?r + unat n \<le> unat (total_frames s')"
    using r(2) becomes_total [OF b] by (simp add: run_allocated_def)
  from pmm_free_frames_ok [OF becomes_inv [OF b] this run_start_bound [OF assms(1) r(2)]]
  show ?thesis using r(1) sub becomes_free [OF b] by (auto simp: becomes_def)
qed

theorem pmm_run_roundtrip_witness:
  "\<exists>s'. pmm_alloc_frames_on_node 1 0 sample_pmm = (Some 0xC000, s') \<and>
     free_set (pmm_free_frames 0xC000 1 s') = {11, 12}"
proof -
  obtain r s' where r: "pmm_alloc_frames_on_node 1 0 sample_pmm = (r, s')" by fastforce
  have "fst (pmm_alloc_frames_on_node 1 0 sample_pmm) = Some 0xC000" by code_simp
  then have "r = Some 0xC000" using r by simp
  then show ?thesis
    using pmm_run_roundtrip [OF sample_pmm_inv, of 1 0 "0xC000" s'] r sample_free by simp
qed

text \<open>C15. Configuring a NUMA topology keeps the set of free frames and the invariant: afterwards the chosen number
  of nodes tile the frames in order, their sizes differ by at most one and their free counters
  are exact.\<close>

theorem pmm_configure_numa_topology_spec:
  assumes "pmm_inv s" "bitmap_base s \<noteq> 0" "0 < total_frames s" "n \<noteq> 0" "n \<le> PMM_MAX_NUMA_NODES"
    "pmm_configure_numa_topology n s = (ok, s')"
  shows "ok \<and> pmm_inv s' \<and> free_set s' = free_set s \<and> active_numa_node_count s' = n \<and>
     tiles 0 (unat (total_frames s)) (take (unat n) (numa_nodes s')) \<and>
     (\<forall>j < unat n. unat (frame_count (numa_nodes s' ! j)) \<in>
        {unat (total_frames s) div unat n, Suc (unat (total_frames s) div unat n)})"
  using configure_ok [OF assms] by (auto simp: numa_geometry_def layout_ok_def)

theorem pmm_configure_numa_topology_spec_witness:
  "\<exists>s'. pmm_configure_numa_topology 3 sample_pmm = (True, s') \<and> free_set s' = {11, 12} \<and>
     tiles 0 16 (take 3 (numa_nodes s'))"
proof -
  obtain ok s' where c: "pmm_configure_numa_topology 3 sample_pmm = (ok, s')" by fastforce
  have "bitmap_base sample_pmm \<noteq> 0" "0 < total_frames sample_pmm" "(3 :: u8) \<le> PMM_MAX_NUMA_NODES"
    "unat (total_frames sample_pmm) = 16"
    by (simp_all add: sample_pmm_def PMM_MAX_NUMA_NODES_def)
  then show ?thesis
    using pmm_configure_numa_topology_spec [OF sample_pmm_inv(1), of 3 ok s'] c sample_free by simp
qed

text \<open>C16. Marking a byte range available frees exactly the managed frames from the frame that holds its first byte
  to its last whole frame. The start is rounded down, so an unaligned range frees a frame whose
  first bytes do not belong to it.\<close>

theorem pmm_mark_available_range_spec:
  assumes "pmm_inv s"
  shows "pmm_inv (pmm_mark_available_range base len s) \<and>
     free_set (pmm_mark_available_range base len s) = free_set s \<union> {g. g < total_frames s \<and>
        unat base div 4096 \<le> unat g \<and> unat g < (unat base + unat len) div 4096} \<and>
     (unat base mod 4096 \<noteq> 0 \<and> unat base div 4096 < (unat base + unat len) div 4096 \<and>
        base div PAGE_SIZE < total_frames s \<longrightarrow>
      base div PAGE_SIZE \<in> free_set (pmm_mark_available_range base len s) \<and>
      unat (base div PAGE_SIZE) * 4096 < unat base)"
proof -
  note b = mark_available_ok [OF assms, of base len]
  have "unat base div 4096 * 4096 < unat base" if "unat base mod 4096 \<noteq> 0"
    using that div_mult_mod_eq [of "unat base" 4096] by linarith
  then show ?thesis
    using becomes_inv [OF b] becomes_free [OF b] by (auto simp: frames_released_def unat_div_page)
qed

theorem pmm_mark_available_range_spec_witness:
  "1 \<in> free_set (pmm_mark_available_range 0x1800 0x1000 sample_pmm) \<and> unat (1 :: u32) * 4096 < unat (0x1800 :: u32)"
  using pmm_mark_available_range_spec [OF sample_pmm_inv(1), of "0x1800" "0x1000"]
  by (simp add: PAGE_SIZE_def sample_pmm_def)

text \<open>The exported operations as steps of one machine; a step keeps the invariant.\<close>

datatype pmm_op =
    Alloc u8
  | Free u32
  | AllocRun u32 u8
  | FreeRun u32 u32
  | ReserveRange u32 u32
  | MarkAvailable u32 u32
  | Configure u8

fun pmm_step :: "pmm_op \<Rightarrow> pmm \<Rightarrow> pmm" where
  "pmm_step (Alloc p) s = snd (pmm_alloc_frame_on_node p s)"
| "pmm_step (Free a) s = pmm_free_frame a s"
| "pmm_step (AllocRun n p) s = snd (pmm_alloc_frames_on_node n p s)"
| "pmm_step (FreeRun a n) s = pmm_free_frames a n s"
| "pmm_step (ReserveRange b l) s = pmm_reserve_range b l s"
| "pmm_step (MarkAvailable b l) s = pmm_mark_available_range b l s"
| "pmm_step (Configure n) s = snd (pmm_configure_numa_topology n s)"

definition pmm_ready :: "pmm \<Rightarrow> bool" where
  "pmm_ready s \<longleftrightarrow> pmm_inv s \<and> initialized s \<and> bitmap_base s \<noteq> 0 \<and> 0 < total_frames s"

lemma becomes_ready: "pmm_ready s \<Longrightarrow> becomes s F s' \<Longrightarrow> pmm_ready s'"
  by (auto simp: pmm_ready_def becomes_def same_layout_def)

lemma alloc_step_ready: "pmm_ready s \<Longrightarrow> pmm_ready (snd (pmm_alloc_frame_on_node p s))"
proof -
  assume r: "pmm_ready s"
  obtain q s' where q: "pmm_alloc_frame_on_node p s = (q, s')" by fastforce
  have "s' = s \<or> (\<exists>F. becomes s F s')"
    using alloc_frame_ok [OF _ _ q] r by (auto simp: pmm_ready_def split: option.splits)
  then show ?thesis using r q becomes_ready by auto
qed

lemma alloc_run_step_ready: "pmm_ready s \<Longrightarrow> pmm_ready (snd (pmm_alloc_frames_on_node n p s))"
proof (cases "n = 0")
  case True
  assume "pmm_ready s"
  then show ?thesis using True by (simp add: pmm_alloc_frames_on_node_def)
next
  case False
  assume r: "pmm_ready s"
  obtain q s' where q: "pmm_alloc_frames_on_node n p s = (q, s')" by fastforce
  have "s' = s \<or> (\<exists>F. becomes s F s')"
    using alloc_frames_ok [OF _ _ False q] r by (auto simp: pmm_ready_def run_allocated_def split: option.splits)
  then show ?thesis using r q becomes_ready by auto
qed

lemma configure_step_ready: "pmm_ready s \<Longrightarrow> pmm_ready (snd (pmm_configure_numa_topology n s))"
proof (cases "n = 0 \<or> n > PMM_MAX_NUMA_NODES")
  case True
  assume "pmm_ready s"
  then show ?thesis using True by (auto simp: pmm_configure_numa_topology_def)
next
  case False
  assume r: "pmm_ready s"
  obtain ok s' where c: "pmm_configure_numa_topology n s = (ok, s')" by fastforce
  have le: "n \<le> PMM_MAX_NUMA_NODES" using False by auto
  have "bitmap_base s' = bitmap_base s"
  proof -
    let ?s1 = "pmm_numa_reset_layout n s"
    have "length (numa_nodes s) = 8" "total_frames s \<le> 0x100000"
      using r by (auto simp: pmm_ready_def pmm_inv_def layout_ok_def)
    note rl = reset_layout_ok [OF this, of n]
    have "layout_ok ?s1" using rl(1) False le by (simp add: numa_geometry_def)
    from recount_ok [OF this] show ?thesis
      using c False le rl(4) by (auto simp: pmm_configure_numa_topology_def Let_def becomes_def same_layout_def)
  qed
  then show ?thesis
    using configure_ok [OF _ _ _ _ le c] r c False by (auto simp: pmm_ready_def)
qed

lemma free_step_ready: "pmm_ready s \<Longrightarrow> pmm_ready (pmm_free_frame a s)"
proof -
  assume r: "pmm_ready s"
  obtain ok s' where q: "release_frame_locked (a div PAGE_SIZE) s = (ok, s')" by fastforce
  have "pmm_inv s" using r by (simp add: pmm_ready_def)
  from becomes_ready [OF r release_frame_ok(2) [OF this q]] show ?thesis
    using q by (simp add: pmm_free_frame_def)
qed

lemma range_steps_ready:
  assumes "pmm_ready s"
  shows "pmm_ready (pmm_free_frames a n s)" "pmm_ready (pmm_reserve_range b l s)"
    "pmm_ready (pmm_mark_available_range b l s)"
proof -
  have inv: "pmm_inv s" using assms by (simp add: pmm_ready_def)
  show "pmm_ready (pmm_free_frames a n s)"
    unfolding pmm_free_frames_def by (rule becomes_ready [OF assms free_frames_loop_ok [OF inv]])
  show "pmm_ready (pmm_reserve_range b l s)" by (rule becomes_ready [OF assms pmm_reserve_range_ok [OF inv]])
  show "pmm_ready (pmm_mark_available_range b l s)" by (rule becomes_ready [OF assms mark_available_ok [OF inv]])
qed

lemma pmm_step_ready: "pmm_ready s \<Longrightarrow> pmm_ready (pmm_step op s)"
  by (cases op) (simp_all add: alloc_step_ready alloc_run_step_ready configure_step_ready free_step_ready
      range_steps_ready)

text \<open>C12. Whatever sequence of operations an initialised allocator sees, its global and per-node counters stay
  equal to the number of clear bits, the nodes keep tiling the frames, and the reported free memory is
  exact.\<close>

theorem pmm_counters_exact:
  assumes "pmm_ready s"
  shows "let s' = fold pmm_step ops s in
     pmm_inv s' \<and> unat (free_frames s') = card (free_set s') \<and>
     unat (pmm_free_memory_kib s') = 4 * card (free_set s')"
proof -
  have "pmm_ready s \<Longrightarrow> pmm_ready (fold pmm_step ops s)" for s
    by (induction ops arbitrary: s) (simp_all add: pmm_step_ready)
  then have inv: "pmm_inv (fold pmm_step ops s)" using assms by (simp add: pmm_ready_def)
  then have c: "unat (free_frames (fold pmm_step ops s)) = card (free_set (fold pmm_step ops s))"
    by (simp add: pmm_inv_def counts_ok_def)
  moreover have "card (free_set (fold pmm_step ops s)) \<le> 0x100000"
    using card_free_set_le [of "fold pmm_step ops s"] inv
    by (simp add: pmm_inv_def layout_ok_def word_le_nat_alt)
  ultimately show ?thesis using inv by (simp add: Let_def pmm_free_memory_kib_def unat_word_ariths)
qed

theorem pmm_counters_exact_witness:
  "let s' = fold pmm_step [Alloc 0, Free 0x5000, AllocRun 2 0xFF, Configure 2] sample_pmm in
     pmm_inv s' \<and> unat (free_frames s') = card (free_set s')"
proof -
  have "pmm_ready sample_pmm" using sample_pmm_inv by (simp add: pmm_ready_def sample_pmm_def)
  from pmm_counters_exact [OF this, of "[Alloc 0, Free 0x5000, AllocRun 2 0xFF, Configure 2]"]
  show ?thesis by (simp only: Let_def)
qed

text \<open>C9. Initialisation from a boot memory map: with a readable map and module table, a nonzero highest address, a
  bitmap that fits the bootstrap window and that does not overwrite the boot data, \<open>pmm_init\<close> returns, establishes the
  invariant, and the free frames are exactly the managed frames of the available regions minus every frame
  touched by low memory, the kernel image, the bitmap, the boot information, the memory map, the module
  table, the modules and their command lines.\<close>

theorem pmm_init_spec:
  assumes "bootinfo_has_memory_map mem bi" "bootinfo_regions mem bi = Return rs" "module_table mem bi ms"
    "fold highest_step rs 0 \<noteq> 0"
    "bp = pmm_align_up_u32 ke PAGE_SIZE" "bb = boot_bitmap_bytes rs"
    "bp + bb < BOOTSTRAP_WINDOW_SIZE" "in_direct_map bp"
    "\<forall>a \<in> boot_bytes mem bi. \<not> a - bp < bb" "length (numa_nodes s0) = 8"
  shows "\<exists>s. pmm_init mem bi ks ke s0 = Return s \<and> pmm_inv s \<and> initialized s \<and>
     total_frames s = boot_total rs \<and>
     free_set s = ((\<Union>r\<in>set rs. region_frames r) \<inter> {g. g < boot_total rs}) -
        touched (reserved_ranges mem bi ks ke bp bb ms)"
  by (rule pmm_init_ok [OF assms])

definition sample_mem :: phys_mem where
  "sample_mem a =
     (case map_of [(0x9000, 0x40), (0x902C, 24), (0x9031, 0x91), (0x9100, 20), (0x9106, 0x10),
                   (0x910E, 0x30), (0x9114, 1)] a of
        None \<Rightarrow> 0 | Some b \<Rightarrow> b)"

definition sample_boot :: bootinfo where
  "sample_boot = \<lparr>loader_kind = BOOTINFO_LOADER_MULTIBOOT1, info_phys = 0x9000, multiboot_info = Some 0x9000\<rparr>"

definition sample_region :: bootinfo_memory_region where
  "sample_region = \<lparr>region_base = 0x100000, region_length = 0x300000, region_type = 1\<rparr>"

lemma sample_map:
  "bootinfo_has_memory_map sample_mem sample_boot"
  "multiboot_map_bounds sample_mem sample_boot = Some (0x9100, 0x9118)"
  "bootinfo_module_count sample_mem sample_boot = 0"
  "mbi_mmap_addr sample_mem 0x9000 = 0x9100" "mbi_mmap_length sample_mem 0x9000 = 24"
  by code_simp+

lemma sample_regions: "bootinfo_regions sample_mem sample_boot = Return [sample_region]"
proof -
  have "rd32 sample_mem 0x9100 = 20" "rd64 sample_mem 0x9104 = 0x100000" "rd64 sample_mem 0x910C = 0x300000"
    "rd32 sample_mem 0x9114 = 1"
    by code_simp+
  then have "map_holds sample_mem 0x9100 [sample_region] 0x9118" by (simp add: sample_region_def Let_def)
  then show ?thesis
    using regions_map_holds [OF _ sample_map(2)] sample_map(2)
    by (simp add: bootinfo_regions_def in_direct_map_def KERNEL_DIRECT_MAP_LIMIT_PHYS_def)
qed

lemma sample_sizes: "fold highest_step [sample_region] 0 = 0x400000" "boot_total [sample_region] = 0x400"
  "boot_bitmap_bytes [sample_region] = 0x1000" "pmm_align_up_u32 0x180000 PAGE_SIZE = 0x180000"
  by code_simp+

lemma window_above:
  fixes a p n :: u32
  assumes "a - p < n" "unat p + unat n \<le> 2 ^ 32"
  shows "unat p \<le> unat a"
proof -
  have "unat (a - p) + unat p < 2 ^ 32" using assms by (simp add: word_less_nat_alt)
  then have "unat ((a - p) + p) = unat (a - p) + unat p" by (subst unat_word_ariths) simp
  then show ?thesis by simp
qed

lemma sample_disjoint: "\<forall>a \<in> boot_bytes sample_mem sample_boot. \<not> a - 0x180000 < 0x1000"
proof -
  have "boot_bytes sample_mem sample_boot = bytes_at 0x9000 88 \<union> bytes_at 0x9100 27"
    using sample_map(3,4,5)
    by (simp add: boot_bytes_def map_bytes_def sample_boot_def bytes_at_def)
  moreover have "\<not> a - 0x180000 < 0x1000" if "a \<in> bytes_at 0x9000 88 \<union> bytes_at 0x9100 27" for a
    using that bytes_at_bound [of a "0x9000" 88] bytes_at_bound [of a "0x9100" 27]
      window_above [of a "0x180000" "0x1000"] by auto
  ultimately show ?thesis by simp
qed

theorem pmm_init_spec_witness:
  "\<exists>s. pmm_init sample_mem sample_boot 0x100000 0x180000 sample_pmm = Return s \<and> pmm_inv s \<and>
     0x200 \<in> free_set s \<and> 0x17F \<notin> free_set s"
proof -
  have ms: "module_table sample_mem sample_boot []" using sample_map(3) by (simp add: module_table_def)
  have win: "(0x180000 :: u32) + boot_bitmap_bytes [sample_region] < BOOTSTRAP_WINDOW_SIZE" "in_direct_map 0x180000"
    using sample_sizes(3)
    by (simp_all add: BOOTSTRAP_WINDOW_SIZE_def in_direct_map_def KERNEL_DIRECT_MAP_LIMIT_PHYS_def)
  have "fold highest_step [sample_region] 0 \<noteq> 0" using sample_sizes(1) by simp
  moreover have "\<forall>a \<in> boot_bytes sample_mem sample_boot. \<not> a - 0x180000 < boot_bitmap_bytes [sample_region]"
    using sample_disjoint sample_sizes(3) by simp
  moreover have "length (numa_nodes sample_pmm) = 8" by (simp add: sample_pmm_def)
  ultimately obtain s where s: "pmm_init sample_mem sample_boot 0x100000 0x180000 sample_pmm = Return s" "pmm_inv s"
    "free_set s = (region_frames sample_region \<inter> {g. g < 0x400}) -
       touched (reserved_ranges sample_mem sample_boot 0x100000 0x180000 0x180000 0x1000 [])"
    using pmm_init_spec [OF sample_map(1) sample_regions ms _ _ refl win, of "0x180000" sample_pmm "0x100000"]
      sample_sizes by auto
  have "0x200 \<in> free_set s" "0x17F \<notin> free_set s"
    unfolding s(3) using sample_map
    by (simp_all add: region_frames_def sample_region_def Let_def MULTIBOOT_MEMORY_AVAILABLE_def PMM_PHYS_CAP_def
        frames_released_def reserved_ranges_def frames_touched_def sample_boot_def bootinfo_info_phys_def
        bootinfo_info_size_hint_def sizeof_multiboot_info_def bootinfo_memory_map_phys_def
        bootinfo_memory_map_size_def bootinfo_module_table_phys_def)
  then show ?thesis using s by blast
qed

end
