(* ===== verification/Sched_Lists.thy ===== *)
theory Sched_Lists
  imports Kernel_Prelude
begin

text \<open>
  The task table and the intrusive doubly linked task lists of \<^verbatim>\<open>kernel/kernel/scheduler.c\<close>. The array
  \<open>tasks\<close> is a function from slot numbers to tasks and a \<open>task_t*\<close> is a slot number, absent for the null
  pointer. Other pointers (frames, stacks, address spaces, wait channels, task names) are their 32-bit
  values, zero for null.

  Shown: on a well-linked list \<open>task_list_push_back\<close>, \<open>task_list_remove\<close> and \<open>task_list_pop_front\<close> act as
  append, deletion and head removal on the list of its members, and leave every other well-linked list alone.
\<close>

section \<open>Tasks and lists\<close>

datatype task_state = TASK_UNUSED | TASK_RUNNABLE | TASK_RUNNING | TASK_SLEEPING | TASK_BLOCKED | TASK_ZOMBIE

datatype task_list_kind =
  TASK_LIST_NONE | TASK_LIST_FREE | TASK_LIST_RUNNABLE | TASK_LIST_SLEEPING | TASK_LIST_BLOCKED | TASK_LIST_ZOMBIE

record task =
  task_id :: u32
  task_name :: u32
  state :: task_state
  priority :: u32
  cpu_affinity_mask :: u32
  preferred_numa_node :: u8
  assigned_cpu :: u8
  assigned_numa_node :: u8
  frame :: u32
  stack_base :: u32
  kernel_stack_top :: u32
  wakeup_tick :: u32
  runnable_enqueue_tick :: u32
  task_entry :: u32
  task_arg :: u32
  space :: u32
  wait_channel :: u32
  wait_result :: bool
  ticks_in_slice :: u32
  list_prev :: "nat option"
  list_next :: "nat option"
  list_kind :: task_list_kind

type_synonym task_table = "nat \<Rightarrow> task"

record task_list =
  lhead :: "nat option"
  ltail :: "nat option"
  lcount :: u32

definition upd :: "nat \<Rightarrow> (task \<Rightarrow> task) \<Rightarrow> task_table \<Rightarrow> task_table" where
  "upd t g h = h(t := g (h t))"

definition task_list_init :: task_list where
  "task_list_init = \<lparr>lhead = None, ltail = None, lcount = 0\<rparr>"

definition task_list_push_back ::
  "task_list \<Rightarrow> nat \<Rightarrow> task_list_kind \<Rightarrow> task_table \<Rightarrow> task_list \<times> task_table" where
  "task_list_push_back l t kind h =
     (let h1 = upd t (\<lambda>x. x\<lparr>list_prev := ltail l, list_next := None\<rparr>) h;
          (l1, h2) = (case ltail l of
             Some old \<Rightarrow> (l, upd old (\<lambda>x. x\<lparr>list_next := Some t\<rparr>) h1)
           | None \<Rightarrow> (l\<lparr>lhead := Some t\<rparr>, h1))
      in (l1\<lparr>ltail := Some t, lcount := lcount l1 + 1\<rparr>, upd t (\<lambda>x. x\<lparr>list_kind := kind\<rparr>) h2))"

definition task_list_remove :: "task_list \<Rightarrow> nat \<Rightarrow> task_table \<Rightarrow> task_list \<times> task_table" where
  "task_list_remove l t h =
     (let (l1, h1) = (case list_prev (h t) of
             Some p \<Rightarrow> (l, upd p (\<lambda>x. x\<lparr>list_next := list_next (h t)\<rparr>) h)
           | None \<Rightarrow> (l\<lparr>lhead := list_next (h t)\<rparr>, h));
          (l2, h2) = (case list_next (h1 t) of
             Some n \<Rightarrow> (l1, upd n (\<lambda>x. x\<lparr>list_prev := list_prev (h1 t)\<rparr>) h1)
           | None \<Rightarrow> (l1\<lparr>ltail := list_prev (h1 t)\<rparr>, h1));
          l3 = (if lcount l2 > 0 then l2\<lparr>lcount := lcount l2 - 1\<rparr> else l2)
      in (l3, upd t (\<lambda>x. x\<lparr>list_prev := None, list_next := None, list_kind := TASK_LIST_NONE\<rparr>) h2))"

definition task_list_pop_front :: "task_list \<Rightarrow> task_table \<Rightarrow> nat option \<times> task_list \<times> task_table" where
  "task_list_pop_front l h =
     (case lhead l of
        None \<Rightarrow> (None, l, h)
      | Some t \<Rightarrow> (case task_list_remove l t h of (l', h') \<Rightarrow> (Some t, l', h')))"

section \<open>Well-linked lists\<close>

fun hd_opt :: "'a list \<Rightarrow> 'a option" where
  "hd_opt [] = None"
| "hd_opt (x # xs) = Some x"

definition last_opt :: "'a list \<Rightarrow> 'a option" where
  "last_opt xs = hd_opt (rev xs)"

lemma hd_opt_append: "hd_opt (xs @ ys) = (case xs of [] \<Rightarrow> hd_opt ys | x # _ \<Rightarrow> Some x)"
  by (cases xs) auto

lemma last_opt_simps [simp]: "last_opt [] = None" "last_opt (xs @ [x]) = Some x"
  "last_opt (xs @ y # ys) = last_opt (y # ys)"
  by (simp_all add: last_opt_def hd_opt_append split: list.splits)

text \<open>A doubly linked segment, between what its first element has as predecessor and its last as successor.\<close>

fun dseg :: "task_table \<Rightarrow> nat option \<Rightarrow> nat list \<Rightarrow> nat option \<Rightarrow> bool" where
  "dseg h p [] n = True"
| "dseg h p (x # xs) n \<longleftrightarrow>
     list_prev (h x) = p \<and> list_next (h x) = (case xs of [] \<Rightarrow> n | y # _ \<Rightarrow> Some y) \<and> dseg h (Some x) xs n"

definition linked :: "task_table \<Rightarrow> task_list \<Rightarrow> nat list \<Rightarrow> bool" where
  "linked h l xs \<longleftrightarrow>
     lhead l = hd_opt xs \<and> ltail l = last_opt xs \<and> lcount l = of_nat (length xs) \<and> distinct xs \<and>
     length xs < 2 ^ 32 \<and> dseg h None xs None"

text \<open>The two tables link the same way on the given slots.\<close>

definition same_links :: "nat set \<Rightarrow> task_table \<Rightarrow> task_table \<Rightarrow> bool" where
  "same_links A h h' \<longleftrightarrow> (\<forall>x\<in>A. list_prev (h' x) = list_prev (h x) \<and> list_next (h' x) = list_next (h x))"

lemma dseg_same: "same_links (set xs) h h' \<Longrightarrow> dseg h' p xs n = dseg h p xs n"
  by (induction xs arbitrary: p) (auto simp: same_links_def)

lemma linked_same: "same_links (set xs) h h' \<Longrightarrow> linked h' l xs = linked h l xs"
  by (simp add: linked_def dseg_same)

lemma dseg_append:
  "dseg h p (xs @ ys) n \<longleftrightarrow>
     dseg h p xs (case ys of [] \<Rightarrow> n | y # _ \<Rightarrow> Some y) \<and> dseg h (case last_opt xs of None \<Rightarrow> p | Some x \<Rightarrow> Some x) ys n"
proof (induction xs arbitrary: p)
  case (Cons x xs)
  have "last_opt (x # xs) = Some (last (x # xs))" for x :: nat and xs
    by (metis append_butlast_last_id last_opt_simps(2) list.distinct(1))
  then show ?case using Cons by (cases xs) (auto split: list.splits)
qed (simp add: last_opt_def)

lemma last_opt_Cons [simp]: "last_opt (x # xs) = Some (last (x # xs))"
  by (metis append_butlast_last_id last_opt_simps(2) list.distinct(1))

lemma last_opt_mem: "last_opt xs = Some x \<Longrightarrow> x \<in> set xs"
  by (metis last_opt_Cons last_in_set list.distinct(1) list.exhaust option.distinct(1) option.inject last_opt_simps(1))

lemma hd_opt_mem: "hd_opt xs = Some x \<Longrightarrow> x \<in> set xs"
  by (cases xs) auto

subsection \<open>Appending\<close>

lemma push_back_eq:
  assumes "task_list_push_back l t kind h = (l', h')" "ltail l \<noteq> Some t"
  shows "l' = \<lparr>lhead = (if ltail l = None then Some t else lhead l), ltail = Some t, lcount = lcount l + 1\<rparr>"
    and "h' t = (h t)\<lparr>list_prev := ltail l, list_next := None, list_kind := kind\<rparr>"
    and "ltail l = Some q \<Longrightarrow> h' q = (h q)\<lparr>list_next := Some t\<rparr>"
    and "x \<noteq> t \<Longrightarrow> ltail l \<noteq> Some x \<Longrightarrow> h' x = h x"
  using assms by (auto simp: task_list_push_back_def upd_def Let_def split: option.splits)

lemma dseg_snoc_upd:
  assumes "dseg h p xs None" "xs \<noteq> []" "distinct xs" "t \<notin> set xs"
    and "list_prev (h' (last xs)) = list_prev (h (last xs))" "list_next (h' (last xs)) = Some t"
    and "\<And>x. x \<in> set xs \<Longrightarrow> x \<noteq> last xs \<Longrightarrow> h' x = h x"
  shows "dseg h' p xs (Some t)"
  using assms
proof (induction xs arbitrary: p)
  case (Cons x xs)
  show ?case
  proof (cases xs)
    case Nil
    then show ?thesis using Cons.prems by simp
  next
    case (Cons y ys)
    then have "x \<noteq> last xs" using Cons.prems(3) by (metis distinct.simps(2) last_in_set list.distinct(1))
    then show ?thesis using Cons.IH [of "Some x"] Cons.prems Cons by auto
  qed
qed simp

lemma push_back_linked:
  assumes "linked h l xs" "t \<notin> set xs" "Suc (length xs) < 2 ^ 32" "task_list_push_back l t kind h = (l', h')"
  shows "linked h' l' (xs @ [t])"
proof -
  have tl: "ltail l = last_opt xs" using assms(1) by (simp add: linked_def)
  then have ne: "ltail l \<noteq> Some t" using assms(2) last_opt_mem by metis
  note e = push_back_eq [OF assms(4) ne]
  have "dseg h' None (xs @ [t]) None"
  proof (cases "xs = []")
    case True
    then show ?thesis using e(2) tl by simp
  next
    case False
    have q: "ltail l = Some (last xs)" using tl False by (cases xs) simp_all
    have "dseg h' None xs (Some t)"
    proof (rule dseg_snoc_upd [of h])
      show "dseg h None xs None" "distinct xs" using assms(1) by (simp_all add: linked_def)
      show "h' x = h x" if "x \<in> set xs" "x \<noteq> last xs" for x
        using e(4) [of x] that q assms(2) by auto
    qed (simp_all add: e(3) [OF q] False assms(2))
    then show ?thesis using e(2) q tl by (simp add: dseg_append)
  qed
  moreover have "lhead l' = hd_opt (xs @ [t])"
    using assms(1) tl by (cases xs) (auto simp: e(1) linked_def)
  ultimately show ?thesis
    using assms by (simp add: linked_def e(1) add.commute)
qed

lemma push_back_frame:
  assumes "linked h l xs" "t \<notin> set xs" "task_list_push_back l t kind h = (l', h')"
  shows "x \<noteq> t \<Longrightarrow> x \<notin> set xs \<Longrightarrow> h' x = h x"
    and "h' t = (h t)\<lparr>list_prev := list_prev (h' t), list_next := list_next (h' t), list_kind := kind\<rparr>"
    and "x \<noteq> t \<Longrightarrow> h' x = (h x)\<lparr>list_next := list_next (h' x)\<rparr>"
proof -
  have tl: "ltail l = last_opt xs" using assms(1) by (simp add: linked_def)
  then have ne: "ltail l \<noteq> Some t" using assms(2) last_opt_mem by metis
  note e = push_back_eq [OF assms(3) ne]
  show "x \<noteq> t \<Longrightarrow> x \<notin> set xs \<Longrightarrow> h' x = h x" using e(4) tl last_opt_mem by metis
  show "h' t = (h t)\<lparr>list_prev := list_prev (h' t), list_next := list_next (h' t), list_kind := kind\<rparr>"
    by (simp add: e(2))
  show "x \<noteq> t \<Longrightarrow> h' x = (h x)\<lparr>list_next := list_next (h' x)\<rparr>"
    using e(3,4) by (cases "ltail l = Some x") auto
qed

subsection \<open>Removing\<close>

lemma remove_eq:
  assumes "task_list_remove l t h = (l', h')" "list_prev (h t) \<noteq> Some t" "list_next (h t) \<noteq> Some t"
    "list_prev (h t) = None \<or> list_prev (h t) \<noteq> list_next (h t)"
  shows "lhead l' = (if list_prev (h t) = None then list_next (h t) else lhead l)"
    and "ltail l' = (if list_next (h t) = None then list_prev (h t) else ltail l)"
    and "lcount l' = (if lcount l > 0 then lcount l - 1 else lcount l)"
    and "h' t = (h t)\<lparr>list_prev := None, list_next := None, list_kind := TASK_LIST_NONE\<rparr>"
    and "list_prev (h t) = Some p \<Longrightarrow> h' p = (h p)\<lparr>list_next := list_next (h t)\<rparr>"
    and "list_next (h t) = Some n \<Longrightarrow> h' n = (h n)\<lparr>list_prev := list_prev (h t)\<rparr>"
    and "x \<noteq> t \<Longrightarrow> list_prev (h t) \<noteq> Some x \<Longrightarrow> list_next (h t) \<noteq> Some x \<Longrightarrow> h' x = h x"
  using assms by (auto simp: task_list_remove_def upd_def Let_def split: option.splits)

lemma dseg_split:
  assumes "dseg h None (as @ t # bs) None"
  shows "list_prev (h t) = last_opt as" "list_next (h t) = hd_opt bs"
  using assms by (cases bs; simp add: dseg_append split: option.splits)+

lemma dseg_set_next:
  assumes "dseg h p as n" "distinct as" "\<And>x. x \<in> set as \<Longrightarrow> list_prev (h' x) = list_prev (h x)"
    and "\<And>x. x \<in> set as \<Longrightarrow> last_opt as \<noteq> Some x \<Longrightarrow> list_next (h' x) = list_next (h x)"
    and "\<And>x. last_opt as = Some x \<Longrightarrow> list_next (h' x) = m"
  shows "dseg h' p as m"
  using assms
proof (induction as arbitrary: p)
  case (Cons a as)
  show ?case
  proof (cases "as = []")
    case True
    then show ?thesis using Cons.prems by simp
  next
    case False
    then have "last (a # as) \<noteq> a" using Cons.prems(2) by (metis distinct.simps(2) last.simps last_in_set)
    moreover have "last_opt as = Some (last as)" using False by (cases as) simp_all
    moreover have "last (a # as) = last as" using False by simp
    ultimately show ?thesis
      using Cons.IH [of "Some a"] Cons.prems False by (auto split: list.splits)
  qed
qed simp

lemma dseg_set_prev:
  assumes "dseg h p bs n" "distinct bs" "\<And>x. x \<in> set bs \<Longrightarrow> list_next (h' x) = list_next (h x)"
    and "\<And>x. x \<in> set bs \<Longrightarrow> hd_opt bs \<noteq> Some x \<Longrightarrow> list_prev (h' x) = list_prev (h x)"
    and "\<And>x. hd_opt bs = Some x \<Longrightarrow> list_prev (h' x) = q"
  shows "dseg h' q bs n"
proof (cases bs)
  case (Cons b cs)
  have "same_links (set cs) h h'"
    using assms(2,3,4) Cons by (auto simp: same_links_def)
  then show ?thesis using assms Cons dseg_same by (auto split: list.splits)
qed simp

lemma distinct_ends:
  assumes "distinct (as @ t # bs)"
  shows "last_opt as \<noteq> Some t" "hd_opt bs \<noteq> Some t" "last_opt as = None \<or> last_opt as \<noteq> hd_opt bs"
proof -
  show "last_opt as \<noteq> Some t" using assms last_opt_mem [of as t] by auto
  show "hd_opt bs \<noteq> Some t" using assms hd_opt_mem [of bs t] by auto
  have "x \<notin> set bs" if "last_opt as = Some x" for x using assms last_opt_mem [OF that] by auto
  then show "last_opt as = None \<or> last_opt as \<noteq> hd_opt bs"
    using hd_opt_mem [of bs] by (cases "last_opt as") auto
qed

lemma remove_linked:
  assumes l: "linked h l (as @ t # bs)" and r: "task_list_remove l t h = (l', h')"
  shows "linked h' l' (as @ bs)"
proof -
  have d: "distinct (as @ t # bs)" and seg: "dseg h None (as @ t # bs) None" using l by (auto simp: linked_def)
  note pn = dseg_split [OF seg] and ends = distinct_ends [OF d]
  note e = remove_eq [OF r, unfolded pn, OF ends]
  have segs: "dseg h None as (Some t)" "dseg h (Some t) bs None"
    using seg by (simp_all add: dseg_append)
  have h'as: "h' x = h x" if "x \<in> set as" "last_opt as \<noteq> Some x" for x
    using that e(7) [of x] d hd_opt_mem by fastforce
  have h'bs: "h' x = h x" if "x \<in> set bs" "hd_opt bs \<noteq> Some x" for x
    using that e(7) [of x] d last_opt_mem by fastforce
  have A: "dseg h' None as (hd_opt bs)"
    by (rule dseg_set_next [OF segs(1)]) (use d h'as e(5) in force)+
  have B: "dseg h' (last_opt as) bs None"
    by (rule dseg_set_prev [OF segs(2)]) (use d h'bs e(6) in force)+
  have "dseg h' None (as @ bs) None"
    using A B by (cases bs; cases "last_opt as") (auto simp: dseg_append)
  moreover have "lhead l' = hd_opt (as @ bs)"
    using l e(1) by (cases as) (simp_all add: linked_def)
  moreover have "ltail l' = last_opt (as @ bs)"
    using l e(2) by (cases bs) (simp_all add: linked_def)
  moreover have "lcount l' = of_nat (length (as @ bs))"
  proof -
    have c: "lcount l = of_nat (Suc (length (as @ bs)))" "Suc (length (as @ bs)) < 2 ^ 32"
      using l by (simp_all add: linked_def)
    then have "unat (lcount l) = Suc (length (as @ bs))"
      unfolding c(1) by (simp only: unat_of_nat) (use c(2) in simp)
    then have "lcount l > 0" by (simp add: word_less_nat_alt)
    then show ?thesis using e(3) c(1) by simp
  qed
  ultimately show ?thesis using l by (simp add: linked_def)
qed

lemma remove_frame:
  assumes l: "linked h l (as @ t # bs)" and r: "task_list_remove l t h = (l', h')"
  shows "x \<notin> set (as @ t # bs) \<Longrightarrow> h' x = h x"
    and "h' t = (h t)\<lparr>list_prev := None, list_next := None, list_kind := TASK_LIST_NONE\<rparr>"
    and "x \<noteq> t \<Longrightarrow> h' x = (h x)\<lparr>list_prev := list_prev (h' x), list_next := list_next (h' x)\<rparr>"
proof -
  have d: "distinct (as @ t # bs)" and seg: "dseg h None (as @ t # bs) None" using l by (auto simp: linked_def)
  note pn = dseg_split [OF seg] and ends = distinct_ends [OF d]
  note e = remove_eq [OF r, unfolded pn, OF ends]
  show "h' x = h x" if "x \<notin> set (as @ t # bs)"
    using that e(7) [of x] last_opt_mem [of as x] hd_opt_mem [of bs x] by auto
  show "h' t = (h t)\<lparr>list_prev := None, list_next := None, list_kind := TASK_LIST_NONE\<rparr>" by (rule e(4))
  show "h' x = (h x)\<lparr>list_prev := list_prev (h' x), list_next := list_next (h' x)\<rparr>" if "x \<noteq> t"
  proof -
    consider "last_opt as = Some x" | "hd_opt bs = Some x" | "last_opt as \<noteq> Some x" "hd_opt bs \<noteq> Some x"
      by blast
    then show ?thesis
    proof cases
      case 1
      show ?thesis by (simp add: e(5) [OF 1])
    next
      case 2
      show ?thesis by (simp add: e(6) [OF 2])
    next
      case 3
      then show ?thesis by (simp add: e(7) [OF that 3])
    qed
  qed
qed

subsection \<open>Reading a list\<close>

text \<open>The members of a list, read along the next pointers for at most the given number of steps.\<close>

fun chain :: "task_table \<Rightarrow> nat \<Rightarrow> nat option \<Rightarrow> nat list" where
  "chain h 0 p = []"
| "chain h (Suc n) None = []"
| "chain h (Suc n) (Some x) = x # chain h n (list_next (h x))"

lemma chain_None [simp]: "chain h n None = []"
  by (cases n) auto

lemma chain_dseg: "dseg h p xs None \<Longrightarrow> length xs \<le> n \<Longrightarrow> chain h n (hd_opt xs) = xs"
proof (induction xs arbitrary: p n)
  case (Cons x xs)
  then obtain m where [simp]: "n = Suc m" by (cases n) auto
  have "list_next (h x) = hd_opt xs" using Cons.prems by (cases xs) auto
  then show ?case using Cons.IH [of "Some x" m] Cons.prems by simp
qed simp

lemma chain_linked: "linked h l xs \<Longrightarrow> length xs \<le> n \<Longrightarrow> chain h n (lhead l) = xs"
  by (auto simp: linked_def intro: chain_dseg)

section \<open>First in, first out\<close>

primrec push_all :: "('q \<Rightarrow> 'a \<Rightarrow> 'h \<Rightarrow> 'q \<times> 'h) \<Rightarrow> 'a list \<Rightarrow> 'q \<Rightarrow> 'h \<Rightarrow> 'q \<times> 'h" where
  "push_all push [] q h = (q, h)"
| "push_all push (t # ts) q h = (case push q t h of (q', h') \<Rightarrow> push_all push ts q' h')"

primrec pop_all :: "('q \<Rightarrow> 'h \<Rightarrow> 'a option \<times> 'q \<times> 'h) \<Rightarrow> nat \<Rightarrow> 'q \<Rightarrow> 'h \<Rightarrow> 'a option list" where
  "pop_all pop 0 q h = []"
| "pop_all pop (Suc n) q h = (case pop q h of (r, q', h') \<Rightarrow> r # pop_all pop n q' h')"

text \<open>What the scheduler relies on in a queue of tasks, and the order in which a client gets them back.\<close>

locale task_queue =
  fixes holds :: "'h \<Rightarrow> 'q \<Rightarrow> 'a list \<Rightarrow> bool"
    and push :: "'q \<Rightarrow> 'a \<Rightarrow> 'h \<Rightarrow> 'q \<times> 'h"
    and pop :: "'q \<Rightarrow> 'h \<Rightarrow> 'a option \<times> 'q \<times> 'h"
    and room :: nat
  assumes push_law: "holds h q xs \<Longrightarrow> t \<notin> set xs \<Longrightarrow> Suc (length xs) < room \<Longrightarrow> push q t h = (q', h') \<Longrightarrow>
      holds h' q' (xs @ [t])"
    and pop_empty: "holds h q [] \<Longrightarrow> pop q h = (None, q, h)"
    and pop_law: "holds h q (x # xs) \<Longrightarrow> \<exists>q' h'. pop q h = (Some x, q', h') \<and> holds h' q' xs"
begin

lemma push_all_holds:
  "holds h q xs \<Longrightarrow> distinct (xs @ ts) \<Longrightarrow> length xs + length ts < room \<Longrightarrow> push_all push ts q h = (q', h') \<Longrightarrow>
   holds h' q' (xs @ ts)"
proof (induction ts arbitrary: q h xs)
  case (Cons t ts)
  obtain q1 h1 where p: "push q t h = (q1, h1)" by (cases "push q t h") auto
  have "holds h1 q1 (xs @ [t])" using push_law [OF Cons.prems(1) _ _ p] Cons.prems(2,3) by auto
  from Cons.IH [OF this] show ?case using Cons.prems p by auto
qed auto

lemma pop_all_holds: "holds h q xs \<Longrightarrow> n \<le> length xs \<Longrightarrow> pop_all pop n q h = map Some (take n xs)"
proof (induction n arbitrary: q h xs)
  case (Suc n)
  then obtain x ys where x: "xs = x # ys" by (cases xs) auto
  then obtain q' h' where "pop q h = (Some x, q', h')" "holds h' q' ys" using pop_law Suc.prems(1) by blast
  then show ?case using Suc x by auto
qed simp

lemma first_in_first_out:
  assumes "holds h q []" "distinct ts" "length ts < room" "push_all push ts q h = (q', h')"
  shows "pop_all pop (length ts) q' h' = map Some ts"
  using push_all_holds [OF assms(1)] pop_all_holds [of h' q' ts "length ts"] assms by auto

end

lemma pop_front_linked:
  assumes "linked h l (x # xs)"
  shows "\<exists>l' h'. task_list_pop_front l h = (Some x, l', h') \<and> task_list_remove l x h = (l', h') \<and> linked h' l' xs"
proof -
  obtain l' h' where r: "task_list_remove l x h = (l', h')" by fastforce
  moreover have "lhead l = Some x" using assms by (simp add: linked_def)
  ultimately show ?thesis using remove_linked [of h l "[]" x xs] assms by (auto simp: task_list_pop_front_def)
qed

lemma pop_front_empty: "linked h l [] \<Longrightarrow> task_list_pop_front l h = (None, l, h)"
  by (simp add: linked_def task_list_pop_front_def)

interpretation tq: task_queue linked "\<lambda>l t. task_list_push_back l t kind" task_list_pop_front "2 ^ 32" for kind
  by unfold_locales (blast intro: push_back_linked pop_front_empty dest: pop_front_linked)+

end
