(* ===== verification/Sched_State.thy ===== *)
theory Sched_State
  imports Sched_Lists Phys_Mem
begin

text \<open>
  The state of \<^verbatim>\<open>kernel/kernel/scheduler.c\<close> as a record of its static variables, the trace counters, the lists
  by name, and the choice of a CPU for a task. The configuration of the topology is composed with the NUMA layout of
  the frame allocator.
\<close>

section \<open>The scheduler's state\<close>

text \<open>The enumeration values and limits of \<^verbatim>\<open>scheduler.h\<close>. Priorities are 32-bit words, as the code
  compares them (0 realtime, 1 high, 2 normal, 3 low, 4 background).\<close>

abbreviation (input) PRIORITY_COUNT :: u32 where "PRIORITY_COUNT \<equiv> 5"
abbreviation (input) PRIORITY_NORMAL :: u32 where "PRIORITY_NORMAL \<equiv> 2"
abbreviation (input) CPU_MASK_ALL :: u32 where "CPU_MASK_ALL \<equiv> 0xFFFFFFFF"
abbreviation (input) NUMA_NODE_ANY :: u8 where "NUMA_NODE_ANY \<equiv> 0xFF"
abbreviation (input) WAIT_FOREVER :: u32 where "WAIT_FOREVER \<equiv> 0xFFFFFFFF"
abbreviation (input) INVALID_CPU_ID :: u8 where "INVALID_CPU_ID \<equiv> 0xFF"
abbreviation (input) UINT_MAX :: u32 where "UINT_MAX \<equiv> 0xFFFFFFFF"
abbreviation (input) U64_MAX :: u64 where "U64_MAX \<equiv> 0xFFFFFFFFFFFFFFFF"
abbreviation (input) TASK_STACK_SIZE :: u32 where "TASK_STACK_SIZE \<equiv> 16384"
abbreviation MAX_THREADS :: nat where "MAX_THREADS \<equiv> 32"
abbreviation MAX_CPUS :: nat where "MAX_CPUS \<equiv> 8"

datatype scheduler_enqueue_reason = REASON_RESCHEDULE | REASON_WAKEUP

record scheduler_task_config =
  cfg_priority :: u32
  cfg_affinity :: u32
  cfg_node :: u8

record scheduler_topology_config =
  top_cpu_count :: u8
  top_boot_cpu :: u8
  top_node_count :: u8
  top_cpu_to_node :: "nat \<Rightarrow> u8"
  top_cpu_online :: "nat \<Rightarrow> bool"

record scheduler_cpu_state =
  cpu_id :: u8
  numa_node :: u8
  online :: bool
  runnable :: "nat \<Rightarrow> task_list"
  runnable_count :: u32
  current :: "nat option"

record scheduler_trace_counters =
  timer_ticks :: u64
  schedule_events :: u64
  context_switches :: u64
  preemptions :: u64
  voluntary_yields :: u64
  wakeups :: u64
  wait_calls :: u64
  wait_timeouts :: u64
  sleep_calls :: u64
  task_creations :: u64
  task_exits :: u64
  priority_updates :: u64
  load_balance_runs :: u64
  load_balance_migrations :: u64
  task_migrations :: u64
  remote_wakeup_ipis :: u64
  remote_reschedule_ipis :: u64

record scheduler_trace_latency_metric =
  sample_count :: u64
  total_ticks :: u64
  min_ticks :: u32
  max_ticks :: u32

record scheduler_trace_latency =
  runnable_wait_ticks :: scheduler_trace_latency_metric
  sleep_overshoot_ticks :: scheduler_trace_latency_metric
  wait_timeout_overshoot_ticks :: scheduler_trace_latency_metric

record scheduler_reap_resources =
  res_stack_base :: u32
  res_space :: u32

text \<open>Calls to \<open>cpu_send_wakeup_ipi\<close> and \<open>cpu_send_reschedule_ipi\<close>, in order.\<close>

datatype ipi = Wakeup_Ipi u8 | Reschedule_Ipi u8

text \<open>The static variables of the file; the lock is implicit, a definition being what runs under it.\<close>

record scheduler =
  tasks :: task_table
  cpus :: "nat \<Rightarrow> scheduler_cpu_state"
  free_list :: task_list
  sleeping_list :: task_list
  blocked_list :: task_list
  zombie_list :: task_list
  configured_cpu_count :: u8
  configured_node_count :: u8
  boot_cpu_id :: u8
  system_ticks :: u32
  next_task_id :: u32
  last_balance_tick :: u32
  scheduler_bootstrapped :: bool
  trace_counters :: scheduler_trace_counters
  trace_latency :: scheduler_trace_latency
  ipis :: "ipi list"

text \<open>What \<^verbatim>\<open>arch/i386/cpu.c\<close> answers during a call: \<open>cpu_current_id\<close> and \<open>cpu_smp_available\<close>.\<close>

record cpu_env =
  env_cpu :: u32
  env_smp :: bool

text \<open>How a handler leaves: the frame that the interrupt epilogue restores and, after a switch, the
  kernel stack and the address space that were installed.\<close>

datatype resume = Keep u32 | Switch u32 u32 u32

section \<open>Trace counters and latency metrics\<close>

definition scheduler_trace_counter_inc :: "u64 \<Rightarrow> u64" where
  "scheduler_trace_counter_inc c = (if c = U64_MAX then c else c + 1)"

definition scheduler_trace_latency_reset_metric :: scheduler_trace_latency_metric where
  "scheduler_trace_latency_reset_metric = \<lparr>sample_count = 0, total_ticks = 0, min_ticks = 0, max_ticks = 0\<rparr>"

definition scheduler_trace_latency_record ::
  "scheduler_trace_latency_metric \<Rightarrow> u32 \<Rightarrow> scheduler_trace_latency_metric" where
  "scheduler_trace_latency_record m ticks =
     (let m1 = (if sample_count m = 0 \<or> ticks < min_ticks m then m\<lparr>min_ticks := ticks\<rparr> else m);
          m2 = (if ticks > max_ticks m1 then m1\<lparr>max_ticks := ticks\<rparr> else m1);
          m3 = (if sample_count m2 < U64_MAX then m2\<lparr>sample_count := sample_count m2 + 1\<rparr> else m2)
      in if total_ticks m3 > U64_MAX - (ucast ticks :: u64) then m3\<lparr>total_ticks := U64_MAX\<rparr>
         else m3\<lparr>total_ticks := total_ticks m3 + (ucast ticks :: u64)\<rparr>)"

definition zero_counters :: scheduler_trace_counters where
  "zero_counters = \<lparr>timer_ticks = 0, schedule_events = 0, context_switches = 0, preemptions = 0,
     voluntary_yields = 0, wakeups = 0, wait_calls = 0, wait_timeouts = 0, sleep_calls = 0,
     task_creations = 0, task_exits = 0, priority_updates = 0, load_balance_runs = 0,
     load_balance_migrations = 0, task_migrations = 0, remote_wakeup_ipis = 0,
     remote_reschedule_ipis = 0\<rparr>"

definition zero_latency :: scheduler_trace_latency where
  "zero_latency = \<lparr>runnable_wait_ticks = scheduler_trace_latency_reset_metric,
     sleep_overshoot_ticks = scheduler_trace_latency_reset_metric,
     wait_timeout_overshoot_ticks = scheduler_trace_latency_reset_metric\<rparr>"

definition scheduler_trace_reset_locked :: "scheduler \<Rightarrow> scheduler" where
  "scheduler_trace_reset_locked s = s\<lparr>trace_counters := zero_counters, trace_latency := zero_latency\<rparr>"

text \<open>Counting an event: the given counter is incremented.\<close>

abbreviation count_event ::
  "(((u64 \<Rightarrow> u64) \<Rightarrow> scheduler_trace_counters \<Rightarrow> scheduler_trace_counters)) \<Rightarrow> scheduler \<Rightarrow> scheduler" where
  "count_event field s \<equiv> trace_counters_update (field scheduler_trace_counter_inc) s"

section \<open>The lists of the scheduler\<close>

text \<open>The list variables by name, so that what pushes on one of them is written once.\<close>

datatype list_id = Free_List | Sleeping_List | Blocked_List | Zombie_List | Runnable_List nat nat

fun get_list :: "list_id \<Rightarrow> scheduler \<Rightarrow> task_list" where
  "get_list Free_List s = free_list s"
| "get_list Sleeping_List s = sleeping_list s"
| "get_list Blocked_List s = blocked_list s"
| "get_list Zombie_List s = zombie_list s"
| "get_list (Runnable_List c p) s = runnable (cpus s c) p"

definition upd_cpu :: "nat \<Rightarrow> (scheduler_cpu_state \<Rightarrow> scheduler_cpu_state) \<Rightarrow> scheduler \<Rightarrow> scheduler" where
  "upd_cpu c g s = s\<lparr>cpus := (cpus s)(c := g (cpus s c))\<rparr>"

fun set_list :: "list_id \<Rightarrow> task_list \<Rightarrow> scheduler \<Rightarrow> scheduler" where
  "set_list Free_List l s = s\<lparr>free_list := l\<rparr>"
| "set_list Sleeping_List l s = s\<lparr>sleeping_list := l\<rparr>"
| "set_list Blocked_List l s = s\<lparr>blocked_list := l\<rparr>"
| "set_list Zombie_List l s = s\<lparr>zombie_list := l\<rparr>"
| "set_list (Runnable_List c p) l s = upd_cpu c (\<lambda>x. x\<lparr>runnable := (runnable x)(p := l)\<rparr>) s"

definition upd_task :: "nat \<Rightarrow> (task \<Rightarrow> task) \<Rightarrow> scheduler \<Rightarrow> scheduler" where
  "upd_task t g s = s\<lparr>tasks := upd t g (tasks s)\<rparr>"

definition push_on :: "list_id \<Rightarrow> nat \<Rightarrow> task_list_kind \<Rightarrow> scheduler \<Rightarrow> scheduler" where
  "push_on i t kind s =
     (case task_list_push_back (get_list i s) t kind (tasks s) of (l, h) \<Rightarrow> set_list i l (s\<lparr>tasks := h\<rparr>))"

definition remove_from :: "list_id \<Rightarrow> nat \<Rightarrow> scheduler \<Rightarrow> scheduler" where
  "remove_from i t s =
     (case task_list_remove (get_list i s) t (tasks s) of (l, h) \<Rightarrow> set_list i l (s\<lparr>tasks := h\<rparr>))"

definition pop_from :: "list_id \<Rightarrow> scheduler \<Rightarrow> nat option \<times> scheduler" where
  "pop_from i s =
     (case task_list_pop_front (get_list i s) (tasks s) of (t, l, h) \<Rightarrow> (t, set_list i l (s\<lparr>tasks := h\<rparr>)))"

definition task_reset :: "u8 \<Rightarrow> task" where
  "task_reset boot = \<lparr>task_id = 0, task_name = 0, state = TASK_UNUSED, priority = PRIORITY_NORMAL,
     cpu_affinity_mask = CPU_MASK_ALL, preferred_numa_node = NUMA_NODE_ANY, assigned_cpu = boot,
     assigned_numa_node = 0, frame = 0, stack_base = 0, kernel_stack_top = 0, wakeup_tick = 0,
     runnable_enqueue_tick = 0, task_entry = 0, task_arg = 0, space = 0, wait_channel = 0,
     wait_result = False, ticks_in_slice = 0, list_prev = None, list_next = None,
     list_kind = TASK_LIST_NONE\<rparr>"

definition scheduler_allocate_task_slot :: "scheduler \<Rightarrow> nat option \<times> scheduler" where
  "scheduler_allocate_task_slot s =
     (case pop_from Free_List s of
        (None, s1) \<Rightarrow> (None, s1)
      | (Some t, s1) \<Rightarrow> (Some t, upd_task t (\<lambda>_. task_reset (boot_cpu_id s1)) s1))"

definition scheduler_release_task_slot :: "nat \<Rightarrow> scheduler \<Rightarrow> scheduler" where
  "scheduler_release_task_slot t s =
     push_on Free_List t TASK_LIST_FREE (upd_task t (\<lambda>_. task_reset (boot_cpu_id s)) s)"

section \<open>Reaping\<close>

definition scheduler_task_is_current_on_any_cpu_locked :: "nat \<Rightarrow> scheduler \<Rightarrow> bool" where
  "scheduler_task_is_current_on_any_cpu_locked t s =
     list_ex (\<lambda>c. online (cpus s c) \<and> current (cpus s c) = Some t) [0..<unat (configured_cpu_count s)]"

definition scheduler_detach_zombie_task_locked ::
  "nat \<Rightarrow> scheduler \<Rightarrow> scheduler_reap_resources option \<times> scheduler" where
  "scheduler_detach_zombie_task_locked t s =
     (if state (tasks s t) \<noteq> TASK_ZOMBIE \<or> list_kind (tasks s t) \<noteq> TASK_LIST_ZOMBIE then (None, s)
      else if scheduler_task_is_current_on_any_cpu_locked t s then (None, s)
      else let s1 = remove_from Zombie_List t s;
               r = \<lparr>res_stack_base = stack_base (tasks s1 t), res_space = space (tasks s1 t)\<rparr>;
               s2 = upd_task t (\<lambda>x. x\<lparr>stack_base := 0, space := 0\<rparr>) s1
           in (Some r, scheduler_release_task_slot t s2))"

section \<open>CPUs and placement\<close>

definition scheduler_priority_sanitize :: "u32 \<Rightarrow> u32" where
  "scheduler_priority_sanitize p = (if p \<ge> PRIORITY_COUNT then PRIORITY_NORMAL else p)"

definition priority_time_slice :: "u8 list" where
  "priority_time_slice = [2, 3, 5, 7, 9]"

definition scheduler_priority_timeslice :: "u32 \<Rightarrow> u8" where
  "scheduler_priority_timeslice p = priority_time_slice ! unat (scheduler_priority_sanitize p)"

definition scheduler_cpu_state_init :: "u8 \<Rightarrow> u8 \<Rightarrow> bool \<Rightarrow> scheduler_cpu_state" where
  "scheduler_cpu_state_init i node up = \<lparr>cpu_id = i, numa_node = node, online = up,
     runnable = (\<lambda>_. task_list_init), runnable_count = 0, current = None\<rparr>"

definition scheduler_has_live_tasks :: "scheduler \<Rightarrow> bool" where
  "scheduler_has_live_tasks s = list_ex (\<lambda>i. state (tasks s i) \<noteq> TASK_UNUSED) [0..<MAX_THREADS]"

definition scheduler_topology_default :: scheduler_topology_config where
  "scheduler_topology_default = \<lparr>top_cpu_count = 1, top_boot_cpu = 0, top_node_count = 1,
     top_cpu_to_node = (\<lambda>_. 0), top_cpu_online = (\<lambda>i. i = 0)\<rparr>"

definition topology_valid :: "scheduler_topology_config \<Rightarrow> bool" where
  "topology_valid cfg \<longleftrightarrow>
     \<not> (top_cpu_count cfg = 0 \<or> top_cpu_count cfg > 8) \<and>
     \<not> (top_node_count cfg = 0 \<or> top_node_count cfg > 4) \<and>
     \<not> top_boot_cpu cfg \<ge> top_cpu_count cfg \<and>
     list_all (\<lambda>i. \<not> top_cpu_to_node cfg i \<ge> top_node_count cfg) [0..<unat (top_cpu_count cfg)] \<and>
     \<not> (length (filter (top_cpu_online cfg) [0..<unat (top_cpu_count cfg)]) = 0 \<or>
        \<not> top_cpu_online cfg (unat (top_boot_cpu cfg)))"

definition scheduler_configure_topology ::
  "scheduler_topology_config \<Rightarrow> scheduler \<times> pmm \<Rightarrow> bool \<times> scheduler \<times> pmm" where
  "scheduler_configure_topology cfg = (\<lambda>(s, m).
     if scheduler_bootstrapped s \<or> scheduler_has_live_tasks s then (False, s, m)
     else if \<not> topology_valid cfg then (False, s, m)
     else let s1 = s\<lparr>configured_cpu_count := top_cpu_count cfg, configured_node_count := top_node_count cfg,
                     boot_cpu_id := top_boot_cpu cfg\<rparr>;
              s2 = fold (\<lambda>i. upd_cpu i (\<lambda>_. scheduler_cpu_state_init (of_nat i)
                       (if i < unat (top_cpu_count cfg) then top_cpu_to_node cfg i else 0)
                       (i < unat (top_cpu_count cfg) \<and> top_cpu_online cfg i))) [0..<MAX_CPUS] s1;
              (done, m1) = pmm_configure_numa_topology (configured_node_count s2) m
          in (done, s2, m1))"

definition cpu_mask :: "nat \<Rightarrow> (nat \<Rightarrow> bool) \<Rightarrow> u32" where
  "cpu_mask n up = fold (\<lambda>i m. if up i then m OR push_bit i 1 else m) [0..<n] 0"

definition scheduler_online_cpu_mask :: "scheduler \<Rightarrow> u32" where
  "scheduler_online_cpu_mask s = cpu_mask (unat (configured_cpu_count s)) (\<lambda>i. online (cpus s i))"

definition scheduler_normalize_affinity_mask :: "u32 \<Rightarrow> scheduler \<Rightarrow> u32" where
  "scheduler_normalize_affinity_mask a s =
     (let n = a AND scheduler_online_cpu_mask s in if n = 0 then scheduler_online_cpu_mask s else n)"

text \<open>A \<open>scheduler_cpu_state_t*\<close> is an index of \<open>cpus\<close>.\<close>

definition scheduler_cpu_by_id :: "u8 \<Rightarrow> scheduler \<Rightarrow> nat" where
  "scheduler_cpu_by_id i s =
     (if i \<ge> configured_cpu_count s \<or> \<not> online (cpus s (unat i)) then unat (boot_cpu_id s) else unat i)"

definition scheduler_current_cpu_state :: "cpu_env \<Rightarrow> scheduler \<Rightarrow> nat" where
  "scheduler_current_cpu_state e s =
     (if configured_cpu_count s = 0 then 0
      else if env_cpu e \<ge> (ucast (configured_cpu_count s) :: u32) \<or> \<not> online (cpus s (unat (env_cpu e)))
      then unat (boot_cpu_id s) else unat (env_cpu e))"

definition scheduler_current_cpu :: "cpu_env \<Rightarrow> scheduler \<Rightarrow> u8" where
  "scheduler_current_cpu e s = cpu_id (cpus s (scheduler_current_cpu_state e s))"

definition scheduler_current_task :: "cpu_env \<Rightarrow> scheduler \<Rightarrow> nat option" where
  "scheduler_current_task e s = current (cpus s (scheduler_current_cpu_state e s))"

definition scheduler_cpu_load :: "nat \<Rightarrow> scheduler \<Rightarrow> u32" where
  "scheduler_cpu_load c s =
     (case current (cpus s c) of
        Some t \<Rightarrow> if state (tasks s t) = TASK_RUNNING then runnable_count (cpus s c) + 1 else runnable_count (cpus s c)
      | None \<Rightarrow> runnable_count (cpus s c))"

text \<open>One step of the inner loop of \<open>scheduler_select_best_cpu_from_view\<close>, its local variables
  \<open>best_cpu\<close> and \<open>best_load\<close> as a pair, and the loop.\<close>

definition consider_cpu ::
  "bool \<Rightarrow> (nat \<Rightarrow> u8) \<Rightarrow> (nat \<Rightarrow> u32) \<Rightarrow> u32 \<Rightarrow> u8 \<Rightarrow> u8 \<Rightarrow> nat \<Rightarrow> u8 \<times> u32 \<Rightarrow> u8 \<times> u32" where
  "consider_cpu enforce cpu_to_node cpu_load normalized preferred local_cpu cpu = (\<lambda>(best_cpu, best_load).
     if normalized AND push_bit cpu 1 = 0 then (best_cpu, best_load)
     else if enforce \<and> cpu_to_node cpu \<noteq> preferred then (best_cpu, best_load)
     else if best_cpu = INVALID_CPU_ID \<or> cpu_load cpu < best_load then (of_nat cpu, cpu_load cpu)
     else if cpu_load cpu = best_load then
       (if cpu = unat local_cpu \<and> best_cpu \<noteq> local_cpu then (of_nat cpu, best_load)
        else if best_cpu \<noteq> local_cpu \<and> cpu < unat best_cpu then (of_nat cpu, best_load)
        else (best_cpu, best_load))
     else (best_cpu, best_load))"

definition select_pass ::
  "bool \<Rightarrow> nat \<Rightarrow> (nat \<Rightarrow> u8) \<Rightarrow> (nat \<Rightarrow> u32) \<Rightarrow> u32 \<Rightarrow> u8 \<Rightarrow> u8 \<Rightarrow> u8" where
  "select_pass enforce n cpu_to_node cpu_load normalized preferred local_cpu =
     fst (fold (consider_cpu enforce cpu_to_node cpu_load normalized preferred local_cpu) [0..<n]
            (INVALID_CPU_ID, UINT_MAX))"

definition scheduler_select_best_cpu_from_view ::
  "u8 \<Rightarrow> (nat \<Rightarrow> bool) \<Rightarrow> (nat \<Rightarrow> u8) \<Rightarrow> (nat \<Rightarrow> u32) \<Rightarrow> u32 \<Rightarrow> u8 \<Rightarrow> u8 \<Rightarrow> u8" where
  "scheduler_select_best_cpu_from_view cpu_count cpu_online cpu_to_node cpu_load affinity preferred local_cpu =
     (if cpu_count = 0 then INVALID_CPU_ID
      else let online_mask = cpu_mask (unat cpu_count) cpu_online
           in if online_mask = 0 then INVALID_CPU_ID
              else let normalized = (if affinity AND online_mask = 0 then online_mask else affinity AND online_mask);
                       first = select_pass (preferred \<noteq> NUMA_NODE_ANY) (unat cpu_count) cpu_to_node cpu_load
                                 normalized preferred local_cpu
                   in if first \<noteq> INVALID_CPU_ID then first
                      else select_pass False (unat cpu_count) cpu_to_node cpu_load normalized preferred local_cpu)"

definition scheduler_select_target_cpu :: "cpu_env \<Rightarrow> u32 \<Rightarrow> u8 \<Rightarrow> scheduler \<Rightarrow> u8" where
  "scheduler_select_target_cpu e affinity preferred s =
     (let local_cpu = (if scheduler_bootstrapped s then scheduler_current_cpu e s else boot_cpu_id s);
          selected = scheduler_select_best_cpu_from_view (configured_cpu_count s) (\<lambda>c. online (cpus s c))
            (\<lambda>c. numa_node (cpus s c)) (\<lambda>c. scheduler_cpu_load c s) affinity preferred local_cpu
      in if selected = INVALID_CPU_ID then boot_cpu_id s else selected)"

end
