(* ===== verification/Sched_Ops.thy ===== *)
theory Sched_Ops
  imports Sched_State
begin

text \<open>
  The operations of \<^verbatim>\<open>kernel/kernel/scheduler.c\<close>, each critical section as one definition on the state. A section
  that panics or walks forever has no result (\<open>None\<close>). The calls that block are given as the sections between which
  the code releases its lock, and as a whole.
\<close>

section \<open>Run queues\<close>

definition scheduler_notify_remote_runnable ::
  "cpu_env \<Rightarrow> nat \<Rightarrow> scheduler_enqueue_reason \<Rightarrow> scheduler \<Rightarrow> scheduler" where
  "scheduler_notify_remote_runnable e c reason s =
     (if \<not> scheduler_bootstrapped s \<or> \<not> online (cpus s c) \<or> \<not> env_smp e then s
      else if cpu_id (cpus s c) = scheduler_current_cpu e s then s
      else if reason = REASON_WAKEUP
      then (count_event remote_wakeup_ipis_update s)\<lparr>ipis := ipis s @ [Wakeup_Ipi (cpu_id (cpus s c))]\<rparr>
      else (count_event remote_reschedule_ipis_update s)\<lparr>ipis := ipis s @ [Reschedule_Ipi (cpu_id (cpus s c))]\<rparr>)"

definition scheduler_cpu_enqueue_runnable_local :: "nat \<Rightarrow> nat \<Rightarrow> scheduler \<Rightarrow> scheduler" where
  "scheduler_cpu_enqueue_runnable_local c t s =
     (let p = scheduler_priority_sanitize (priority (tasks s t));
          s1 = upd_task t (\<lambda>x. x\<lparr>priority := p, assigned_cpu := cpu_id (cpus s c),
                 assigned_numa_node := numa_node (cpus s c), state := TASK_RUNNABLE, ticks_in_slice := 0,
                 runnable_enqueue_tick := system_ticks s\<rparr>) s;
          s2 = push_on (Runnable_List c (unat p)) t TASK_LIST_RUNNABLE s1
      in upd_cpu c (\<lambda>x. x\<lparr>runnable_count := runnable_count x + 1\<rparr>) s2)"

definition scheduler_cpu_enqueue_runnable ::
  "cpu_env \<Rightarrow> nat \<Rightarrow> nat \<Rightarrow> scheduler_enqueue_reason \<Rightarrow> scheduler \<Rightarrow> scheduler" where
  "scheduler_cpu_enqueue_runnable e c t reason s =
     scheduler_notify_remote_runnable e c reason (scheduler_cpu_enqueue_runnable_local c t s)"

definition scheduler_enqueue_runnable ::
  "cpu_env \<Rightarrow> nat \<Rightarrow> scheduler_enqueue_reason \<Rightarrow> scheduler \<Rightarrow> scheduler" where
  "scheduler_enqueue_runnable e t reason s =
     scheduler_cpu_enqueue_runnable e (scheduler_cpu_by_id (assigned_cpu (tasks s t)) s) t reason s"

definition decrement_runnable :: "nat \<Rightarrow> scheduler \<Rightarrow> scheduler" where
  "decrement_runnable c =
     upd_cpu c (\<lambda>x. if runnable_count x > 0 then x\<lparr>runnable_count := runnable_count x - 1\<rparr> else x)"

definition scheduler_remove_runnable :: "nat \<Rightarrow> scheduler \<Rightarrow> scheduler" where
  "scheduler_remove_runnable t s =
     (if list_kind (tasks s t) \<noteq> TASK_LIST_RUNNABLE \<or> state (tasks s t) \<noteq> TASK_RUNNABLE then s
      else let c = scheduler_cpu_by_id (assigned_cpu (tasks s t)) s;
               p = scheduler_priority_sanitize (priority (tasks s t))
           in decrement_runnable c (remove_from (Runnable_List c (unat p)) t s))"

fun dequeue_from :: "nat \<Rightarrow> nat list \<Rightarrow> scheduler \<Rightarrow> nat option \<times> scheduler" where
  "dequeue_from c [] s = (None, s)"
| "dequeue_from c (p # ps) s =
     (case pop_from (Runnable_List c p) s of
        (None, s1) \<Rightarrow> dequeue_from c ps s1
      | (Some t, s1) \<Rightarrow>
          let s2 = decrement_runnable c s1
          in (Some t, s2\<lparr>trace_latency := runnable_wait_ticks_update (\<lambda>m. scheduler_trace_latency_record m
                (system_ticks s2 - runnable_enqueue_tick (tasks s2 t))) (trace_latency s2)\<rparr>))"

definition scheduler_cpu_dequeue_next_runnable :: "nat \<Rightarrow> scheduler \<Rightarrow> nat option \<times> scheduler" where
  "scheduler_cpu_dequeue_next_runnable c = dequeue_from c [0, 1, 2, 3, 4]"

section \<open>Load balancing\<close>

definition scheduler_migrate_runnable_task ::
  "cpu_env \<Rightarrow> nat \<Rightarrow> nat \<Rightarrow> nat \<Rightarrow> bool \<Rightarrow> scheduler \<Rightarrow> bool \<times> scheduler" where
  "scheduler_migrate_runnable_task e source target t notify s =
     (if source = target then (False, s)
      else if \<not> online (cpus s source) \<or> \<not> online (cpus s target) then (False, s)
      else if state (tasks s t) \<noteq> TASK_RUNNABLE \<or> list_kind (tasks s t) \<noteq> TASK_LIST_RUNNABLE then (False, s)
      else if assigned_cpu (tasks s t) \<noteq> cpu_id (cpus s source) then (False, s)
      else if cpu_affinity_mask (tasks s t) AND push_bit (unat (cpu_id (cpus s target))) 1 = 0 then (False, s)
      else let p = scheduler_priority_sanitize (priority (tasks s t));
               s1 = decrement_runnable source (remove_from (Runnable_List source (unat p)) t s);
               s2 = (if notify then scheduler_cpu_enqueue_runnable e target t REASON_RESCHEDULE s1
                     else scheduler_cpu_enqueue_runnable_local target t s1)
           in (True, count_event task_migrations_update s2))"

text \<open>The walk of one queue in \<open>scheduler_balance_once_from_view\<close>: \<open>None\<close> if it does not end, \<open>Some None\<close> if
  no task of the queue moved, else the updated loads and state. The view is \<open>cpus\<close>.\<close>

partial_function (option) balance_queue ::
  "cpu_env \<Rightarrow> u8 \<Rightarrow> (nat \<Rightarrow> bool) \<Rightarrow> (nat \<Rightarrow> u8) \<Rightarrow> bool \<Rightarrow> nat \<Rightarrow> nat option \<Rightarrow> (nat \<Rightarrow> u32) \<Rightarrow> scheduler \<Rightarrow>
   ((nat \<Rightarrow> u32) \<times> scheduler) option option" where
  "balance_queue e cpu_count cpu_online cpu_to_node notify source task cpu_load s =
     (case task of
        None \<Rightarrow> Some None
      | Some t \<Rightarrow>
          let nxt = list_next (tasks s t);
              target = scheduler_select_best_cpu_from_view cpu_count cpu_online cpu_to_node cpu_load
                (cpu_affinity_mask (tasks s t)) (preferred_numa_node (tasks s t)) (cpu_id (cpus s source))
          in if target = INVALID_CPU_ID \<or> target = cpu_id (cpus s source)
             then balance_queue e cpu_count cpu_online cpu_to_node notify source nxt cpu_load s
             else if cpu_load source \<le> cpu_load (unat target) + 1
             then balance_queue e cpu_count cpu_online cpu_to_node notify source nxt cpu_load s
             else if \<not> cpu_online (unat target) \<or> \<not> online (cpus s (unat target))
             then balance_queue e cpu_count cpu_online cpu_to_node notify source nxt cpu_load s
             else if \<not> fst (scheduler_migrate_runnable_task e source (unat target) t notify s)
             then balance_queue e cpu_count cpu_online cpu_to_node notify source nxt cpu_load s
             else let load1 = cpu_load(source := cpu_load source - 1)
                  in Some (Some (load1(unat target := load1 (unat target) + 1),
                     snd (scheduler_migrate_runnable_task e source (unat target) t notify s))))"

fun balance_priorities ::
  "cpu_env \<Rightarrow> u8 \<Rightarrow> (nat \<Rightarrow> bool) \<Rightarrow> (nat \<Rightarrow> u8) \<Rightarrow> bool \<Rightarrow> nat \<Rightarrow> nat list \<Rightarrow> (nat \<Rightarrow> u32) \<Rightarrow> scheduler \<Rightarrow>
   ((nat \<Rightarrow> u32) \<times> scheduler) option option" where
  "balance_priorities e n up node notify source [] cpu_load s = Some None"
| "balance_priorities e n up node notify source (p # ps) cpu_load s =
     (case balance_queue e n up node notify source (lhead (runnable (cpus s source) p)) cpu_load s of
        Some None \<Rightarrow> balance_priorities e n up node notify source ps cpu_load s
      | r \<Rightarrow> r)"

fun balance_sources ::
  "cpu_env \<Rightarrow> u8 \<Rightarrow> (nat \<Rightarrow> bool) \<Rightarrow> (nat \<Rightarrow> u8) \<Rightarrow> bool \<Rightarrow> nat list \<Rightarrow> (nat \<Rightarrow> u32) \<Rightarrow> scheduler \<Rightarrow>
   ((nat \<Rightarrow> u32) \<times> scheduler) option option" where
  "balance_sources e n up node notify [] cpu_load s = Some None"
| "balance_sources e n up node notify (c # cs) cpu_load s =
     (if \<not> up c \<or> \<not> online (cpus s c) \<or> runnable_count (cpus s c) = 0
      then balance_sources e n up node notify cs cpu_load s
      else case balance_priorities e n up node notify c [4, 3, 2, 1, 0] cpu_load s of
             Some None \<Rightarrow> balance_sources e n up node notify cs cpu_load s
           | r \<Rightarrow> r)"

definition scheduler_balance_once_from_view ::
  "cpu_env \<Rightarrow> u8 \<Rightarrow> (nat \<Rightarrow> bool) \<Rightarrow> (nat \<Rightarrow> u8) \<Rightarrow> (nat \<Rightarrow> u32) \<Rightarrow> bool \<Rightarrow> scheduler \<Rightarrow>
   (bool \<times> (nat \<Rightarrow> u32) \<times> scheduler) option" where
  "scheduler_balance_once_from_view e cpu_count cpu_online cpu_to_node cpu_load notify s =
     (if cpu_count \<le> 1 then Some (False, cpu_load, s)
      else map_option (\<lambda>r. case r of None \<Rightarrow> (False, cpu_load, s) | Some (load', s') \<Rightarrow> (True, load', s'))
             (balance_sources e cpu_count cpu_online cpu_to_node notify [0..<unat cpu_count] cpu_load s))"

definition scheduler_should_balance_now :: "cpu_env \<Rightarrow> scheduler \<Rightarrow> bool \<times> scheduler" where
  "scheduler_should_balance_now e s =
     (if \<not> scheduler_bootstrapped s \<or> configured_cpu_count s \<le> 1 \<or> \<not> env_smp e then (False, s)
      else if system_ticks s - last_balance_tick s < 16 then (False, s)
      else (True, s\<lparr>last_balance_tick := system_ticks s\<rparr>))"

fun balance_rounds ::
  "nat \<Rightarrow> cpu_env \<Rightarrow> u8 \<Rightarrow> (nat \<Rightarrow> bool) \<Rightarrow> (nat \<Rightarrow> u8) \<Rightarrow> (nat \<Rightarrow> u32) \<Rightarrow> scheduler \<Rightarrow> scheduler option" where
  "balance_rounds 0 e n up node cpu_load s = Some s"
| "balance_rounds (Suc k) e n up node cpu_load s =
     (case scheduler_balance_once_from_view e n up node cpu_load True s of
        None \<Rightarrow> None
      | Some (moved, load', s1) \<Rightarrow>
          if \<not> moved then Some s1
          else balance_rounds k e n up node load' (count_event load_balance_migrations_update s1))"

definition scheduler_balance_periodic :: "cpu_env \<Rightarrow> scheduler \<Rightarrow> scheduler option" where
  "scheduler_balance_periodic e s =
     (let s1 = count_event load_balance_runs_update s
      in balance_rounds 2 e (configured_cpu_count s1) (\<lambda>c. online (cpus s1 c)) (\<lambda>c. numa_node (cpus s1 c))
           (\<lambda>c. scheduler_cpu_load c s1) s1)"

definition scheduler_cpu_has_higher_priority_runnable :: "nat \<Rightarrow> u32 \<Rightarrow> scheduler \<Rightarrow> bool" where
  "scheduler_cpu_has_higher_priority_runnable c p s =
     list_ex (\<lambda>i. lcount (runnable (cpus s c) i) > 0) [0..<unat (scheduler_priority_sanitize p)]"

section \<open>Timers\<close>

definition wake_sleeper :: "cpu_env \<Rightarrow> nat \<Rightarrow> scheduler \<Rightarrow> scheduler" where
  "wake_sleeper e t s =
     (let s1 = s\<lparr>trace_latency := sleep_overshoot_ticks_update (\<lambda>m. scheduler_trace_latency_record m
                 (system_ticks s - wakeup_tick (tasks s t))) (trace_latency s)\<rparr>;
          s2 = remove_from Sleeping_List t s1;
          s3 = scheduler_enqueue_runnable e t REASON_WAKEUP s2
      in count_event wakeups_update s3)"

partial_function (option) advance_sleepers :: "cpu_env \<Rightarrow> nat option \<Rightarrow> scheduler \<Rightarrow> scheduler option" where
  "advance_sleepers e task s =
     (case task of
        None \<Rightarrow> Some s
      | Some t \<Rightarrow> let nxt = list_next (tasks s t)
          in advance_sleepers e nxt (if wakeup_tick (tasks s t) \<le> system_ticks s then wake_sleeper e t s else s))"

definition expire_waiter :: "cpu_env \<Rightarrow> nat \<Rightarrow> scheduler \<Rightarrow> scheduler" where
  "expire_waiter e t s =
     (let s1 = s\<lparr>trace_latency := wait_timeout_overshoot_ticks_update (\<lambda>m. scheduler_trace_latency_record m
                 (system_ticks s - wakeup_tick (tasks s t))) (trace_latency s)\<rparr>;
          s2 = remove_from Blocked_List t s1;
          s3 = upd_task t (\<lambda>x. x\<lparr>wait_channel := 0, wait_result := False, wakeup_tick := 0\<rparr>) s2;
          s4 = scheduler_enqueue_runnable e t REASON_WAKEUP s3
      in count_event wait_timeouts_update (count_event wakeups_update s4))"

partial_function (option) advance_waiters :: "cpu_env \<Rightarrow> nat option \<Rightarrow> scheduler \<Rightarrow> scheduler option" where
  "advance_waiters e task s =
     (case task of
        None \<Rightarrow> Some s
      | Some t \<Rightarrow> let nxt = list_next (tasks s t)
          in advance_waiters e nxt
               (if wakeup_tick (tasks s t) \<noteq> 0 \<and> wakeup_tick (tasks s t) \<le> system_ticks s then expire_waiter e t s else s))"

definition scheduler_advance_timers :: "cpu_env \<Rightarrow> scheduler \<Rightarrow> scheduler option" where
  "scheduler_advance_timers e s =
     (case advance_sleepers e (lhead (sleeping_list s)) s of
        None \<Rightarrow> None
      | Some s1 \<Rightarrow> advance_waiters e (lhead (blocked_list s1)) s1)"

section \<open>Dispatch\<close>

text \<open>A handler that panics does not return: \<open>None\<close>.\<close>

definition scheduler_switch_to_task ::
  "nat \<Rightarrow> nat option \<Rightarrow> u32 \<Rightarrow> scheduler \<Rightarrow> (resume \<times> scheduler) option" where
  "scheduler_switch_to_task c next_task fallback_frame s =
     (case next_task of
        None \<Rightarrow>
          (case current (cpus s c) of
             Some cur \<Rightarrow>
               if state (tasks s cur) = TASK_RUNNING
               then Some (Switch fallback_frame (kernel_stack_top (tasks s cur)) (space (tasks s cur)), s)
               else None
           | None \<Rightarrow> None)
      | Some t \<Rightarrow>
          let previous = current (cpus s c);
              s1 = upd_task t (\<lambda>x. x\<lparr>state := TASK_RUNNING, ticks_in_slice := 0\<rparr>) s;
              s2 = upd_cpu c (\<lambda>x. x\<lparr>current := Some t\<rparr>) s1;
              s3 = (if previous \<noteq> Some t then count_event context_switches_update s2 else s2)
          in Some (Switch (frame (tasks s3 t)) (kernel_stack_top (tasks s3 t)) (space (tasks s3 t)), s3))"

definition schedule_next :: "nat \<Rightarrow> u32 \<Rightarrow> scheduler \<Rightarrow> (resume \<times> scheduler) option" where
  "schedule_next c fr s =
     (case scheduler_cpu_dequeue_next_runnable c s of (n, s1) \<Rightarrow> scheduler_switch_to_task c n fr s1)"

definition scheduler_schedule_cpu ::
  "cpu_env \<Rightarrow> nat \<Rightarrow> u32 \<Rightarrow> bool \<Rightarrow> scheduler \<Rightarrow> (resume \<times> scheduler) option" where
  "scheduler_schedule_cpu e c fr force_switch s =
     (let s1 = count_event schedule_events_update s
      in case current (cpus s1 c) of
           None \<Rightarrow> schedule_next c fr s1
         | Some cur \<Rightarrow>
             let s2 = upd_task cur (\<lambda>x. x\<lparr>frame := fr\<rparr>) s1
             in if state (tasks s2 cur) \<noteq> TASK_RUNNING then schedule_next c fr s2
                else if \<not> force_switch \<and> \<not> scheduler_cpu_has_higher_priority_runnable c (priority (tasks s2 cur)) s2
                then Some (Keep fr, s2)
                else schedule_next c fr (scheduler_cpu_enqueue_runnable e c cur REASON_RESCHEDULE s2))"

definition scheduler_on_timer_tick :: "cpu_env \<Rightarrow> u32 \<Rightarrow> scheduler \<Rightarrow> (resume \<times> scheduler) option" where
  "scheduler_on_timer_tick e fr s =
     (case scheduler_advance_timers e (count_event timer_ticks_update (s\<lparr>system_ticks := system_ticks s + 1\<rparr>)) of
        None \<Rightarrow> None
      | Some s1 \<Rightarrow>
          let c = scheduler_current_cpu_state e s1;
              cur = current (cpus s1 c);
              (due, s2) = (if cpu_id (cpus s1 c) = boot_cpu_id s1 then scheduler_should_balance_now e s1 else (False, s1))
          in case (if due then scheduler_balance_periodic e s2 else Some s2) of
               None \<Rightarrow> None
             | Some s3 \<Rightarrow>
                 (case cur of
                    None \<Rightarrow> scheduler_schedule_cpu e c fr True s3
                  | Some t \<Rightarrow>
                      if state (tasks s3 t) \<noteq> TASK_RUNNING then scheduler_schedule_cpu e c fr True s3
                      else let s4 = upd_task t (\<lambda>x. x\<lparr>ticks_in_slice := ticks_in_slice x + 1\<rparr>) s3
                           in if ticks_in_slice (tasks s4 t) \<ge> ucast (scheduler_priority_timeslice (priority (tasks s4 t))) \<or>
                                 scheduler_cpu_has_higher_priority_runnable c (priority (tasks s4 t)) s4
                              then scheduler_schedule_cpu e c fr True (count_event preemptions_update s4)
                              else Some (Keep fr, upd_task t (\<lambda>x. x\<lparr>frame := fr\<rparr>) s4)))"

definition scheduler_on_yield :: "cpu_env \<Rightarrow> u32 \<Rightarrow> scheduler \<Rightarrow> (resume \<times> scheduler) option" where
  "scheduler_on_yield e fr s =
     (let s1 = count_event voluntary_yields_update s
      in scheduler_schedule_cpu e (scheduler_current_cpu_state e s1) fr True s1)"

section \<open>Start\<close>

text \<open>\<open>literal\<close> is the address of the string literal that names a task whose caller passes none.\<close>

definition scheduler_task_config_default :: scheduler_task_config where
  "scheduler_task_config_default =
     \<lparr>cfg_priority = PRIORITY_NORMAL, cfg_affinity = CPU_MASK_ALL, cfg_node = NUMA_NODE_ANY\<rparr>"

text \<open>\<open>scheduler_init\<close> up to the topology, whose failure panics (\<open>None\<close>); the prior contents of the
  variables are the arguments.\<close>

definition scheduler_init :: "scheduler \<times> pmm \<Rightarrow> (scheduler \<times> pmm) option" where
  "scheduler_init = (\<lambda>(s, m).
     let s1 = s\<lparr>free_list := task_list_init, sleeping_list := task_list_init, blocked_list := task_list_init,
                zombie_list := task_list_init, scheduler_bootstrapped := False, system_ticks := 0,
                next_task_id := 1, last_balance_tick := 0, configured_cpu_count := 0,
                configured_node_count := 0, boot_cpu_id := 0\<rparr>;
         s2 = scheduler_trace_reset_locked s1;
         s3 = fold (\<lambda>i st. push_on Free_List i TASK_LIST_FREE (upd_task i (\<lambda>_. task_reset (boot_cpu_id st)) st))
                [0..<MAX_THREADS] s2
     in case scheduler_configure_topology scheduler_topology_default (s3, m) of
          (ok, s4, m4) \<Rightarrow> if ok then Some (s4, m4) else None)"

definition scheduler_bootstrap_cpu_task ::
  "u8 \<Rightarrow> u32 \<Rightarrow> u32 \<Rightarrow> u32 \<Rightarrow> u32 \<Rightarrow> scheduler \<Rightarrow> nat option \<times> scheduler" where
  "scheduler_bootstrap_cpu_task i stack_top name literal kernel_space s =
     (if configured_cpu_count s = 0 \<or> i \<ge> configured_cpu_count s \<or> \<not> online (cpus s (unat i)) then (None, s)
      else if current (cpus s (unat i)) \<noteq> None then (None, s)
      else case scheduler_allocate_task_slot s of
             (None, s1) \<Rightarrow> (None, s1)
           | (Some t, s1) \<Rightarrow>
               let s2 = s1\<lparr>next_task_id := next_task_id s1 + 1\<rparr>;
                   s3 = upd_task t (\<lambda>x. x\<lparr>task_id := next_task_id s1,
                     task_name := (if name \<noteq> 0 then name else literal), state := TASK_RUNNING,
                     priority := PRIORITY_NORMAL, cpu_affinity_mask := scheduler_online_cpu_mask s2,
                     preferred_numa_node := NUMA_NODE_ANY, assigned_cpu := cpu_id (cpus s2 (unat i)),
                     assigned_numa_node := numa_node (cpus s2 (unat i)), frame := 0, stack_base := 0,
                     kernel_stack_top := stack_top, wakeup_tick := 0, runnable_enqueue_tick := 0,
                     task_entry := 0, task_arg := 0, space := kernel_space, ticks_in_slice := 0,
                     wait_channel := 0, wait_result := False\<rparr>) s2
               in (Some t, upd_cpu (unat i) (\<lambda>x. x\<lparr>current := Some t\<rparr>) s3))"

definition scheduler_bootstrap_current ::
  "u32 \<Rightarrow> u32 \<Rightarrow> u32 \<Rightarrow> u32 \<Rightarrow> u32 \<Rightarrow> scheduler \<Rightarrow> scheduler option" where
  "scheduler_bootstrap_current name literal esp kernel_space current_space s =
     (if scheduler_bootstrapped s \<or> configured_cpu_count s = 0 then None
      else case scheduler_bootstrap_cpu_task (boot_cpu_id s) esp (if name \<noteq> 0 then name else literal) literal kernel_space s of
             (None, s1) \<Rightarrow> None
           | (Some t, s1) \<Rightarrow> Some ((upd_task t (\<lambda>x. x\<lparr>space := current_space\<rparr>) s1)\<lparr>scheduler_bootstrapped := True\<rparr>))"

definition scheduler_bootstrap_secondary_current ::
  "u32 \<Rightarrow> u32 \<Rightarrow> u32 \<Rightarrow> u32 \<Rightarrow> u32 \<Rightarrow> scheduler \<Rightarrow> bool \<times> scheduler" where
  "scheduler_bootstrap_secondary_current i stack_top name literal kernel_space s =
     (if \<not> scheduler_bootstrapped s \<or> i \<ge> ucast (configured_cpu_count s) \<or> i = ucast (boot_cpu_id s) then (False, s)
      else case scheduler_bootstrap_cpu_task (ucast i) stack_top name literal kernel_space s of
             (t, s1) \<Rightarrow> (t \<noteq> None, s1))"

section \<open>Tasks\<close>

text \<open>\<open>scheduler_create_kernel_task_ex\<close> in its three critical sections. The reservation returns the effective
  configuration, the memory node and the slot; the page allocator runs between the sections.\<close>

definition create_reserve ::
  "cpu_env \<Rightarrow> scheduler_task_config \<Rightarrow> scheduler \<Rightarrow> (scheduler_task_config \<times> u8 \<times> nat) option \<times> scheduler" where
  "create_reserve e cfg s =
     (if configured_cpu_count s = 0 then (None, s)
      else let node = (if cfg_node cfg \<noteq> NUMA_NODE_ANY \<and> cfg_node cfg \<ge> configured_node_count s
                       then NUMA_NODE_ANY else cfg_node cfg);
               eff = \<lparr>cfg_priority = scheduler_priority_sanitize (cfg_priority cfg),
                      cfg_affinity = scheduler_normalize_affinity_mask (cfg_affinity cfg) s, cfg_node = node\<rparr>;
               hint = scheduler_cpu_by_id (scheduler_select_target_cpu e (cfg_affinity eff) (cfg_node eff) s) s
           in case scheduler_allocate_task_slot s of
                (None, s1) \<Rightarrow> (None, s1)
              | (Some t, s1) \<Rightarrow> (Some (eff, numa_node (cpus s hint), t), s1))"

definition create_commit ::
  "cpu_env \<Rightarrow> scheduler_task_config \<Rightarrow> nat \<Rightarrow> u32 \<Rightarrow> u32 \<Rightarrow> u32 \<Rightarrow> u32 \<Rightarrow> u32 \<Rightarrow> u32 \<Rightarrow> scheduler \<Rightarrow> scheduler" where
  "create_commit e eff t name literal entry arg sp stack s =
     (let c = scheduler_cpu_by_id (scheduler_select_target_cpu e (cfg_affinity eff) (cfg_node eff) s) s;
          s1 = s\<lparr>next_task_id := next_task_id s + 1\<rparr>;
          s2 = upd_task t (\<lambda>x. x\<lparr>task_id := next_task_id s,
            task_name := (if name \<noteq> 0 then name else literal), state := TASK_RUNNABLE,
            priority := cfg_priority eff, cpu_affinity_mask := cfg_affinity eff,
            preferred_numa_node := cfg_node eff, assigned_cpu := cpu_id (cpus s1 c),
            assigned_numa_node := numa_node (cpus s1 c), frame := stack + TASK_STACK_SIZE - 52,
            stack_base := stack, kernel_stack_top := stack + TASK_STACK_SIZE, wakeup_tick := 0,
            runnable_enqueue_tick := 0, task_entry := entry, task_arg := arg, space := sp,
            ticks_in_slice := 0, wait_channel := 0, wait_result := False\<rparr>) s1
      in count_event task_creations_update (scheduler_cpu_enqueue_runnable e c t REASON_RESCHEDULE s2))"

text \<open>The whole call, undisturbed by other CPUs between its sections: \<open>sp\<close> and \<open>stack\<close> are what
  \<open>paging_create_process_space_on_node\<close> and \<open>paging_alloc_pages_on_node\<close> return for the node, zero for failure.\<close>

definition scheduler_create_kernel_task_ex ::
  "cpu_env \<Rightarrow> scheduler_task_config \<Rightarrow> u32 \<Rightarrow> u32 \<Rightarrow> u32 \<Rightarrow> u32 \<Rightarrow> (u8 \<Rightarrow> u32) \<Rightarrow> (u8 \<Rightarrow> u32) \<Rightarrow> scheduler \<Rightarrow> bool \<times> scheduler" where
  "scheduler_create_kernel_task_ex e cfg name literal entry arg sp stack s =
     (if entry = 0 then (False, s)
      else case create_reserve e cfg s of
             (None, s1) \<Rightarrow> (False, s1)
           | (Some (eff, node, t), s1) \<Rightarrow>
               if sp node = 0 then (False, scheduler_release_task_slot t s1)
               else if stack node = 0 then (False, scheduler_release_task_slot t s1)
               else if configured_cpu_count s1 = 0 then (False, scheduler_release_task_slot t s1)
               else (True, create_commit e eff t name literal entry arg (sp node) (stack node) s1))"

definition scheduler_find_task_by_id :: "u32 \<Rightarrow> scheduler \<Rightarrow> nat option" where
  "scheduler_find_task_by_id i s =
     find (\<lambda>t. state (tasks s t) \<noteq> TASK_UNUSED \<and> task_id (tasks s t) = i) [0..<MAX_THREADS]"

definition scheduler_set_task_priority :: "cpu_env \<Rightarrow> u32 \<Rightarrow> u32 \<Rightarrow> scheduler \<Rightarrow> bool \<times> scheduler" where
  "scheduler_set_task_priority e i p s =
     (case scheduler_find_task_by_id i s of
        None \<Rightarrow> (False, s)
      | Some t \<Rightarrow>
          let safe = scheduler_priority_sanitize p
          in if priority (tasks s t) = safe then (True, s)
             else let s1 = (if state (tasks s t) = TASK_RUNNABLE \<and> list_kind (tasks s t) = TASK_LIST_RUNNABLE
                            then scheduler_remove_runnable t s else s);
                      s2 = upd_task t (\<lambda>x. x\<lparr>priority := safe\<rparr>) s1;
                      s3 = (if state (tasks s2 t) = TASK_RUNNABLE
                            then scheduler_enqueue_runnable e t REASON_RESCHEDULE s2 else s2);
                      s4 = (if state (tasks s3 t) = TASK_RUNNING then upd_task t (\<lambda>x. x\<lparr>ticks_in_slice := 0\<rparr>) s3 else s3)
                  in (True, count_event priority_updates_update s4))"

section \<open>Sleeping, waiting, exiting\<close>

text \<open>The critical sections of the blocking calls; the \<open>int 48\<close> that follows each is \<open>scheduler_on_yield\<close>. The
  current task is read before the lock is taken, on the CPU that takes it.\<close>

definition sleep_section :: "cpu_env \<Rightarrow> u32 \<Rightarrow> scheduler \<Rightarrow> scheduler" where
  "sleep_section e ticks s =
     (case scheduler_current_task e s of
        None \<Rightarrow> s
      | Some t \<Rightarrow>
          let s1 = count_event sleep_calls_update s;
              s2 = upd_task t (\<lambda>x. x\<lparr>wakeup_tick := system_ticks s1 + ticks, state := TASK_SLEEPING\<rparr>) s1
          in push_on Sleeping_List t TASK_LIST_SLEEPING s2)"

definition wait_section :: "cpu_env \<Rightarrow> u32 \<Rightarrow> u32 \<Rightarrow> scheduler \<Rightarrow> scheduler" where
  "wait_section e channel timeout s =
     (case scheduler_current_task e s of
        None \<Rightarrow> s
      | Some t \<Rightarrow>
          let s1 = count_event wait_calls_update s;
              s2 = upd_task t (\<lambda>x. x\<lparr>wait_channel := channel, wait_result := False,
                     wakeup_tick := (if timeout = WAIT_FOREVER then 0 else system_ticks s1 + timeout),
                     state := TASK_BLOCKED\<rparr>) s1
          in push_on Blocked_List t TASK_LIST_BLOCKED s2)"

definition exit_section :: "cpu_env \<Rightarrow> scheduler \<Rightarrow> scheduler option" where
  "exit_section e s =
     (case scheduler_current_task e s of
        None \<Rightarrow> None
      | Some t \<Rightarrow>
          Some (count_event task_exits_update
            (push_on Zombie_List t TASK_LIST_ZOMBIE (upd_task t (\<lambda>x. x\<lparr>state := TASK_ZOMBIE\<rparr>) s))))"

definition wake_waiter :: "cpu_env \<Rightarrow> nat \<Rightarrow> scheduler \<Rightarrow> scheduler" where
  "wake_waiter e t s =
     (let s1 = remove_from Blocked_List t s;
          s2 = upd_task t (\<lambda>x. x\<lparr>wait_channel := 0, wait_result := True, wakeup_tick := 0\<rparr>) s1;
          s3 = scheduler_enqueue_runnable e t REASON_WAKEUP s2
      in count_event wakeups_update s3)"

partial_function (option) wake_loop ::
  "cpu_env \<Rightarrow> u32 \<Rightarrow> u32 \<Rightarrow> nat option \<Rightarrow> u32 \<Rightarrow> scheduler \<Rightarrow> (u32 \<times> scheduler) option" where
  "wake_loop e channel limit task woke s =
     (case task of
        None \<Rightarrow> Some (woke, s)
      | Some t \<Rightarrow>
          if \<not> woke < limit then Some (woke, s)
          else let nxt = list_next (tasks s t)
               in if wait_channel (tasks s t) = channel
                  then wake_loop e channel limit nxt (woke + 1) (wake_waiter e t s)
                  else wake_loop e channel limit nxt woke s)"

definition scheduler_wake_channel :: "cpu_env \<Rightarrow> u32 \<Rightarrow> u32 \<Rightarrow> scheduler \<Rightarrow> (u32 \<times> scheduler) option" where
  "scheduler_wake_channel e channel max_count s =
     (if channel = 0 then Some (0, s)
      else wake_loop e channel (if max_count = 0 then UINT_MAX else max_count) (lhead (blocked_list s)) 0 s)"

text \<open>The critical section of one round of the loop of \<open>scheduler_join_task\<close>: the call returns, yields and
  tries again, or waits on the join channel for the given time and tries again.\<close>

datatype join_step = Join_Return bool | Join_Yield | Join_Wait u32

definition join_section ::
  "u32 \<Rightarrow> u32 \<Rightarrow> u32 \<Rightarrow> scheduler \<Rightarrow> join_step \<times> scheduler_reap_resources option \<times> scheduler" where
  "join_section i timeout start s =
     (case scheduler_find_task_by_id i s of
        None \<Rightarrow> (Join_Return False, None, s)
      | Some t \<Rightarrow>
          if state (tasks s t) = TASK_ZOMBIE then
            (case scheduler_detach_zombie_task_locked t s of
               (Some r, s1) \<Rightarrow> (Join_Return True, Some r, s1)
             | (None, s1) \<Rightarrow>
                 if timeout \<noteq> WAIT_FOREVER \<and> system_ticks s1 - start \<ge> timeout then (Join_Return False, None, s1)
                 else (Join_Yield, None, s1))
          else if timeout = WAIT_FOREVER then (Join_Wait WAIT_FOREVER, None, s)
          else if system_ticks s - start \<ge> timeout then (Join_Return False, None, s)
          else (Join_Wait (timeout - (system_ticks s - start)), None, s))"

partial_function (option) reap_scan ::
  "nat option \<Rightarrow> scheduler \<Rightarrow> (scheduler_reap_resources option \<times> scheduler) option" where
  "reap_scan task s =
     (case task of
        None \<Rightarrow> Some (None, s)
      | Some t \<Rightarrow>
          let nxt = list_next (tasks s t)
          in case scheduler_detach_zombie_task_locked t s of
               (Some r, s1) \<Rightarrow> Some (Some r, s1)
             | (None, s1) \<Rightarrow> reap_scan nxt s1)"

text \<open>The loop of \<open>scheduler_reap_zombies\<close>, with the resources it hands to
  \<open>scheduler_cleanup_reaped_resources\<close>, in order.\<close>

partial_function (option) reap_loop ::
  "u32 \<Rightarrow> u32 \<Rightarrow> scheduler_reap_resources list \<Rightarrow> scheduler \<Rightarrow> (u32 \<times> scheduler_reap_resources list \<times> scheduler) option" where
  "reap_loop limit reaped rs s =
     (if \<not> reaped < limit then Some (reaped, rs, s)
      else Option.bind (reap_scan (lhead (zombie_list s)) s) (\<lambda>(r, s1).
             case r of
               None \<Rightarrow> Some (reaped, rs, s1)
             | Some x \<Rightarrow> reap_loop limit (reaped + 1) (rs @ [x]) s1))"

definition scheduler_reap_zombies ::
  "u32 \<Rightarrow> scheduler \<Rightarrow> (u32 \<times> scheduler_reap_resources list \<times> scheduler) option" where
  "scheduler_reap_zombies max_count s = reap_loop (if max_count = 0 then UINT_MAX else max_count) 0 [] s"

text \<open>What \<open>scheduler_cleanup_reaped_resources\<close> asks of the page allocator.\<close>

datatype page_call = Free_Stack u32 | Destroy_Space u32

definition scheduler_cleanup_reaped_resources :: "u32 \<Rightarrow> scheduler_reap_resources \<Rightarrow> page_call list" where
  "scheduler_cleanup_reaped_resources kernel_space r =
     (if res_stack_base r \<noteq> 0 then [Free_Stack (res_stack_base r)] else []) @
     (if res_space r \<noteq> 0 \<and> res_space r \<noteq> kernel_space then [Destroy_Space (res_space r)] else [])"

section \<open>The blocking calls as a whole\<close>

text \<open>The calls when nothing else runs between their sections: the state at the point where the caller stops running,
  and how the CPU goes on; \<open>Inl\<close> is a return without blocking.\<close>

definition scheduler_sleep :: "cpu_env \<Rightarrow> u32 \<Rightarrow> u32 \<Rightarrow> scheduler \<Rightarrow> (unit + resume \<times> scheduler) option" where
  "scheduler_sleep e ticks fr s =
     (if ticks = 0 then map_option Inr (scheduler_on_yield e fr s)
      else if scheduler_current_task e s = None then Some (Inl ())
      else map_option Inr (scheduler_on_yield e fr (sleep_section e ticks s)))"

definition scheduler_wait_channel :: "cpu_env \<Rightarrow> u32 \<Rightarrow> u32 \<Rightarrow> u32 \<Rightarrow> scheduler \<Rightarrow> (bool + resume \<times> scheduler) option" where
  "scheduler_wait_channel e channel timeout fr s =
     (if channel = 0 \<or> timeout = 0 then Some (Inl False)
      else if scheduler_current_task e s = None then Some (Inl False)
      else map_option Inr (scheduler_on_yield e fr (wait_section e channel timeout s)))"

definition scheduler_current_task_id :: "cpu_env \<Rightarrow> scheduler \<Rightarrow> u32" where
  "scheduler_current_task_id e s = (case scheduler_current_task e s of None \<Rightarrow> 0 | Some t \<Rightarrow> task_id (tasks s t))"

text \<open>The start of \<open>scheduler_join_task\<close>: a refusal, or the start tick of the loop.\<close>

definition join_start :: "cpu_env \<Rightarrow> u32 \<Rightarrow> u32 \<Rightarrow> scheduler \<Rightarrow> u32 option" where
  "join_start e i timeout s =
     (if i = 0 \<or> timeout = 0 then None
      else if scheduler_current_task_id e s \<noteq> 0 \<and> i = scheduler_current_task_id e s then None
      else Some (system_ticks s))"

text \<open>\<open>join_channel\<close> is the address of \<open>scheduler_join_wait_channel_token\<close>.\<close>

definition scheduler_exit_current :: "cpu_env \<Rightarrow> u32 \<Rightarrow> u32 \<Rightarrow> scheduler \<Rightarrow> (resume \<times> scheduler) option" where
  "scheduler_exit_current e join_channel fr s =
     (case exit_section e s of
        None \<Rightarrow> None
      | Some s1 \<Rightarrow>
          (case scheduler_wake_channel e join_channel 0 s1 of
             None \<Rightarrow> None
           | Some (n, s2) \<Rightarrow> scheduler_on_yield e fr s2))"

definition scheduler_create_kernel_task ::
  "cpu_env \<Rightarrow> u32 \<Rightarrow> u32 \<Rightarrow> u32 \<Rightarrow> u32 \<Rightarrow> (u8 \<Rightarrow> u32) \<Rightarrow> (u8 \<Rightarrow> u32) \<Rightarrow> scheduler \<Rightarrow> bool \<times> scheduler" where
  "scheduler_create_kernel_task e = scheduler_create_kernel_task_ex e scheduler_task_config_default"

end
