(* ===== verification/Sched_Inv.thy ===== *)
theory Sched_Inv
  imports Sched_Ops
begin

text \<open>
  The invariant of the scheduler: the lists of the task table as lists of slots (\<open>contents\<close>), the agreement of
  states, lists and counters (\<open>sched_rep\<close>), and what moving one slot from list to list does to it.
\<close>

section \<open>What the list operations leave alone\<close>

lemma push_back_fields [simp]:
  "task_id (snd (task_list_push_back l t k h) x) = task_id (h x)"
  "task_name (snd (task_list_push_back l t k h) x) = task_name (h x)"
  "state (snd (task_list_push_back l t k h) x) = state (h x)"
  "priority (snd (task_list_push_back l t k h) x) = priority (h x)"
  "cpu_affinity_mask (snd (task_list_push_back l t k h) x) = cpu_affinity_mask (h x)"
  "preferred_numa_node (snd (task_list_push_back l t k h) x) = preferred_numa_node (h x)"
  "assigned_cpu (snd (task_list_push_back l t k h) x) = assigned_cpu (h x)"
  "assigned_numa_node (snd (task_list_push_back l t k h) x) = assigned_numa_node (h x)"
  "frame (snd (task_list_push_back l t k h) x) = frame (h x)"
  "stack_base (snd (task_list_push_back l t k h) x) = stack_base (h x)"
  "kernel_stack_top (snd (task_list_push_back l t k h) x) = kernel_stack_top (h x)"
  "wakeup_tick (snd (task_list_push_back l t k h) x) = wakeup_tick (h x)"
  "runnable_enqueue_tick (snd (task_list_push_back l t k h) x) = runnable_enqueue_tick (h x)"
  "task_entry (snd (task_list_push_back l t k h) x) = task_entry (h x)"
  "task_arg (snd (task_list_push_back l t k h) x) = task_arg (h x)"
  "space (snd (task_list_push_back l t k h) x) = space (h x)"
  "wait_channel (snd (task_list_push_back l t k h) x) = wait_channel (h x)"
  "wait_result (snd (task_list_push_back l t k h) x) = wait_result (h x)"
  "ticks_in_slice (snd (task_list_push_back l t k h) x) = ticks_in_slice (h x)"
  by (simp_all add: task_list_push_back_def upd_def Let_def split: option.splits)

lemma remove_fields [simp]:
  "task_id (snd (task_list_remove l t h) x) = task_id (h x)"
  "task_name (snd (task_list_remove l t h) x) = task_name (h x)"
  "state (snd (task_list_remove l t h) x) = state (h x)"
  "priority (snd (task_list_remove l t h) x) = priority (h x)"
  "cpu_affinity_mask (snd (task_list_remove l t h) x) = cpu_affinity_mask (h x)"
  "preferred_numa_node (snd (task_list_remove l t h) x) = preferred_numa_node (h x)"
  "assigned_cpu (snd (task_list_remove l t h) x) = assigned_cpu (h x)"
  "assigned_numa_node (snd (task_list_remove l t h) x) = assigned_numa_node (h x)"
  "frame (snd (task_list_remove l t h) x) = frame (h x)"
  "stack_base (snd (task_list_remove l t h) x) = stack_base (h x)"
  "kernel_stack_top (snd (task_list_remove l t h) x) = kernel_stack_top (h x)"
  "wakeup_tick (snd (task_list_remove l t h) x) = wakeup_tick (h x)"
  "runnable_enqueue_tick (snd (task_list_remove l t h) x) = runnable_enqueue_tick (h x)"
  "task_entry (snd (task_list_remove l t h) x) = task_entry (h x)"
  "task_arg (snd (task_list_remove l t h) x) = task_arg (h x)"
  "space (snd (task_list_remove l t h) x) = space (h x)"
  "wait_channel (snd (task_list_remove l t h) x) = wait_channel (h x)"
  "wait_result (snd (task_list_remove l t h) x) = wait_result (h x)"
  "ticks_in_slice (snd (task_list_remove l t h) x) = ticks_in_slice (h x)"
  by (simp_all add: task_list_remove_def upd_def Let_def split: option.splits)

lemma push_back_kind [simp]: "list_kind (snd (task_list_push_back l t k h) x) = (if x = t then k else list_kind (h x))"
  by (simp add: task_list_push_back_def upd_def Let_def split: option.splits)

lemma remove_kind [simp]:
  "list_kind (snd (task_list_remove l t h) x) = (if x = t then TASK_LIST_NONE else list_kind (h x))"
  by (simp add: task_list_remove_def upd_def Let_def split: option.splits)

lemma set_list_fields [simp]:
  "cpu_id (cpus (set_list i l s) c) = cpu_id (cpus s c)"
  "numa_node (cpus (set_list i l s) c) = numa_node (cpus s c)"
  "online (cpus (set_list i l s) c) = online (cpus s c)"
  "runnable_count (cpus (set_list i l s) c) = runnable_count (cpus s c)"
  "current (cpus (set_list i l s) c) = current (cpus s c)"
  "configured_cpu_count (set_list i l s) = configured_cpu_count s"
  "configured_node_count (set_list i l s) = configured_node_count s"
  "boot_cpu_id (set_list i l s) = boot_cpu_id s"
  "system_ticks (set_list i l s) = system_ticks s"
  "next_task_id (set_list i l s) = next_task_id s"
  "last_balance_tick (set_list i l s) = last_balance_tick s"
  "scheduler_bootstrapped (set_list i l s) = scheduler_bootstrapped s"
  "trace_counters (set_list i l s) = trace_counters s"
  "trace_latency (set_list i l s) = trace_latency s"
  "ipis (set_list i l s) = ipis s"
  "tasks (set_list i l s) = tasks s"
  by (cases i; simp add: upd_cpu_def)+

lemma push_on_alt: "push_on i t k s =
    set_list i (fst (task_list_push_back (get_list i s) t k (tasks s)))
      (s\<lparr>tasks := snd (task_list_push_back (get_list i s) t k (tasks s))\<rparr>)"
  by (simp add: push_on_def split: prod.splits)

lemma remove_from_alt: "remove_from i t s =
    set_list i (fst (task_list_remove (get_list i s) t (tasks s)))
      (s\<lparr>tasks := snd (task_list_remove (get_list i s) t (tasks s))\<rparr>)"
  by (simp add: remove_from_def split: prod.splits)

lemma push_on_fields [simp]:
  "task_id (tasks (push_on i t k s) x) = task_id (tasks s x)"
  "task_name (tasks (push_on i t k s) x) = task_name (tasks s x)"
  "state (tasks (push_on i t k s) x) = state (tasks s x)"
  "priority (tasks (push_on i t k s) x) = priority (tasks s x)"
  "cpu_affinity_mask (tasks (push_on i t k s) x) = cpu_affinity_mask (tasks s x)"
  "preferred_numa_node (tasks (push_on i t k s) x) = preferred_numa_node (tasks s x)"
  "assigned_cpu (tasks (push_on i t k s) x) = assigned_cpu (tasks s x)"
  "assigned_numa_node (tasks (push_on i t k s) x) = assigned_numa_node (tasks s x)"
  "frame (tasks (push_on i t k s) x) = frame (tasks s x)"
  "stack_base (tasks (push_on i t k s) x) = stack_base (tasks s x)"
  "kernel_stack_top (tasks (push_on i t k s) x) = kernel_stack_top (tasks s x)"
  "wakeup_tick (tasks (push_on i t k s) x) = wakeup_tick (tasks s x)"
  "runnable_enqueue_tick (tasks (push_on i t k s) x) = runnable_enqueue_tick (tasks s x)"
  "task_entry (tasks (push_on i t k s) x) = task_entry (tasks s x)"
  "task_arg (tasks (push_on i t k s) x) = task_arg (tasks s x)"
  "space (tasks (push_on i t k s) x) = space (tasks s x)"
  "wait_channel (tasks (push_on i t k s) x) = wait_channel (tasks s x)"
  "wait_result (tasks (push_on i t k s) x) = wait_result (tasks s x)"
  "ticks_in_slice (tasks (push_on i t k s) x) = ticks_in_slice (tasks s x)"
  "cpu_id (cpus (push_on i t k s) c) = cpu_id (cpus s c)"
  "numa_node (cpus (push_on i t k s) c) = numa_node (cpus s c)"
  "online (cpus (push_on i t k s) c) = online (cpus s c)"
  "runnable_count (cpus (push_on i t k s) c) = runnable_count (cpus s c)"
  "current (cpus (push_on i t k s) c) = current (cpus s c)"
  "configured_cpu_count (push_on i t k s) = configured_cpu_count s"
  "configured_node_count (push_on i t k s) = configured_node_count s"
  "boot_cpu_id (push_on i t k s) = boot_cpu_id s"
  "system_ticks (push_on i t k s) = system_ticks s"
  "next_task_id (push_on i t k s) = next_task_id s"
  "last_balance_tick (push_on i t k s) = last_balance_tick s"
  "scheduler_bootstrapped (push_on i t k s) = scheduler_bootstrapped s"
  "trace_counters (push_on i t k s) = trace_counters s"
  "trace_latency (push_on i t k s) = trace_latency s"
  "ipis (push_on i t k s) = ipis s"
  by (simp_all add: push_on_alt)

lemma remove_from_fields [simp]:
  "task_id (tasks (remove_from i t s) x) = task_id (tasks s x)"
  "task_name (tasks (remove_from i t s) x) = task_name (tasks s x)"
  "state (tasks (remove_from i t s) x) = state (tasks s x)"
  "priority (tasks (remove_from i t s) x) = priority (tasks s x)"
  "cpu_affinity_mask (tasks (remove_from i t s) x) = cpu_affinity_mask (tasks s x)"
  "preferred_numa_node (tasks (remove_from i t s) x) = preferred_numa_node (tasks s x)"
  "assigned_cpu (tasks (remove_from i t s) x) = assigned_cpu (tasks s x)"
  "assigned_numa_node (tasks (remove_from i t s) x) = assigned_numa_node (tasks s x)"
  "frame (tasks (remove_from i t s) x) = frame (tasks s x)"
  "stack_base (tasks (remove_from i t s) x) = stack_base (tasks s x)"
  "kernel_stack_top (tasks (remove_from i t s) x) = kernel_stack_top (tasks s x)"
  "wakeup_tick (tasks (remove_from i t s) x) = wakeup_tick (tasks s x)"
  "runnable_enqueue_tick (tasks (remove_from i t s) x) = runnable_enqueue_tick (tasks s x)"
  "task_entry (tasks (remove_from i t s) x) = task_entry (tasks s x)"
  "task_arg (tasks (remove_from i t s) x) = task_arg (tasks s x)"
  "space (tasks (remove_from i t s) x) = space (tasks s x)"
  "wait_channel (tasks (remove_from i t s) x) = wait_channel (tasks s x)"
  "wait_result (tasks (remove_from i t s) x) = wait_result (tasks s x)"
  "ticks_in_slice (tasks (remove_from i t s) x) = ticks_in_slice (tasks s x)"
  "cpu_id (cpus (remove_from i t s) c) = cpu_id (cpus s c)"
  "numa_node (cpus (remove_from i t s) c) = numa_node (cpus s c)"
  "online (cpus (remove_from i t s) c) = online (cpus s c)"
  "runnable_count (cpus (remove_from i t s) c) = runnable_count (cpus s c)"
  "current (cpus (remove_from i t s) c) = current (cpus s c)"
  "configured_cpu_count (remove_from i t s) = configured_cpu_count s"
  "configured_node_count (remove_from i t s) = configured_node_count s"
  "boot_cpu_id (remove_from i t s) = boot_cpu_id s"
  "system_ticks (remove_from i t s) = system_ticks s"
  "next_task_id (remove_from i t s) = next_task_id s"
  "last_balance_tick (remove_from i t s) = last_balance_tick s"
  "scheduler_bootstrapped (remove_from i t s) = scheduler_bootstrapped s"
  "trace_counters (remove_from i t s) = trace_counters s"
  "trace_latency (remove_from i t s) = trace_latency s"
  "ipis (remove_from i t s) = ipis s"
  by (simp_all add: remove_from_alt)

lemma push_on_kind [simp]: "list_kind (tasks (push_on i t k s) x) = (if x = t then k else list_kind (tasks s x))"
  by (simp add: push_on_alt)

lemma remove_from_kind [simp]:
  "list_kind (tasks (remove_from i t s) x) = (if x = t then TASK_LIST_NONE else list_kind (tasks s x))"
  by (simp add: remove_from_alt)

lemma upd_task_simps [simp]:
  "tasks (upd_task t g s) t = g (tasks s t)"
  "x \<noteq> t \<Longrightarrow> tasks (upd_task t g s) x = tasks s x"
  "get_list i (upd_task t g s) = get_list i s"
  "cpus (upd_task t g s) = cpus s"
  "configured_cpu_count (upd_task t g s) = configured_cpu_count s"
  "configured_node_count (upd_task t g s) = configured_node_count s"
  "boot_cpu_id (upd_task t g s) = boot_cpu_id s"
  "system_ticks (upd_task t g s) = system_ticks s"
  "next_task_id (upd_task t g s) = next_task_id s"
  "last_balance_tick (upd_task t g s) = last_balance_tick s"
  "scheduler_bootstrapped (upd_task t g s) = scheduler_bootstrapped s"
  "trace_counters (upd_task t g s) = trace_counters s"
  "trace_latency (upd_task t g s) = trace_latency s"
  "ipis (upd_task t g s) = ipis s"
  "free_list (upd_task t g s) = free_list s"
  "sleeping_list (upd_task t g s) = sleeping_list s"
  "blocked_list (upd_task t g s) = blocked_list s"
  "zombie_list (upd_task t g s) = zombie_list s"
  by (simp_all add: upd_task_def upd_def) (cases i; simp)

lemma upd_cpu_simps [simp]:
  "cpus (upd_cpu c g s) c = g (cpus s c)"
  "d \<noteq> c \<Longrightarrow> cpus (upd_cpu c g s) d = cpus s d"
  "tasks (upd_cpu c g s) = tasks s"
  "configured_cpu_count (upd_cpu c g s) = configured_cpu_count s"
  "configured_node_count (upd_cpu c g s) = configured_node_count s"
  "boot_cpu_id (upd_cpu c g s) = boot_cpu_id s"
  "system_ticks (upd_cpu c g s) = system_ticks s"
  "next_task_id (upd_cpu c g s) = next_task_id s"
  "last_balance_tick (upd_cpu c g s) = last_balance_tick s"
  "scheduler_bootstrapped (upd_cpu c g s) = scheduler_bootstrapped s"
  "trace_counters (upd_cpu c g s) = trace_counters s"
  "trace_latency (upd_cpu c g s) = trace_latency s"
  "ipis (upd_cpu c g s) = ipis s"
  "free_list (upd_cpu c g s) = free_list s"
  "sleeping_list (upd_cpu c g s) = sleeping_list s"
  "blocked_list (upd_cpu c g s) = blocked_list s"
  "zombie_list (upd_cpu c g s) = zombie_list s"
  by (simp_all add: upd_cpu_def)

lemma get_set_list [simp]: "get_list i (set_list i l s) = l"
  by (cases i) auto

lemma get_set_list_other [simp]: "j \<noteq> i \<Longrightarrow> get_list j (set_list i l s) = get_list j s"
  by (cases i; cases j) (auto simp: upd_cpu_def)

lemma get_list_tasks [simp]: "get_list i (s\<lparr>tasks := h\<rparr>) = get_list i s"
  by (cases i) auto

section \<open>The contents of the lists\<close>

text \<open>The list a task says it is on.\<close>

definition home :: "task \<Rightarrow> list_id option" where
  "home x = (case list_kind x of
     TASK_LIST_NONE \<Rightarrow> None
   | TASK_LIST_FREE \<Rightarrow> Some Free_List
   | TASK_LIST_RUNNABLE \<Rightarrow> Some (Runnable_List (unat (assigned_cpu x)) (unat (priority x)))
   | TASK_LIST_SLEEPING \<Rightarrow> Some Sleeping_List
   | TASK_LIST_BLOCKED \<Rightarrow> Some Blocked_List
   | TASK_LIST_ZOMBIE \<Rightarrow> Some Zombie_List)"

fun valid_id :: "list_id \<Rightarrow> bool" where
  "valid_id (Runnable_List c p) \<longleftrightarrow> c < MAX_CPUS \<and> p < 5"
| "valid_id _ = True"

definition members :: "list_id \<Rightarrow> scheduler \<Rightarrow> nat list" where
  "members i s = chain (tasks s) MAX_THREADS (lhead (get_list i s))"

text \<open>Each list links exactly the slots that name it as their list, in the order \<open>q\<close> gives.\<close>

definition contents :: "(list_id \<Rightarrow> nat list) \<Rightarrow> scheduler \<Rightarrow> bool" where
  "contents q s \<longleftrightarrow> (\<forall>i. valid_id i \<longrightarrow>
     linked (tasks s) (get_list i s) (q i) \<and> (\<forall>x. x \<in> set (q i) \<longleftrightarrow> x < MAX_THREADS \<and> home (tasks s x) = Some i))"

lemma contents_linked: "contents q s \<Longrightarrow> valid_id i \<Longrightarrow> linked (tasks s) (get_list i s) (q i)"
  and contents_mem: "contents q s \<Longrightarrow> valid_id i \<Longrightarrow> x \<in> set (q i) \<longleftrightarrow> x < MAX_THREADS \<and> home (tasks s x) = Some i"
  by (simp_all add: contents_def)

lemma contents_length:
  assumes "contents q s" "valid_id i"
  shows "length (q i) \<le> MAX_THREADS" "distinct (q i)"
proof -
  show "distinct (q i)" using contents_linked [OF assms] by (simp add: linked_def)
  moreover have "set (q i) \<subseteq> {..<MAX_THREADS}" using contents_mem [OF assms] by auto
  ultimately show "length (q i) \<le> MAX_THREADS"
    using card_mono [of "{..<MAX_THREADS}" "set (q i)"] by (simp add: distinct_card)
qed

lemma contents_members: "contents q s \<Longrightarrow> valid_id i \<Longrightarrow> members i s = q i"
  by (simp add: members_def chain_linked contents_linked contents_length)

text \<open>A list other than the one worked on is not touched.\<close>

lemma linked_other:
  assumes "linked h l xs" "\<And>x. x \<in> set xs \<Longrightarrow> h' x = h x"
  shows "linked h' l xs"
  using assms dseg_same [of xs h h'] by (auto simp: linked_def same_links_def)

lemma push_on_contents:
  assumes c: "contents q s" and v: "valid_id i" and t: "t < MAX_THREADS" "home (tasks s t) = None"
    and k: "home ((tasks s t)\<lparr>list_kind := k\<rparr>) = Some i"
  shows "contents (q(i := q i @ [t])) (push_on i t k s)"
proof -
  obtain l' h' where r: "task_list_push_back (get_list i s) t k (tasks s) = (l', h')" by fastforce
  have n: "t \<notin> set (q j)" if "valid_id j" for j using contents_mem [OF c that] t by simp
  note lk = contents_linked [OF c v]
  have len: "Suc (length (q i)) < 2 ^ 32" using contents_length(1) [OF c v] by simp
  have hm: "home (h' x) = (if x = t then Some i else home (tasks s x))" for x
  proof -
    have "h' = snd (task_list_push_back (get_list i s) t k (tasks s))" using r by simp
    then show ?thesis using k by (simp add: home_def cong: task_list_kind.case_cong)
  qed
  have "linked h' (get_list j (push_on i t k s)) ((q(i := q i @ [t])) j) \<and>
      (\<forall>x. x \<in> set ((q(i := q i @ [t])) j) \<longleftrightarrow> x < MAX_THREADS \<and> home (h' x) = Some j)" if j: "valid_id j" for j
  proof (cases "j = i")
    case True
    then show ?thesis
      using push_back_linked [OF lk n [OF v] len r] hm t contents_mem [OF c v] by (auto simp: push_on_def r)
  next
    case False
    have "h' x = tasks s x" if "x \<in> set (q j)" for x
      using push_back_frame(1) [OF lk n [OF v] r, of x] that n [OF j] False contents_mem [OF c v, of x] contents_mem [OF c j, of x] by auto
    with False show ?thesis
      using linked_other [OF contents_linked [OF c j]] hm t contents_mem [OF c j] by (auto simp: push_on_def r)
  qed
  then show ?thesis by (simp add: contents_def push_on_def r)
qed

lemma remove_from_contents:
  assumes c: "contents q s" and v: "valid_id i" and t: "t \<in> set (q i)"
  shows "contents (q(i := remove1 t (q i))) (remove_from i t s)"
proof -
  obtain l' h' where r: "task_list_remove (get_list i s) t (tasks s) = (l', h')" by fastforce
  obtain as bs where q: "q i = as @ t # bs" using t by (meson split_list)
  have d: "distinct (q i)" by (rule contents_length [OF c v])
  have rm: "remove1 t (q i) = as @ bs" using d q by (simp add: remove1_append)
  note lk = contents_linked [OF c v, unfolded q]
  have hm: "home (h' x) = (if x = t then None else home (tasks s x))" for x
  proof -
    have "h' = snd (task_list_remove (get_list i s) t (tasks s))" using r by simp
    then show ?thesis by (simp add: home_def cong: task_list_kind.case_cong)
  qed
  have set: "set (remove1 t (q i)) = set (q i) - {t}" by (rule set_remove1_eq [OF d])
  have "linked h' (get_list j (remove_from i t s)) ((q(i := remove1 t (q i))) j) \<and>
      (\<forall>x. x \<in> set ((q(i := remove1 t (q i))) j) \<longleftrightarrow> x < MAX_THREADS \<and> home (h' x) = Some j)" if j: "valid_id j" for j
  proof (cases "j = i")
    case True
    then show ?thesis using remove_linked [OF lk r] rm hm set contents_mem [OF c v] by (auto simp: remove_from_def r)
  next
    case False
    have "h' x = tasks s x" if "x \<in> set (q j)" for x
      using remove_frame(1) [OF lk r, of x] that False contents_mem [OF c v, of x, unfolded q] contents_mem [OF c j, of x] by auto
    with False show ?thesis using linked_other [OF contents_linked [OF c j]] hm t contents_mem [OF c j] contents_mem [OF c v]
      by (auto simp: remove_from_def r)
  qed
  then show ?thesis by (simp add: contents_def remove_from_def r)
qed

text \<open>The first element, and popping it.\<close>

lemma contents_head: "contents q s \<Longrightarrow> valid_id i \<Longrightarrow> lhead (get_list i s) = hd_opt (q i)"
  and contents_count: "contents q s \<Longrightarrow> valid_id i \<Longrightarrow> lcount (get_list i s) = of_nat (length (q i))"
  using contents_linked by (auto simp: linked_def)

lemma contents_next:
  assumes "contents q s" "valid_id i" "q i = as @ t # bs"
  shows "list_next (tasks s t) = hd_opt bs"
  using contents_linked [OF assms(1,2)] dseg_split(2) assms(3) by (auto simp: linked_def)

lemma set_get_list [simp]: "set_list i (get_list i s) s = s"
  by (cases i) (simp_all add: upd_cpu_def)

lemma pop_from_contents:
  assumes "contents q s" "valid_id i"
  shows "q i = [] \<Longrightarrow> pop_from i s = (None, s)"
    and "q i = t # ts \<Longrightarrow> pop_from i s = (Some t, remove_from i t s)"
proof -
  have h: "lhead (get_list i s) = hd_opt (q i)" by (rule contents_head [OF assms])
  show "pop_from i s = (None, s)" if "q i = []"
    using h that by (simp add: pop_from_def task_list_pop_front_def)
  show "pop_from i s = (Some t, remove_from i t s)" if "q i = t # ts"
    using h that by (simp add: pop_from_def remove_from_alt task_list_pop_front_def split: prod.split)
qed

text \<open>Changes that do not concern the lists.\<close>

lemma contents_cong:
  assumes "contents q s" "\<And>i. valid_id i \<Longrightarrow> get_list i s' = get_list i s"
    and "\<And>x. list_prev (tasks s' x) = list_prev (tasks s x)" "\<And>x. list_next (tasks s' x) = list_next (tasks s x)"
    and "\<And>x. home (tasks s' x) = home (tasks s x)"
  shows "contents q s'"
proof -
  have "linked (tasks s') l xs = linked (tasks s) l xs" for l xs
    using dseg_same [of xs "tasks s" "tasks s'"] assms(3,4) by (simp add: linked_def same_links_def)
  then show ?thesis using assms(1,2,5) by (simp add: contents_def)
qed

lemma contents_free_slot:
  assumes "contents q s" "home (tasks s t) = None" "home (g (tasks s t)) = None"
  shows "contents q (upd_task t g s)"
proof -
  have "linked (tasks (upd_task t g s)) (get_list i s) (q i)" if "valid_id i" for i
    using linked_other [OF contents_linked [OF assms(1) that], of "tasks (upd_task t g s)"]
      contents_mem [OF assms(1) that, of t] assms(2) by (metis option.distinct(1) upd_task_simps(2))
  moreover have "home (tasks (upd_task t g s) x) = home (tasks s x)" for x using assms(2,3) by (cases "x = t") auto
  ultimately show ?thesis using assms(1) by (simp add: contents_def)
qed

section \<open>The invariant\<close>

declare task_list_kind.case_cong [cong]

definition kind_ok :: "task \<Rightarrow> bool" where
  "kind_ok x = (case list_kind x of
     TASK_LIST_NONE \<Rightarrow> state x = TASK_RUNNING \<or> state x = TASK_UNUSED
   | TASK_LIST_FREE \<Rightarrow> state x = TASK_UNUSED
   | TASK_LIST_RUNNABLE \<Rightarrow> state x = TASK_RUNNABLE
   | TASK_LIST_SLEEPING \<Rightarrow> state x = TASK_SLEEPING
   | TASK_LIST_BLOCKED \<Rightarrow> state x = TASK_BLOCKED
   | TASK_LIST_ZOMBIE \<Rightarrow> state x = TASK_ZOMBIE)"

definition cpus_ok :: "scheduler \<Rightarrow> bool" where
  "cpus_ok s \<longleftrightarrow>
     configured_cpu_count s \<le> 8 \<and> boot_cpu_id s < configured_cpu_count s \<and> online (cpus s (unat (boot_cpu_id s))) \<and>
     (\<forall>c<MAX_CPUS. cpu_id (cpus s c) = of_nat c \<and> (online (cpus s c) \<longrightarrow> c < unat (configured_cpu_count s)))"

text \<open>A task that says it is queued names an online CPU and a priority level.\<close>

definition placed :: "scheduler \<Rightarrow> nat \<Rightarrow> bool" where
  "placed s t \<longleftrightarrow> (list_kind (tasks s t) = TASK_LIST_RUNNABLE \<longrightarrow>
     priority (tasks s t) < 5 \<and> unat (assigned_cpu (tasks s t)) < MAX_CPUS \<and>
     online (cpus s (unat (assigned_cpu (tasks s t)))))"

definition queued :: "(list_id \<Rightarrow> nat list) \<Rightarrow> nat \<Rightarrow> nat" where
  "queued q c = (\<Sum>p<5. length (q (Runnable_List c p)))"

definition currents_ok :: "scheduler \<Rightarrow> bool" where
  "currents_ok s \<longleftrightarrow> (\<forall>c<MAX_CPUS. \<forall>t. current (cpus s c) = Some t \<longrightarrow>
     t < MAX_THREADS \<and> state (tasks s t) \<noteq> TASK_UNUSED \<and> online (cpus s c))"

text \<open>The lists hold what \<open>q\<close> says, states and lists agree, the counters are exact, and a running task is the
  current one of some CPU. The slots of \<open>T\<close> are between lists: on none, and in any state.\<close>

definition sched_rep :: "nat set \<Rightarrow> (list_id \<Rightarrow> nat list) \<Rightarrow> scheduler \<Rightarrow> bool" where
  "sched_rep T q s \<longleftrightarrow>
     contents q s \<and> cpus_ok s \<and> currents_ok s \<and>
     (\<forall>t\<in>T. t < MAX_THREADS \<and> list_kind (tasks s t) = TASK_LIST_NONE) \<and>
     (\<forall>t<MAX_THREADS. t \<notin> T \<longrightarrow> kind_ok (tasks s t)) \<and>
     (\<forall>t<MAX_THREADS. placed s t) \<and>
     (\<forall>c<MAX_CPUS. runnable_count (cpus s c) = of_nat (queued q c)) \<and>
     (\<forall>t<MAX_THREADS. t \<notin> T \<longrightarrow> state (tasks s t) = TASK_RUNNING \<longrightarrow> (\<exists>c<MAX_CPUS. current (cpus s c) = Some t))"

definition sched_inv :: "scheduler \<Rightarrow> bool" where
  "sched_inv s \<longleftrightarrow> sched_rep {} (\<lambda>i. members i s) s"

lemma sched_repD:
  assumes "sched_rep T q s"
  shows "contents q s" "cpus_ok s" "currents_ok s"
    and "t \<in> T \<Longrightarrow> t < MAX_THREADS" "t \<in> T \<Longrightarrow> list_kind (tasks s t) = TASK_LIST_NONE"
    and "t < MAX_THREADS \<Longrightarrow> t \<notin> T \<Longrightarrow> kind_ok (tasks s t)"
    and "t < MAX_THREADS \<Longrightarrow> placed s t"
    and "c < MAX_CPUS \<Longrightarrow> runnable_count (cpus s c) = of_nat (queued q c)"
    and "t < MAX_THREADS \<Longrightarrow> t \<notin> T \<Longrightarrow> state (tasks s t) = TASK_RUNNING \<Longrightarrow> \<exists>c<MAX_CPUS. current (cpus s c) = Some t"
  using assms by (auto simp: sched_rep_def)

lemma contents_ext: "contents q s \<Longrightarrow> (\<And>i. valid_id i \<Longrightarrow> q' i = q i) \<Longrightarrow> contents q' s"
  by (simp add: contents_def)

lemma sched_rep_inv: "sched_rep {} q s \<Longrightarrow> sched_inv s"
proof -
  assume r: "sched_rep {} q s"
  have m: "valid_id i \<Longrightarrow> members i s = q i" for i using contents_members [OF sched_repD(1) [OF r]] .
  then have "queued (\<lambda>i. members i s) c = queued q c" if "c < MAX_CPUS" for c using that by (simp add: queued_def)
  moreover have "contents (\<lambda>i. members i s) s" using contents_ext [OF sched_repD(1) [OF r]] m by simp
  ultimately show ?thesis using r by (simp add: sched_inv_def sched_rep_def)
qed

lemma sched_rep_members: "sched_rep T q s \<Longrightarrow> valid_id i \<Longrightarrow> members i s = q i"
  by (rule contents_members [OF sched_repD(1)])

lemma cpus_okD:
  assumes "cpus_ok s"
  shows "unat (configured_cpu_count s) \<le> MAX_CPUS" "unat (boot_cpu_id s) < MAX_CPUS" "configured_cpu_count s \<noteq> 0"
    "online (cpus s (unat (boot_cpu_id s)))"
    "c < MAX_CPUS \<Longrightarrow> cpu_id (cpus s c) = of_nat c" "c < MAX_CPUS \<Longrightarrow> unat (cpu_id (cpus s c)) = c"
    "c < MAX_CPUS \<Longrightarrow> online (cpus s c) \<Longrightarrow> c < unat (configured_cpu_count s)"
  using assms by (auto simp: cpus_ok_def word_less_nat_alt word_le_nat_alt unat_of_nat)

section \<open>Changes outside the lists\<close>

lemma get_list_globals [simp]:
  "get_list i (s\<lparr>configured_cpu_count := n\<rparr>) = get_list i s" "get_list i (s\<lparr>configured_node_count := n\<rparr>) = get_list i s"
  "get_list i (s\<lparr>boot_cpu_id := b\<rparr>) = get_list i s" "get_list i (s\<lparr>system_ticks := k\<rparr>) = get_list i s"
  "get_list i (s\<lparr>next_task_id := k\<rparr>) = get_list i s" "get_list i (s\<lparr>last_balance_tick := k\<rparr>) = get_list i s"
  "get_list i (s\<lparr>scheduler_bootstrapped := v\<rparr>) = get_list i s" "get_list i (trace_counters_update f s) = get_list i s"
  "get_list i (trace_latency_update g s) = get_list i s" "get_list i (s\<lparr>ipis := z\<rparr>) = get_list i s"
  by (cases i; simp)+

text \<open>Two states that agree on what the invariant reads.\<close>

definition same_rep :: "scheduler \<Rightarrow> scheduler \<Rightarrow> bool" where
  "same_rep s s' \<longleftrightarrow> (\<forall>i. get_list i s' = get_list i s) \<and> cpus s' = cpus s \<and>
     configured_cpu_count s' = configured_cpu_count s \<and> boot_cpu_id s' = boot_cpu_id s \<and>
     (\<forall>x. list_prev (tasks s' x) = list_prev (tasks s x) \<and> list_next (tasks s' x) = list_next (tasks s x) \<and>
        list_kind (tasks s' x) = list_kind (tasks s x) \<and> state (tasks s' x) = state (tasks s x) \<and>
        priority (tasks s' x) = priority (tasks s x) \<and> assigned_cpu (tasks s' x) = assigned_cpu (tasks s x))"

lemma sched_rep_same:
  assumes "sched_rep T q s" "same_rep s s'"
  shows "sched_rep T q s'"
proof -
  have e: "home (tasks s' x) = home (tasks s x)" "kind_ok (tasks s' x) = kind_ok (tasks s x)" "placed s' x = placed s x"
    "state (tasks s' x) = state (tasks s x)" "list_kind (tasks s' x) = list_kind (tasks s x)" for x
    using assms(2) by (auto simp: same_rep_def home_def kind_ok_def placed_def)
  have "contents q s'"
    by (rule contents_cong [OF sched_repD(1) [OF assms(1)]]) (use assms(2) e(1) in \<open>simp_all add: same_rep_def\<close>)
  moreover have "cpus_ok s'" "currents_ok s'"
    using sched_repD(2,3) [OF assms(1)] assms(2) by (simp_all add: cpus_ok_def currents_ok_def same_rep_def)
  ultimately show ?thesis using assms e by (simp add: sched_rep_def same_rep_def)
qed

lemma same_rep_globals [simp]:
  "same_rep s (s\<lparr>system_ticks := k\<rparr>)" "same_rep s (s\<lparr>next_task_id := k\<rparr>)" "same_rep s (s\<lparr>last_balance_tick := k\<rparr>)"
  "same_rep s (s\<lparr>scheduler_bootstrapped := v\<rparr>)" "same_rep s (trace_counters_update f s)"
  "same_rep s (trace_latency_update g s)" "same_rep s (s\<lparr>ipis := z\<rparr>)"
  by (simp_all add: same_rep_def)

lemma same_rep_refl [simp]: "same_rep s s"
  by (simp add: same_rep_def)

lemma same_rep_trans: "same_rep s s1 \<Longrightarrow> same_rep s1 s2 \<Longrightarrow> same_rep s s2"
  by (simp add: same_rep_def)

lemma same_rep_upd_task:
  assumes "state (g (tasks s t)) = state (tasks s t)" "list_kind (g (tasks s t)) = list_kind (tasks s t)"
    "list_prev (g (tasks s t)) = list_prev (tasks s t)" "list_next (g (tasks s t)) = list_next (tasks s t)"
    "priority (g (tasks s t)) = priority (tasks s t)" "assigned_cpu (g (tasks s t)) = assigned_cpu (tasks s t)"
  shows "same_rep s (upd_task t g s)"
proof -
  have "list_prev (tasks (upd_task t g s) x) = list_prev (tasks s x) \<and> list_next (tasks (upd_task t g s) x) = list_next (tasks s x) \<and>
      list_kind (tasks (upd_task t g s) x) = list_kind (tasks s x) \<and> state (tasks (upd_task t g s) x) = state (tasks s x) \<and>
      priority (tasks (upd_task t g s) x) = priority (tasks s x) \<and>
      assigned_cpu (tasks (upd_task t g s) x) = assigned_cpu (tasks s x)" for x
    using assms by (cases "x = t") simp_all
  then show ?thesis by (simp add: same_rep_def)
qed

section \<open>A slot between lists\<close>

lemma rep_take:
  assumes "sched_rep {} q s" "t < MAX_THREADS" "list_kind (tasks s t) = TASK_LIST_NONE"
  shows "sched_rep {t} q s"
  using assms by (auto simp: sched_rep_def)

lemma rep_drop:
  assumes "sched_rep {t} q s" "kind_ok (tasks s t)"
    "state (tasks s t) = TASK_RUNNING \<Longrightarrow> \<exists>c<MAX_CPUS. current (cpus s c) = Some t"
  shows "sched_rep {} q s"
proof -
  have "kind_ok (tasks s x)" if "x < MAX_THREADS" for x
    using sched_repD(6) [OF assms(1) that] assms(2) by (cases "x = t") auto
  moreover have "\<exists>c<MAX_CPUS. current (cpus s c) = Some x" if "x < MAX_THREADS" "state (tasks s x) = TASK_RUNNING" for x
    using sched_repD(9) [OF assms(1) that(1) _ that(2)] assms(3) that(2) by (cases "x = t") auto
  ultimately show ?thesis using assms(1) by (simp add: sched_rep_def)
qed

lemma rep_change:
  assumes r: "sched_rep {t} q s" and k: "list_kind (g (tasks s t)) = TASK_LIST_NONE"
    and u: "state (g (tasks s t)) = TASK_UNUSED \<Longrightarrow> \<forall>c<MAX_CPUS. current (cpus s c) \<noteq> Some t"
  shows "sched_rep {t} q (upd_task t g s)"
proof -
  let ?s = "upd_task t g s"
  have x: "tasks ?s x = tasks s x" if "x \<noteq> t" for x using that by simp
  have n: "list_kind (tasks s t) = TASK_LIST_NONE" "t < MAX_THREADS" using sched_repD(4,5) [OF r, of t] by auto
  have "contents q ?s" using contents_free_slot [OF sched_repD(1) [OF r]] n k by (simp add: home_def)
  moreover have "cpus_ok ?s" using sched_repD(2) [OF r] by (simp add: cpus_ok_def)
  moreover have "currents_ok ?s" using sched_repD(3) [OF r] u x unfolding currents_ok_def
    by (metis upd_task_simps(1,4))
  moreover have "placed ?s y" if "y < MAX_THREADS" for y
    using sched_repD(7) [OF r that] k by (cases "y = t") (simp_all add: placed_def)
  moreover have "kind_ok (tasks ?s y)" if "y < MAX_THREADS" "y \<notin> {t}" for y
    using sched_repD(6) [OF r that] that(2) by simp
  moreover have "\<exists>c<MAX_CPUS. current (cpus ?s c) = Some y"
    if "y < MAX_THREADS" "y \<notin> {t}" "state (tasks ?s y) = TASK_RUNNING" for y
    using sched_repD(9) [OF r that(1,2)] that(2,3) by simp
  moreover have "\<forall>c<MAX_CPUS. runnable_count (cpus ?s c) = of_nat (queued q c)" using sched_repD(8) [OF r] by simp
  ultimately show ?thesis unfolding sched_rep_def using n k by simp
qed

text \<open>The lists that are not run queues.\<close>

definition plain :: "list_id \<Rightarrow> bool" where
  "plain i = (case i of Runnable_List c p \<Rightarrow> False | _ \<Rightarrow> True)"

lemma plain_valid [simp]: "plain i \<Longrightarrow> valid_id i"
  by (cases i) (auto simp: plain_def)

lemma queued_plain [simp]: "plain i \<Longrightarrow> queued (q(i := xs)) = queued q"
  by (auto simp: queued_def plain_def split: list_id.splits)

lemma home_plain: "home x = Some i \<Longrightarrow> plain i \<Longrightarrow> list_kind x \<noteq> TASK_LIST_RUNNABLE"
  by (auto simp: home_def plain_def)

lemma placed_push: "placed (push_on i t k s) x \<longleftrightarrow> (if x = t then k = TASK_LIST_RUNNABLE \<longrightarrow>
    priority (tasks s t) < 5 \<and> unat (assigned_cpu (tasks s t)) < MAX_CPUS \<and> online (cpus s (unat (assigned_cpu (tasks s t))))
    else placed s x)"
  by (simp add: placed_def)

lemma kind_ok_cong: "list_kind x = list_kind y \<Longrightarrow> state x = state y \<Longrightarrow> kind_ok x = kind_ok y"
  by (simp add: kind_ok_def)

lemma home_none_iff: "home x = None \<longleftrightarrow> list_kind x = TASK_LIST_NONE"
  by (simp add: home_def split: task_list_kind.splits)

lemma push_on_ok [simp]:
  "cpus_ok (push_on i t k s) = cpus_ok s" "currents_ok (push_on i t k s) = currents_ok s"
  "cpus_ok (remove_from i t s) = cpus_ok s" "currents_ok (remove_from i t s) = currents_ok s"
  by (simp_all add: cpus_ok_def currents_ok_def)

lemma rep_push:
  assumes r: "sched_rep {t} q s" and i: "plain i" "home ((tasks s t)\<lparr>list_kind := k\<rparr>) = Some i"
    and k: "kind_ok ((tasks s t)\<lparr>list_kind := k\<rparr>)"
  shows "sched_rep {} (q(i := q i @ [t])) (push_on i t k s)"
proof -
  have n: "list_kind (tasks s t) = TASK_LIST_NONE" "t < MAX_THREADS" using sched_repD(4,5) [OF r, of t] by auto
  have kr: "k \<noteq> TASK_LIST_RUNNABLE" "k \<noteq> TASK_LIST_NONE" using i by (auto simp: home_def plain_def)
  have c: "contents (q(i := q i @ [t])) (push_on i t k s)"
    by (rule push_on_contents [OF sched_repD(1) [OF r]]) (use i n in \<open>simp_all add: home_none_iff\<close>)
  have ko: "kind_ok (tasks (push_on i t k s) x)" if "x < MAX_THREADS" for x
    using k sched_repD(6) [OF r that] by (cases "x = t") (simp_all add: kind_ok_def)
  have rn: "\<exists>c<MAX_CPUS. current (cpus s c) = Some x" if "x < MAX_THREADS" "state (tasks s x) = TASK_RUNNING" for x
    using sched_repD(9) [OF r that(1) _ that(2)] k kr that by (cases "x = t") (auto simp: kind_ok_def split: task_list_kind.splits)
  show ?thesis using r c ko rn kr i(1) by (simp add: sched_rep_def placed_push)
qed

lemma rep_remove:
  assumes r: "sched_rep {} q s" and i: "plain i" "t \<in> set (q i)"
  shows "sched_rep {t} (q(i := remove1 t (q i))) (remove_from i t s)"
proof -
  have t: "t < MAX_THREADS" using contents_mem [OF sched_repD(1) [OF r]] i by simp
  have c: "contents (q(i := remove1 t (q i))) (remove_from i t s)"
    by (rule remove_from_contents [OF sched_repD(1) [OF r] plain_valid [OF i(1)] i(2)])
  have "placed (remove_from i t s) x \<and> (x \<noteq> t \<longrightarrow> kind_ok (tasks (remove_from i t s) x))" if "x < MAX_THREADS" for x
    using sched_repD(6,7) [OF r that] by (auto simp: kind_ok_def placed_def)
  then show ?thesis using r c t i(1) by (simp add: sched_rep_def)
qed

section \<open>Run queues\<close>

lemma queued_upd: "p < 5 \<Longrightarrow> queued (q(Runnable_List c p := xs)) d =
    (if d = c then queued q c - length (q (Runnable_List c p)) + length xs else queued q d)"
proof -
  assume p: "p < 5"
  have s: "{..<5::nat} = insert p ({..<5} - {p})" using p by auto
  have *: "(\<Sum>x<5. f x) = f p + (\<Sum>x\<in>{..<5} - {p}. f x)" for f :: "nat \<Rightarrow> nat"
    using p by (simp add: sum.remove)
  have "(\<Sum>x\<in>{..<5} - {p}. length ((q(Runnable_List c p := xs)) (Runnable_List c x))) =
      (\<Sum>x\<in>{..<5} - {p}. length (q (Runnable_List c x)))" by (intro sum.cong) auto
  then show ?thesis using * [of "\<lambda>x. length (q (Runnable_List c x))"]
      * [of "\<lambda>x. length ((q(Runnable_List c p := xs)) (Runnable_List c x))"]
    by (cases "d = c") (simp_all add: queued_def)
qed

lemma queued_ge: "p < 5 \<Longrightarrow> length (q (Runnable_List c p)) \<le> queued q c"
  unfolding queued_def by (rule member_le_sum) auto

lemma sanitize_less [simp]: "scheduler_priority_sanitize p < 5"
  by (simp add: scheduler_priority_sanitize_def not_le)

lemma unat_sanitize [simp]: "unat (scheduler_priority_sanitize p) < 5"
  using sanitize_less [of p] by (simp add: word_less_nat_alt)

lemma sanitize_id: "p < 5 \<Longrightarrow> scheduler_priority_sanitize p = p"
  by (simp add: scheduler_priority_sanitize_def not_le [symmetric])

lemma upd_cpu_count_fields [simp]:
  assumes "\<And>x. runnable (g x) = runnable x" "\<And>x. online (g x) = online x" "\<And>x. cpu_id (g x) = cpu_id x"
    "\<And>x. current (g x) = current x"
  shows "get_list i (upd_cpu c g s) = get_list i s" "online (cpus (upd_cpu c g s) d) = online (cpus s d)"
    "cpu_id (cpus (upd_cpu c g s) d) = cpu_id (cpus s d)" "current (cpus (upd_cpu c g s) d) = current (cpus s d)"
  using assms by (cases i; simp add: upd_cpu_def)+

lemma rep_recount:
  assumes "contents q s" "cpus_ok s" "currents_ok s"
    and g: "\<And>x. runnable (g x) = runnable x" "\<And>x. online (g x) = online x" "\<And>x. cpu_id (g x) = cpu_id x"
    "\<And>x. current (g x) = current x"
  shows "contents q (upd_cpu c g s)" "cpus_ok (upd_cpu c g s)" "currents_ok (upd_cpu c g s)"
    "placed (upd_cpu c g s) t = placed s t"
proof -
  note f = upd_cpu_count_fields [of g, OF g]
  show "contents q (upd_cpu c g s)" by (rule contents_cong [OF assms(1)]) (simp_all add: f)
  show "cpus_ok (upd_cpu c g s)" "currents_ok (upd_cpu c g s)" using assms(2,3) by (simp_all add: cpus_ok_def currents_ok_def f)
  show "placed (upd_cpu c g s) t = placed s t" by (simp add: placed_def f)
qed

end
