(* ===== verification/Sched_Queues.thy ===== *)
theory Sched_Queues
  imports Sched_Inv
begin

text \<open>
  Run queues and dispatch: enqueueing, dequeueing, the switch to the next task, and the operations that wake one
  task, each as an operation on the queues.
\<close>

section \<open>Entering and leaving a run queue\<close>

lemma enqueue_local_rep:
  assumes r: "sched_rep {t} q s" and c: "c < MAX_CPUS" "online (cpus s c)"
    and i: "i = Runnable_List c (unat (scheduler_priority_sanitize (priority (tasks s t))))"
  shows "sched_rep {} (q(i := q i @ [t])) (scheduler_cpu_enqueue_runnable_local c t s)"
proof -
  define g where "g = (\<lambda>x. x\<lparr>priority := scheduler_priority_sanitize (priority (tasks s t)), assigned_cpu := cpu_id (cpus s c),
    assigned_numa_node := numa_node (cpus s c), state := TASK_RUNNABLE, ticks_in_slice := 0,
    runnable_enqueue_tick := system_ticks s\<rparr> :: task)"
  define h where "h = (\<lambda>x. x\<lparr>runnable_count := runnable_count x + 1\<rparr> :: scheduler_cpu_state)"
  let ?s1 = "upd_task t g s" let ?s2 = "push_on i t TASK_LIST_RUNNABLE ?s1"
  have e: "scheduler_cpu_enqueue_runnable_local c t s = upd_cpu c h ?s2"
    by (simp add: scheduler_cpu_enqueue_runnable_local_def Let_def g_def h_def i)
  have n: "list_kind (tasks s t) = TASK_LIST_NONE" "t < MAX_THREADS" using sched_repD(4,5) [OF r, of t] by auto
  have r1: "sched_rep {t} q ?s1" by (rule rep_change [OF r]) (simp_all add: g_def n)
  have id: "unat (cpu_id (cpus s c)) = c" using cpus_okD(6) [OF sched_repD(2) [OF r] c(1)] .
  have v: "valid_id i" using c by (simp add: i)
  have "contents (q(i := q i @ [t])) ?s2"
    by (rule push_on_contents [OF sched_repD(1) [OF r1] v n(2)]) (simp_all add: home_def g_def n id i)
  moreover have "cpus_ok ?s2" "currents_ok ?s2" using sched_repD(2,3) [OF r1] by simp_all
  ultimately have rc: "contents (q(i := q i @ [t])) (upd_cpu c h ?s2)" "cpus_ok (upd_cpu c h ?s2)" "currents_ok (upd_cpu c h ?s2)"
    and pl: "placed (upd_cpu c h ?s2) x = placed ?s2 x" for x
    using rep_recount [of "q(i := q i @ [t])" ?s2 h c] by (simp_all add: h_def)
  have f: "current (cpus (upd_cpu c h ?s2) d) = current (cpus s d)" for d by (cases "d = c") (simp_all add: h_def)
  have x: "kind_ok (tasks (upd_cpu c h ?s2) x)" "placed ?s2 x" if "x < MAX_THREADS" for x
    using sched_repD(6,7) [OF r1 that] c id by (auto simp: kind_ok_def g_def placed_def)
  have run: "\<exists>d<MAX_CPUS. current (cpus (upd_cpu c h ?s2) d) = Some x"
    if "x < MAX_THREADS" "state (tasks ?s2 x) = TASK_RUNNING" for x
    using sched_repD(9) [OF r that(1)] that(2) f by (cases "x = t") (auto simp: g_def)
  have "runnable_count (cpus (upd_cpu c h ?s2) d) = of_nat (queued (q(i := q i @ [t])) d)" if "d < MAX_CPUS" for d
    using sched_repD(8) [OF r that] queued_ge [of _ q c] by (cases "d = c") (simp_all add: queued_upd i h_def)
  then show ?thesis using rc pl x run by (simp add: sched_rep_def e)
qed

lemma dequeue_rep:
  assumes r: "sched_rep {} q s" and c: "c < MAX_CPUS" "p < 5" and t: "t \<in> set (q (Runnable_List c p))"
  shows "sched_rep {t} (q(Runnable_List c p := remove1 t (q (Runnable_List c p))))
           (decrement_runnable c (remove_from (Runnable_List c p) t s))"
proof -
  let ?i = "Runnable_List c p" let ?q = "q(?i := remove1 t (q ?i))"
  define h where "h = (\<lambda>x. if runnable_count x > 0 then x\<lparr>runnable_count := runnable_count x - 1\<rparr> else x :: scheduler_cpu_state)"
  let ?s1 = "remove_from ?i t s"
  have v: "valid_id ?i" using c by simp
  have e: "decrement_runnable c ?s1 = upd_cpu c h ?s1" by (simp add: decrement_runnable_def h_def)
  have tm: "t < MAX_THREADS" using contents_mem [OF sched_repD(1) [OF r] v] t by simp
  have ct: "contents ?q ?s1" by (rule remove_from_contents [OF sched_repD(1) [OF r] v t])
  have ok: "cpus_ok ?s1" "currents_ok ?s1" using sched_repD(2,3) [OF r] by simp_all
  have rc: "contents ?q (upd_cpu c h ?s1)" "cpus_ok (upd_cpu c h ?s1)" "currents_ok (upd_cpu c h ?s1)"
    and pl: "placed (upd_cpu c h ?s1) x = placed ?s1 x" for x
    using rep_recount [OF ct ok, of h c] by (simp_all add: h_def)
  have f: "current (cpus (upd_cpu c h ?s1) d) = current (cpus s d)" for d by (cases "d = c") (simp_all add: h_def)
  have x: "x \<noteq> t \<Longrightarrow> kind_ok (tasks ?s1 x)" "placed ?s1 x" if "x < MAX_THREADS" for x
    using sched_repD(6,7) [OF r that] by (auto simp: kind_ok_def placed_def)
  have len: "length (q ?i) \<le> queued q c" "0 < length (q ?i)" "queued q c < 2 ^ 32"
  proof -
    show "length (q ?i) \<le> queued q c" by (rule queued_ge [OF c(2)])
    show "0 < length (q ?i)" using t by auto
    have "length (q (Runnable_List c p)) \<le> 32" if "p < 5" for p
      using contents_length(1) [OF sched_repD(1) [OF r]] c that by simp
    then have "queued q c \<le> (\<Sum>p<(5::nat). 32)" unfolding queued_def by (intro sum_mono) simp
    then show "queued q c < 2 ^ 32" by simp
  qed
  have "runnable_count (cpus (upd_cpu c h ?s1) d) = of_nat (queued ?q d)" if "d < MAX_CPUS" for d
  proof (cases "d = c")
    case True
    have "0 < queued q c" using len(1,2) by linarith
    moreover have "queued ?q c = queued q c - 1" 
    proof -
      have "a - l + (l - 1) = a - 1" if "l \<le> a" "0 < l" for a l :: nat using that by linarith
      from this [OF len(1,2)] show ?thesis using t c(2) by (simp only: queued_upd length_remove1 if_True simp_thms)
    qed
    moreover have "(of_nat (queued q c) :: u32) > 0" using calculation(1) len(3) by (simp add: word_less_nat_alt unat_of_nat)
    ultimately show ?thesis using True sched_repD(8) [OF r c(1)] by (simp add: h_def of_nat_diff)
  qed (use sched_repD(8) [OF r that] c(2) in \<open>simp add: queued_upd\<close>)
  then show ?thesis using rc pl x f tm sched_repD(9) [OF r] by (simp add: sched_rep_def e)
qed

lemma notify_same [simp]: "same_rep s (scheduler_notify_remote_runnable e c reason s)"
  by (simp add: scheduler_notify_remote_runnable_def same_rep_def)

lemma enqueue_rep:
  assumes "sched_rep {t} q s" "c < MAX_CPUS" "online (cpus s c)"
    and "i = Runnable_List c (unat (scheduler_priority_sanitize (priority (tasks s t))))"
  shows "sched_rep {} (q(i := q i @ [t])) (scheduler_cpu_enqueue_runnable e c t reason s)"
  unfolding scheduler_cpu_enqueue_runnable_def
  by (rule sched_rep_same [OF enqueue_local_rep [OF assms] notify_same])

text \<open>Whatever CPU a task names, it is queued on an online one.\<close>

lemma cpu_by_id_online:
  assumes "cpus_ok s"
  shows "scheduler_cpu_by_id i s < MAX_CPUS" "online (cpus s (scheduler_cpu_by_id i s))"
  using cpus_okD(1,2,4) [OF assms] by (auto simp: scheduler_cpu_by_id_def word_le_nat_alt)

lemma current_cpu_online:
  assumes "cpus_ok s"
  shows "scheduler_current_cpu_state e s < MAX_CPUS" "online (cpus s (scheduler_current_cpu_state e s))"
  using cpus_okD(1,2,3,4) [OF assms]
  by (auto simp: scheduler_current_cpu_state_def word_le_nat_alt unat_u32_of_u8 not_le)

text \<open>The queue that \<open>scheduler_enqueue_runnable\<close> appends to.\<close>

definition target_list :: "nat \<Rightarrow> scheduler \<Rightarrow> list_id" where
  "target_list t s = Runnable_List (scheduler_cpu_by_id (assigned_cpu (tasks s t)) s)
     (unat (scheduler_priority_sanitize (priority (tasks s t))))"

lemma enqueue_runnable_rep:
  assumes "sched_rep {t} q s" "i = target_list t s"
  shows "sched_rep {} (q(i := q i @ [t])) (scheduler_enqueue_runnable e t reason s)"
  using enqueue_rep [OF assms(1) cpu_by_id_online [OF sched_repD(2) [OF assms(1)]] refl] assms(2)
  by (simp add: scheduler_enqueue_runnable_def target_list_def)

lemma target_list_valid: "cpus_ok s \<Longrightarrow> valid_id (target_list t s)"
  by (simp add: target_list_def cpu_by_id_online)

section \<open>Becoming current\<close>

lemma rep_switch:
  assumes r: "sched_rep {t} q s" and c: "c < MAX_CPUS" "online (cpus s c)"
    and s: "state (tasks s t) = TASK_RUNNING"
    and p: "\<And>u. current (cpus s c) = Some u \<Longrightarrow> state (tasks s u) \<noteq> TASK_RUNNING \<or> u = t"
  shows "sched_rep {} q (upd_cpu c (\<lambda>x. x\<lparr>current := Some t\<rparr>) s)"
proof -
  let ?s = "upd_cpu c (\<lambda>x. x\<lparr>current := Some t\<rparr>) s"
  have n: "list_kind (tasks s t) = TASK_LIST_NONE" "t < MAX_THREADS" using sched_repD(4,5) [OF r, of t] by auto
  have f: "get_list i ?s = get_list i s" "online (cpus ?s d) = online (cpus s d)" "cpu_id (cpus ?s d) = cpu_id (cpus s d)"
    "runnable_count (cpus ?s d) = runnable_count (cpus s d)" for i d by (cases i; simp add: upd_cpu_def)+
  have ct: "contents q ?s" by (rule contents_cong [OF sched_repD(1) [OF r]]) (simp_all add: f)
  have ok: "cpus_ok ?s" using sched_repD(2) [OF r] by (simp add: cpus_ok_def f)
  have "d < MAX_CPUS \<Longrightarrow> current (cpus ?s d) = Some x \<Longrightarrow> x < MAX_THREADS \<and> state (tasks s x) \<noteq> TASK_UNUSED \<and> online (cpus s d)" for d x
    using sched_repD(3) [OF r] n c s by (cases "d = c") (auto simp: currents_ok_def)
  then have cu: "currents_ok ?s" by (simp add: currents_ok_def f)
  have "\<exists>d<MAX_CPUS. current (cpus ?s d) = Some x" if x: "x < MAX_THREADS" "state (tasks s x) = TASK_RUNNING" for x
  proof (cases "x = t")
    case True
    then show ?thesis using c by (auto intro!: exI [of _ c])
  next
    case False
    then obtain d where "d < MAX_CPUS" "current (cpus s d) = Some x" using sched_repD(9) [OF r x(1) _ x(2)] by auto
    moreover have "d \<noteq> c" using p [of x] False x calculation by auto
    ultimately show ?thesis by auto
  qed
  moreover have "kind_ok (tasks s x)" if "x < MAX_THREADS" for x
    using sched_repD(6) [OF r that] n s by (cases "x = t") (auto simp: kind_ok_def)
  ultimately show ?thesis using r ct ok cu by (simp add: sched_rep_def f placed_def)
qed

section \<open>Dispatch\<close>

text \<open>The first priority level with a queued task.\<close>

definition next_level :: "(list_id \<Rightarrow> nat list) \<Rightarrow> nat \<Rightarrow> nat option" where
  "next_level q c = find (\<lambda>p. q (Runnable_List c p) \<noteq> []) [0, 1, 2, 3, 4]"

lemma next_level_Some:
  assumes "next_level q c = Some p"
  shows "p < 5" "q (Runnable_List c p) \<noteq> []" "\<And>r. r < p \<Longrightarrow> q (Runnable_List c r) = []"
  using assms by (auto simp: next_level_def less_Suc_eq numeral_eq_Suc split: if_splits)

lemma next_level_None: "next_level q c = None \<longleftrightarrow> (\<forall>p<5. q (Runnable_List c p) = [])"
  by (simp add: next_level_def find_None_iff) (auto simp: less_Suc_eq numeral_eq_Suc)

lemma next_level_eq:
  assumes "p < 5" "q (Runnable_List c p) \<noteq> []" "\<And>r. r < p \<Longrightarrow> q (Runnable_List c r) = []"
  shows "next_level q c = Some p"
proof -
  obtain r where r: "next_level q c = Some r" using assms(1,2) next_level_None [of q c] by (cases "next_level q c") auto
  note n = next_level_Some [OF r]
  have "r = p" using n(2) n(3) [of p] assms(2) assms(3) [of r] by (cases r p rule: linorder_cases) auto
  then show ?thesis using r by simp
qed

lemma queued_zero: "queued q c = 0 \<longleftrightarrow> next_level q c = None"
  by (auto simp: queued_def next_level_None)

text \<open>The state after the head of a run queue is taken off, with the time it waited on record.\<close>

definition dequeued :: "nat \<Rightarrow> nat \<Rightarrow> nat \<Rightarrow> scheduler \<Rightarrow> scheduler" where
  "dequeued c p t s = (let s2 = decrement_runnable c (remove_from (Runnable_List c p) t s)
     in s2\<lparr>trace_latency := runnable_wait_ticks_update (\<lambda>m. scheduler_trace_latency_record m
          (system_ticks s2 - runnable_enqueue_tick (tasks s2 t))) (trace_latency s2)\<rparr>)"

lemma dequeue_from_eq:
  assumes "contents q s" "c < MAX_CPUS" "\<forall>p\<in>set ps. p < 5"
  shows "dequeue_from c ps s =
    (case find (\<lambda>p. q (Runnable_List c p) \<noteq> []) ps of
       None \<Rightarrow> (None, s)
     | Some p \<Rightarrow> (Some (hd (q (Runnable_List c p))), dequeued c p (hd (q (Runnable_List c p))) s))"
  using assms(3)
proof (induction ps)
  case (Cons p ps)
  have v: "valid_id (Runnable_List c p)" using assms(2) Cons.prems by simp
  show ?case
  proof (cases "q (Runnable_List c p)")
    case Nil
    then show ?thesis using Cons pop_from_contents(1) [OF assms(1) v] by simp
  next
    case (Cons t ts)
    then show ?thesis using pop_from_contents(2) [OF assms(1) v] by (simp add: dequeued_def Let_def)
  qed
qed simp

lemma dequeue_next_eq:
  assumes "contents q s" "c < MAX_CPUS"
  shows "scheduler_cpu_dequeue_next_runnable c s =
    (case next_level q c of
       None \<Rightarrow> (None, s)
     | Some p \<Rightarrow> (Some (hd (q (Runnable_List c p))), dequeued c p (hd (q (Runnable_List c p))) s))"
  unfolding scheduler_cpu_dequeue_next_runnable_def next_level_def by (rule dequeue_from_eq [OF assms]) simp

lemma dequeued_rep:
  assumes "sched_rep {} q s" "c < MAX_CPUS" "p < 5" "q (Runnable_List c p) = t # ts"
  shows "sched_rep {t} (q(Runnable_List c p := ts)) (dequeued c p t s)"
  using sched_rep_same [OF dequeue_rep [OF assms(1-3), of t] same_rep_globals(6)] assms(4)
  by (simp add: dequeued_def Let_def)

lemma decrement_fields [simp]:
  "tasks (decrement_runnable c s) = tasks s" "system_ticks (decrement_runnable c s) = system_ticks s"
  "current (cpus (decrement_runnable c s) d) = current (cpus s d)" "online (cpus (decrement_runnable c s) d) = online (cpus s d)"
  "cpu_id (cpus (decrement_runnable c s) d) = cpu_id (cpus s d)" "numa_node (cpus (decrement_runnable c s) d) = numa_node (cpus s d)"
  "configured_cpu_count (decrement_runnable c s) = configured_cpu_count s" "boot_cpu_id (decrement_runnable c s) = boot_cpu_id s"
  "scheduler_bootstrapped (decrement_runnable c s) = scheduler_bootstrapped s"
  "next_task_id (decrement_runnable c s) = next_task_id s" "configured_node_count (decrement_runnable c s) = configured_node_count s"
  by (cases "d = c"; simp add: decrement_runnable_def)+

lemma dequeued_fields [simp]:
  "state (tasks (dequeued c p t s) x) = state (tasks s x)" "frame (tasks (dequeued c p t s) x) = frame (tasks s x)"
  "kernel_stack_top (tasks (dequeued c p t s) x) = kernel_stack_top (tasks s x)"
  "space (tasks (dequeued c p t s) x) = space (tasks s x)"
  "current (cpus (dequeued c p t s) d) = current (cpus s d)" "online (cpus (dequeued c p t s) d) = online (cpus s d)"
  by (simp_all add: dequeued_def Let_def)

lemma head_not_current_running:
  assumes "sched_rep {} q s" "valid_id (Runnable_List c p)" "t \<in> set (q (Runnable_List c p))"
  shows "state (tasks s t) = TASK_RUNNABLE" "t < MAX_THREADS" "list_kind (tasks s t) = TASK_LIST_RUNNABLE"
proof -
  show t: "t < MAX_THREADS" and k: "list_kind (tasks s t) = TASK_LIST_RUNNABLE"
    using contents_mem [OF sched_repD(1) [OF assms(1)] assms(2)] assms(3)
    by (auto simp: home_def split: task_list_kind.splits)
  show "state (tasks s t) = TASK_RUNNABLE" using sched_repD(6) [OF assms(1) t] k by (simp add: kind_ok_def)
qed

text \<open>Dispatch of the head of the first nonempty queue, when the current task is not running any more.\<close>

lemma schedule_next_rep:
  assumes r: "sched_rep {} q s" and c: "c < MAX_CPUS" "online (cpus s c)"
    and n: "\<And>u. current (cpus s c) = Some u \<Longrightarrow> state (tasks s u) \<noteq> TASK_RUNNING"
    and l: "next_level q c = Some p" and h: "q (Runnable_List c p) = t # ts"
  shows "\<exists>s'. schedule_next c fr s = Some (Switch (frame (tasks s t)) (kernel_stack_top (tasks s t)) (space (tasks s t)), s') \<and>
           sched_rep {} (q(Runnable_List c p := ts)) s' \<and> current (cpus s' c) = Some t \<and> state (tasks s' t) = TASK_RUNNING"
proof -
  let ?s1 = "dequeued c p t s"
  define g where "g = (\<lambda>x. x\<lparr>state := TASK_RUNNING, ticks_in_slice := 0\<rparr> :: task)"
  let ?s2 = "upd_cpu c (\<lambda>x. x\<lparr>current := Some t\<rparr>) (upd_task t g ?s1)"
  let ?s3 = "if current (cpus ?s1 c) \<noteq> Some t then count_event context_switches_update ?s2 else ?s2"
  have p5: "p < 5" by (rule next_level_Some [OF l])
  have e: "schedule_next c fr s = Some (Switch (frame (tasks s t)) (kernel_stack_top (tasks s t)) (space (tasks s t)), ?s3)"
    using dequeue_next_eq [OF sched_repD(1) [OF r] c(1)] l h
    by (simp add: schedule_next_def scheduler_switch_to_task_def Let_def g_def)
  have r1: "sched_rep {t} (q(Runnable_List c p := ts)) ?s1" by (rule dequeued_rep [OF r c(1) p5 h])
  have r2: "sched_rep {t} (q(Runnable_List c p := ts)) (upd_task t g ?s1)"
    by (rule rep_change [OF r1]) (use sched_repD(5) [OF r1, of t] in \<open>simp_all add: g_def\<close>)
  have "sched_rep {} (q(Runnable_List c p := ts)) ?s2"
  proof (rule rep_switch [OF r2 c(1)])
    show "online (cpus (upd_task t g ?s1) c)" "state (tasks (upd_task t g ?s1) t) = TASK_RUNNING" using c by (simp_all add: g_def)
    show "state (tasks (upd_task t g ?s1) u) \<noteq> TASK_RUNNING \<or> u = t" if "current (cpus (upd_task t g ?s1) c) = Some u" for u
      using n [of u] that by (cases "u = t") simp_all
  qed
  then have "sched_rep {} (q(Runnable_List c p := ts)) ?s3" using sched_rep_same [OF _ same_rep_globals(5)] by simp
  moreover have "current (cpus ?s3 c) = Some t" "state (tasks ?s3 t) = TASK_RUNNING" by (simp_all add: g_def)
  ultimately show ?thesis using e by blast
qed

lemma schedule_next_panic:
  assumes r: "sched_rep {} q s" and c: "c < MAX_CPUS"
    and n: "\<And>u. current (cpus s c) = Some u \<Longrightarrow> state (tasks s u) \<noteq> TASK_RUNNING"
    and l: "next_level q c = None"
  shows "schedule_next c fr s = None"
  using dequeue_next_eq [OF sched_repD(1) [OF r] c] l n
  by (auto simp: schedule_next_def scheduler_switch_to_task_def split: option.splits)

text \<open>Whether \<open>scheduler_schedule_cpu\<close> keeps the current task, and the queues it dispatches from otherwise.\<close>

definition runs_on :: "nat \<Rightarrow> scheduler \<Rightarrow> nat option" where
  "runs_on c s = (case current (cpus s c) of
     Some t \<Rightarrow> if state (tasks s t) = TASK_RUNNING then Some t else None | None \<Rightarrow> None)"

definition requeue :: "nat \<Rightarrow> scheduler \<Rightarrow> (list_id \<Rightarrow> nat list) \<Rightarrow> list_id \<Rightarrow> nat list" where
  "requeue c s q = (case runs_on c s of
     None \<Rightarrow> q
   | Some t \<Rightarrow> let i = Runnable_List c (unat (scheduler_priority_sanitize (priority (tasks s t)))) in q(i := q i @ [t]))"

lemma current_running:
  assumes r: "sched_rep {} q s" and c: "c < MAX_CPUS" and t: "current (cpus s c) = Some t"
  shows "t < MAX_THREADS" "state (tasks s t) = TASK_RUNNING \<Longrightarrow> list_kind (tasks s t) = TASK_LIST_NONE"
proof -
  show m: "t < MAX_THREADS" using sched_repD(3) [OF r] c t by (simp add: currents_ok_def)
  show "list_kind (tasks s t) = TASK_LIST_NONE" if "state (tasks s t) = TASK_RUNNING"
    using sched_repD(6) [OF r m] that by (simp add: kind_ok_def split: task_list_kind.splits)
qed

lemma enqueue_fields [simp]:
  "frame (tasks (scheduler_cpu_enqueue_runnable e c t reason s) x) = frame (tasks s x)"
  "kernel_stack_top (tasks (scheduler_cpu_enqueue_runnable e c t reason s) x) = kernel_stack_top (tasks s x)"
  "space (tasks (scheduler_cpu_enqueue_runnable e c t reason s) x) = space (tasks s x)"
  "state (tasks (scheduler_cpu_enqueue_runnable e c t reason s) t) = TASK_RUNNABLE"
  "x \<noteq> t \<Longrightarrow> state (tasks (scheduler_cpu_enqueue_runnable e c t reason s) x) = state (tasks s x)"
  "current (cpus (scheduler_cpu_enqueue_runnable e c t reason s) d) = current (cpus s d)"
  "online (cpus (scheduler_cpu_enqueue_runnable e c t reason s) d) = online (cpus s d)"
  by (cases "x = t"; cases "d = c"; simp add: scheduler_cpu_enqueue_runnable_def scheduler_notify_remote_runnable_def
    scheduler_cpu_enqueue_runnable_local_def Let_def)+

lemma requeue_step:
  assumes r: "sched_rep {} q s" and c: "c < MAX_CPUS" "online (cpus s c)"
  obtains s1 where "scheduler_schedule_cpu e c fr True s = schedule_next c fr s1"
    "sched_rep {} (requeue c s q) s1"
    "online (cpus s1 c)" "current (cpus s1 c) = current (cpus s c)"
    "\<And>u. current (cpus s1 c) = Some u \<Longrightarrow> state (tasks s1 u) \<noteq> TASK_RUNNING"
    "\<And>x. frame (tasks s1 x) = (if current (cpus s c) = Some x then fr else frame (tasks s x))"
    "\<And>x. kernel_stack_top (tasks s1 x) = kernel_stack_top (tasks s x)" "\<And>x. space (tasks s1 x) = space (tasks s x)"
proof (cases "current (cpus s c)")
  case None
  let ?s = "count_event schedule_events_update s"
  have "sched_rep {} q ?s" by (rule sched_rep_same [OF r]) simp
  then show ?thesis using None c by (intro that [of ?s]) (simp_all add: scheduler_schedule_cpu_def requeue_def runs_on_def)
next
  case (Some t)
  let ?s = "upd_task t (\<lambda>x. x\<lparr>frame := fr\<rparr>) (count_event schedule_events_update s)"
  have fr: "frame (tasks ?s x) = (if t = x then fr else frame (tasks s x))"
    "kernel_stack_top (tasks ?s x) = kernel_stack_top (tasks s x)" "space (tasks ?s x) = space (tasks s x)"
    "state (tasks ?s x) = state (tasks s x)" "priority (tasks ?s x) = priority (tasks s x)" for x by (cases "x = t"; simp)+
  have "sched_rep {} q (count_event schedule_events_update s)" by (rule sched_rep_same [OF r]) simp
  then have r1: "sched_rep {} q ?s" by (rule sched_rep_same) (rule same_rep_upd_task; simp)
  show ?thesis
  proof (cases "state (tasks s t) = TASK_RUNNING")
    case False
    then show ?thesis using Some c r1 fr by (intro that [of ?s]) (simp_all add: scheduler_schedule_cpu_def requeue_def runs_on_def)
  next
    case True
    let ?i = "Runnable_List c (unat (scheduler_priority_sanitize (priority (tasks s t))))"
    let ?s1 = "scheduler_cpu_enqueue_runnable e c t REASON_RESCHEDULE ?s"
    have "sched_rep {t} q ?s" by (rule rep_take [OF r1]) (use current_running [OF r c(1) Some] True in \<open>simp_all\<close>)
    then have "sched_rep {} (q(?i := q ?i @ [t])) ?s1" by (rule enqueue_rep) (use c fr in simp_all)
    then show ?thesis using Some True c fr
      by (intro that [of ?s1]) (simp_all add: scheduler_schedule_cpu_def requeue_def runs_on_def Let_def)
  qed
qed

text \<open>\<open>scheduler_schedule_cpu\<close> with a forced switch: the running task goes to the back of its queue, then the
  head of the first nonempty queue runs. It panics when there is none.\<close>

lemma schedule_cpu_rep:
  assumes r: "sched_rep {} q s" and c: "c < MAX_CPUS" "online (cpus s c)"
    and l: "next_level (requeue c s q) c = Some p" and h: "requeue c s q (Runnable_List c p) = t # ts"
  shows "\<exists>s'. scheduler_schedule_cpu e c fr True s =
      Some (Switch (if current (cpus s c) = Some t then fr else frame (tasks s t)) (kernel_stack_top (tasks s t)) (space (tasks s t)), s') \<and>
    sched_rep {} ((requeue c s q)(Runnable_List c p := ts)) s' \<and> current (cpus s' c) = Some t \<and> state (tasks s' t) = TASK_RUNNING"
proof -
  obtain s1 where e: "scheduler_schedule_cpu e c fr True s = schedule_next c fr s1" and r1: "sched_rep {} (requeue c s q) s1"
    and f: "online (cpus s1 c)" "current (cpus s1 c) = current (cpus s c)"
      "\<And>u. current (cpus s1 c) = Some u \<Longrightarrow> state (tasks s1 u) \<noteq> TASK_RUNNING"
      "\<And>x. frame (tasks s1 x) = (if current (cpus s c) = Some x then fr else frame (tasks s x))"
      "\<And>x. kernel_stack_top (tasks s1 x) = kernel_stack_top (tasks s x)" "\<And>x. space (tasks s1 x) = space (tasks s x)"
    by (rule requeue_step [OF r c, of e fr]) (rule that)
  from schedule_next_rep [OF r1 c(1) f(1,3) l h, of fr] show ?thesis by (simp add: e f(4-6))
qed

lemma schedule_cpu_panic:
  assumes r: "sched_rep {} q s" and c: "c < MAX_CPUS" "online (cpus s c)"
    and l: "next_level (requeue c s q) c = None"
  shows "scheduler_schedule_cpu e c fr True s = None"
proof -
  obtain s1 where e: "scheduler_schedule_cpu e c fr True s = schedule_next c fr s1" and r1: "sched_rep {} (requeue c s q) s1"
    and f: "online (cpus s1 c)" "current (cpus s1 c) = current (cpus s c)"
      "\<And>u. current (cpus s1 c) = Some u \<Longrightarrow> state (tasks s1 u) \<noteq> TASK_RUNNING"
      "\<And>x. frame (tasks s1 x) = (if current (cpus s c) = Some x then fr else frame (tasks s x))"
      "\<And>x. kernel_stack_top (tasks s1 x) = kernel_stack_top (tasks s x)" "\<And>x. space (tasks s1 x) = space (tasks s x)"
    by (rule requeue_step [OF r c, of e fr]) (rule that)
  show ?thesis unfolding e by (rule schedule_next_panic [OF r1 c(1) f(3) l])
qed

lemma requeue_level: "runs_on c s = Some t \<Longrightarrow> next_level (requeue c s q) c \<noteq> None"
  using unat_sanitize [of "priority (tasks s t)"] by (auto simp: requeue_def next_level_None Let_def)

lemma requeue_None: "runs_on c s = None \<Longrightarrow> requeue c s q = q"
  by (simp add: requeue_def)

text \<open>Either way, what comes out satisfies the invariant.\<close>

lemma schedule_cpu_inv:
  assumes r: "sched_rep {} q s" and c: "c < MAX_CPUS" "online (cpus s c)"
    and s: "scheduler_schedule_cpu e c fr force s = Some (x, s')"
  shows "\<exists>q'. sched_rep {} q' s'"
proof (cases "force \<or> runs_on c s = None \<or> (\<exists>t. current (cpus s c) = Some t \<and>
    scheduler_cpu_has_higher_priority_runnable c (priority (tasks s t)) s)")
  case True
  have hp: "scheduler_cpu_has_higher_priority_runnable c p (upd_task t g (trace_counters_update f s)) =
      scheduler_cpu_has_higher_priority_runnable c p s" for p t g f
    by (simp add: scheduler_cpu_has_higher_priority_runnable_def)
  have "scheduler_schedule_cpu e c fr force s = scheduler_schedule_cpu e c fr True s"
    using True by (auto simp: scheduler_schedule_cpu_def runs_on_def Let_def hp split: option.splits)
  moreover obtain p where p: "next_level (requeue c s q) c = Some p"
    using schedule_cpu_panic [OF r c, of e fr] s calculation by fastforce
  then obtain t ts where "requeue c s q (Runnable_List c p) = t # ts" using next_level_Some(2) [OF p] by (meson neq_Nil_conv)
  ultimately show ?thesis using schedule_cpu_rep [OF r c p, of t ts e fr] s by auto
next
  case False
  then obtain t where t: "current (cpus s c) = Some t" "state (tasks s t) = TASK_RUNNING"
    by (auto simp: runs_on_def split: option.splits if_splits)
  then have "s' = upd_task t (\<lambda>x. x\<lparr>frame := fr\<rparr>) (count_event schedule_events_update s)"
    using False s by (auto simp: scheduler_schedule_cpu_def Let_def scheduler_cpu_has_higher_priority_runnable_def)
  moreover have "sched_rep {} q (count_event schedule_events_update s)" by (rule sched_rep_same [OF r]) simp
  ultimately have "sched_rep {} q s'" by (simp add: sched_rep_same same_rep_upd_task)
  then show ?thesis by blast
qed

section \<open>Waking\<close>

text \<open>What an operation on the slots of \<open>D\<close> leaves alone: every other slot up to its links, and the variables
  placement depends on.\<close>

definition core :: "task \<Rightarrow> task" where
  "core x = x\<lparr>list_prev := None, list_next := None\<rparr>"

definition keeps :: "nat set \<Rightarrow> scheduler \<Rightarrow> scheduler \<Rightarrow> bool" where
  "keeps D s s' \<longleftrightarrow> (\<forall>x. x \<notin> D \<longrightarrow> core (tasks s' x) = core (tasks s x)) \<and>
     (\<forall>c. cpu_id (cpus s' c) = cpu_id (cpus s c) \<and> numa_node (cpus s' c) = numa_node (cpus s c) \<and>
          online (cpus s' c) = online (cpus s c) \<and> current (cpus s' c) = current (cpus s c)) \<and>
     system_ticks s' = system_ticks s \<and> configured_cpu_count s' = configured_cpu_count s \<and>
     configured_node_count s' = configured_node_count s \<and> boot_cpu_id s' = boot_cpu_id s \<and>
     scheduler_bootstrapped s' = scheduler_bootstrapped s \<and> next_task_id s' = next_task_id s"

lemma core_fields [simp]:
  "state (core x) = state x" "priority (core x) = priority x" "assigned_cpu (core x) = assigned_cpu x"
  "wakeup_tick (core x) = wakeup_tick x" "wait_channel (core x) = wait_channel x" "wait_result (core x) = wait_result x"
  "list_kind (core x) = list_kind x" "task_id (core x) = task_id x" "cpu_affinity_mask (core x) = cpu_affinity_mask x"
  "preferred_numa_node (core x) = preferred_numa_node x" "frame (core x) = frame x" "space (core x) = space x"
  "kernel_stack_top (core x) = kernel_stack_top x" "stack_base (core x) = stack_base x"
  by (simp_all add: core_def)

lemma keeps_refl [simp]: "keeps D s s"
  by (simp add: keeps_def)

lemma keeps_trans: "keeps D s s1 \<Longrightarrow> keeps E s1 s2 \<Longrightarrow> keeps (D \<union> E) s s2"
  by (simp add: keeps_def)

lemma keeps_mono: "keeps D s s' \<Longrightarrow> D \<subseteq> E \<Longrightarrow> keeps E s s'"
  unfolding keeps_def by blast

lemma keeps_core: "keeps D s s' \<Longrightarrow> x \<notin> D \<Longrightarrow> core (tasks s' x) = core (tasks s x)"
  by (simp add: keeps_def)

lemma keeps_fields:
  assumes "keeps D s s'" "x \<notin> D"
  shows "state (tasks s' x) = state (tasks s x)" "priority (tasks s' x) = priority (tasks s x)"
    "assigned_cpu (tasks s' x) = assigned_cpu (tasks s x)" "wakeup_tick (tasks s' x) = wakeup_tick (tasks s x)"
    "wait_channel (tasks s' x) = wait_channel (tasks s x)" "list_kind (tasks s' x) = list_kind (tasks s x)"
    "cpu_affinity_mask (tasks s' x) = cpu_affinity_mask (tasks s x)"
  using keeps_core [OF assms] core_fields by metis+

lemma keeps_target: "keeps D s s' \<Longrightarrow> x \<notin> D \<Longrightarrow> target_list x s' = target_list x s"
  by (simp add: target_list_def keeps_fields) (simp add: scheduler_cpu_by_id_def keeps_def)

lemma core_push [simp]: "core (snd (task_list_push_back l t k h) x) = (if x = t then (core (h x))\<lparr>list_kind := k\<rparr> else core (h x))"
  by (simp add: core_def task_list_push_back_def upd_def Let_def split: option.splits)

lemma core_remove [simp]:
  "core (snd (task_list_remove l t h) x) = (if x = t then (core (h x))\<lparr>list_kind := TASK_LIST_NONE\<rparr> else core (h x))"
  by (simp add: core_def task_list_remove_def upd_def Let_def split: option.splits)

lemma core_push_on [simp]:
  "core (tasks (push_on i t k s) x) = (if x = t then (core (tasks s x))\<lparr>list_kind := k\<rparr> else core (tasks s x))"
  "core (tasks (remove_from i t s) x) = (if x = t then (core (tasks s x))\<lparr>list_kind := TASK_LIST_NONE\<rparr> else core (tasks s x))"
  by (simp_all add: push_on_alt remove_from_alt)

lemma keeps_lists [simp]: "keeps {t} s (push_on i t k s)" "keeps {t} s (remove_from i t s)"
  by (simp_all add: keeps_def)

lemma keeps_upd_task [simp]: "keeps {t} s (upd_task t g s)"
  by (simp add: keeps_def)

lemma keeps_globals [simp]: "keeps D s (trace_counters_update f s)" "keeps D s (trace_latency_update g s)" "keeps D s (s\<lparr>ipis := z\<rparr>)"
  "keeps D s (s\<lparr>last_balance_tick := b\<rparr>)"
  by (simp_all add: keeps_def)

lemma keeps_step: "keeps {t} s s1 \<Longrightarrow> keeps {t} s1 s2 \<Longrightarrow> keeps {t} s s2"
  using keeps_trans [of "{t}" s s1 "{t}" s2] by simp

lemma keeps_enqueue_local [simp]: "keeps {t} s (scheduler_cpu_enqueue_runnable_local c t s)"
proof -
  have *: "cpu_id (cpus (upd_cpu c (\<lambda>x. x\<lparr>runnable_count := n x\<rparr>) s) d) = cpu_id (cpus s d) \<and>
      numa_node (cpus (upd_cpu c (\<lambda>x. x\<lparr>runnable_count := n x\<rparr>) s) d) = numa_node (cpus s d) \<and>
      online (cpus (upd_cpu c (\<lambda>x. x\<lparr>runnable_count := n x\<rparr>) s) d) = online (cpus s d) \<and>
      current (cpus (upd_cpu c (\<lambda>x. x\<lparr>runnable_count := n x\<rparr>) s) d) = current (cpus s d)" for n s d
    by (cases "d = c") simp_all
  show ?thesis by (simp add: keeps_def scheduler_cpu_enqueue_runnable_local_def Let_def *)
qed

lemma keeps_notify [simp]: "keeps D s (scheduler_notify_remote_runnable e c reason s)"
  by (simp add: scheduler_notify_remote_runnable_def keeps_def)

lemma keeps_enqueue [simp]: "keeps {t} s (scheduler_cpu_enqueue_runnable e c t reason s)"
  unfolding scheduler_cpu_enqueue_runnable_def by (rule keeps_step [OF keeps_enqueue_local keeps_notify])

lemma keeps_enqueue_runnable [simp]: "keeps {t} s (scheduler_enqueue_runnable e t reason s)"
  by (simp add: scheduler_enqueue_runnable_def)

text \<open>The queues after a task moves from a list to the back of another.\<close>

definition move :: "list_id \<Rightarrow> list_id \<Rightarrow> nat \<Rightarrow> (list_id \<Rightarrow> nat list) \<Rightarrow> list_id \<Rightarrow> nat list" where
  "move i j t q = (let q1 = q(i := remove1 t (q i)) in q1(j := q1 j @ [t]))"

lemma target_not_plain [simp]: "plain i \<Longrightarrow> target_list t s \<noteq> i" "plain i \<Longrightarrow> i \<noteq> target_list t s"
  by (auto simp: target_list_def plain_def)

lemma move_from [simp]: "plain i \<Longrightarrow> move i (target_list t s) t q i = remove1 t (q i)"
  by (simp add: move_def Let_def)

lemma wake_sleeper_rep:
  assumes "sched_rep {} q s" "t \<in> set (q Sleeping_List)"
  shows "sched_rep {} (move Sleeping_List (target_list t s) t q) (wake_sleeper e t s)"
proof -
  let ?s1 = "s\<lparr>trace_latency := sleep_overshoot_ticks_update (\<lambda>m. scheduler_trace_latency_record m
                 (system_ticks s - wakeup_tick (tasks s t))) (trace_latency s)\<rparr>"
  let ?s2 = "remove_from Sleeping_List t ?s1"
  let ?q1 = "q(Sleeping_List := remove1 t (q Sleeping_List))"
  have "sched_rep {} q ?s1" by (rule sched_rep_same [OF assms(1)]) simp
  then have "sched_rep {t} ?q1 ?s2" by (rule rep_remove) (use assms in \<open>simp_all add: plain_def\<close>)
  moreover have "target_list t ?s2 = target_list t s" by (simp add: target_list_def scheduler_cpu_by_id_def)
  ultimately have "sched_rep {} (move Sleeping_List (target_list t s) t q) (scheduler_enqueue_runnable e t REASON_WAKEUP ?s2)"
    using enqueue_runnable_rep [of t ?q1 ?s2 "target_list t s" e REASON_WAKEUP] by (simp add: move_def Let_def)
  then show ?thesis unfolding wake_sleeper_def Let_def by (rule sched_rep_same) simp
qed

lemma blocked_move_rep:
  assumes "sched_rep {} q s" "t \<in> set (q Blocked_List)"
    and g: "\<And>x. state (g x) = state x" "\<And>x. list_kind (g x) = list_kind x" "\<And>x. priority (g x) = priority x"
      "\<And>x. assigned_cpu (g x) = assigned_cpu x"
  shows "sched_rep {} (move Blocked_List (target_list t s) t q)
    (scheduler_enqueue_runnable e t REASON_WAKEUP (upd_task t g (remove_from Blocked_List t s)))"
proof -
  let ?s1 = "remove_from Blocked_List t s"
  let ?q1 = "q(Blocked_List := remove1 t (q Blocked_List))"
  have r1: "sched_rep {t} ?q1 ?s1" by (rule rep_remove) (use assms in \<open>simp_all add: plain_def\<close>)
  have "home (tasks s t) = Some Blocked_List" "t < MAX_THREADS" using contents_mem [OF sched_repD(1) [OF assms(1)]] assms(2) by simp_all
  then have "state (tasks s t) = TASK_BLOCKED" using sched_repD(6) [OF assms(1), of t]
    by (auto simp: kind_ok_def home_def split: task_list_kind.splits)
  then have r2: "sched_rep {t} ?q1 (upd_task t g ?s1)" by (intro rep_change [OF r1]) (simp_all add: g)
  have "target_list t (upd_task t g ?s1) = target_list t s" by (simp add: target_list_def scheduler_cpu_by_id_def g)
  then show ?thesis using enqueue_runnable_rep [OF r2, of "target_list t s" e REASON_WAKEUP] by (simp add: move_def Let_def)
qed

lemma expire_waiter_rep:
  assumes "sched_rep {} q s" "t \<in> set (q Blocked_List)"
  shows "sched_rep {} (move Blocked_List (target_list t s) t q) (expire_waiter e t s)"
proof -
  let ?s1 = "s\<lparr>trace_latency := wait_timeout_overshoot_ticks_update (\<lambda>m. scheduler_trace_latency_record m
                 (system_ticks s - wakeup_tick (tasks s t))) (trace_latency s)\<rparr>"
  have "sched_rep {} q ?s1" by (rule sched_rep_same [OF assms(1)]) simp
  moreover have "target_list t ?s1 = target_list t s" by (simp add: target_list_def scheduler_cpu_by_id_def)
  ultimately have "sched_rep {} (move Blocked_List (target_list t s) t q) (scheduler_enqueue_runnable e t REASON_WAKEUP
      (upd_task t (\<lambda>x. x\<lparr>wait_channel := 0, wait_result := False, wakeup_tick := 0\<rparr>) (remove_from Blocked_List t ?s1)))"
    using blocked_move_rep [of q ?s1 t, OF _ assms(2)] by simp
  then show ?thesis unfolding expire_waiter_def Let_def
    by (intro sched_rep_same [OF _ same_rep_globals(5)])
qed

lemma wake_waiter_rep:
  assumes "sched_rep {} q s" "t \<in> set (q Blocked_List)"
  shows "sched_rep {} (move Blocked_List (target_list t s) t q) (wake_waiter e t s)"
  unfolding wake_waiter_def Let_def
  by (rule sched_rep_same [OF blocked_move_rep [OF assms, of "\<lambda>x. x\<lparr>wait_channel := 0, wait_result := True, wakeup_tick := 0\<rparr>" e] same_rep_globals(5)])
    simp_all

lemma keeps_wake_sleeper [simp]: "keeps {t} s (wake_sleeper e t s)"
  unfolding wake_sleeper_def Let_def
  by (rule keeps_step [OF keeps_step [OF keeps_step [OF keeps_globals(2) keeps_lists(2)] keeps_enqueue_runnable] keeps_globals(1)])

lemma keeps_wake_waiter [simp]: "keeps {t} s (wake_waiter e t s)"
  unfolding wake_waiter_def Let_def
  by (rule keeps_step [OF keeps_step [OF keeps_step [OF keeps_lists(2) keeps_upd_task] keeps_enqueue_runnable] keeps_globals(1)])

lemma keeps_expire_waiter [simp]: "keeps {t} s (expire_waiter e t s)"
  unfolding expire_waiter_def Let_def
  by (rule keeps_step [OF keeps_step [OF keeps_step [OF keeps_step [OF keeps_step [OF keeps_globals(2) keeps_lists(2)]
      keeps_upd_task] keeps_enqueue_runnable] keeps_globals(1)] keeps_globals(1)])

end
