(* ===== verification/Sched_Walks.thy ===== *)
theory Sched_Walks
  imports Sched_Queues
begin

text \<open>
  The loops along the lists: the timers, waking a channel, reaping. Each is shown to end and to do to the queues what
  a function on lists does. Then the sections that block the running task, and the slots.
\<close>

section \<open>Walks that wake\<close>

text \<open>The queues after the tasks \<open>ts\<close> of list \<open>i\<close> have gone, in this order, to the queues \<open>tgt\<close> names.\<close>

definition wake_all :: "list_id \<Rightarrow> (nat \<Rightarrow> list_id) \<Rightarrow> nat list \<Rightarrow> (list_id \<Rightarrow> nat list) \<Rightarrow> list_id \<Rightarrow> nat list" where
  "wake_all i tgt ts = fold (\<lambda>t. move i (tgt t) t) ts"

lemma wake_all_simps [simp]:
  "wake_all i tgt [] q = q" "wake_all i tgt (t # ts) q = wake_all i tgt ts (move i (tgt t) t q)"
  by (simp_all add: wake_all_def)

lemma wake_all_cong: "(\<And>t. t \<in> set ts \<Longrightarrow> f t = g t) \<Longrightarrow> wake_all i f ts q = wake_all i g ts q"
  by (induction ts arbitrary: q) auto

text \<open>What a walk leaves in the list, and what it appends to a queue.\<close>

lemma wake_all_from:
  assumes "\<And>t. t \<in> set ts \<Longrightarrow> tgt t \<noteq> i"
  shows "wake_all i tgt ts q i = fold remove1 ts (q i)"
  using assms by (induction ts arbitrary: q) (auto simp: move_def Let_def)

lemma wake_all_to:
  assumes "j \<noteq> i"
  shows "wake_all i tgt ts q j = q j @ filter (\<lambda>t. tgt t = j) ts"
  using assms by (induction ts arbitrary: q) (auto simp: move_def Let_def)

lemma remove1_set: "distinct xs \<Longrightarrow> fold remove1 ys xs = filter (\<lambda>x. x \<notin> set ys) xs"
  by (induction ys arbitrary: xs) (auto simp: distinct_remove1_removeAll removeAll_filter_not_eq intro: filter_cong)

lemma remove1_filter: "distinct xs \<Longrightarrow> fold remove1 (filter P xs) xs = filter (\<lambda>x. \<not> P x) xs"
  by (auto simp: remove1_set intro: filter_cong)

text \<open>A walk of list \<open>i\<close> along the next pointers that wakes the tasks that are due. The two timer loops have
  this form; the next pointer is read before the task leaves the list.\<close>

locale timer_loop =
  fixes i :: list_id and due :: "scheduler \<Rightarrow> nat \<Rightarrow> bool" and act :: "nat \<Rightarrow> scheduler \<Rightarrow> scheduler"
    and loop :: "nat option \<Rightarrow> scheduler \<Rightarrow> scheduler option" and post :: "task \<Rightarrow> bool"
  assumes plain_list: "plain i"
    and loop_end: "loop None s = Some s"
    and loop_step: "loop (Some t) s = loop (list_next (tasks s t)) (if due s t then act t s else s)"
    and act_rep: "sched_rep {} q s \<Longrightarrow> t \<in> set (q i) \<Longrightarrow> sched_rep {} (move i (target_list t s) t q) (act t s)"
    and act_keeps: "keeps {t} s (act t s)"
    and act_post: "post (core (tasks (act t s) t))"
    and due_keeps: "keeps D s s' \<Longrightarrow> x \<notin> D \<Longrightarrow> due s' x = due s x"
begin

lemma loop_from:
  assumes "sched_rep {} q s" "q i = as @ bs"
  shows "\<exists>s'. loop (hd_opt bs) s = Some s' \<and> keeps (set (filter (due s) bs)) s s' \<and>
    sched_rep {} (wake_all i (\<lambda>t. target_list t s) (filter (due s) bs) q) s' \<and>
    (\<forall>t\<in>set (filter (due s) bs). post (core (tasks s' t)))"
  using assms
proof (induction bs arbitrary: as q s)
  case Nil
  then show ?case by (simp add: loop_end)
next
  case (Cons t bs)
  have d: "distinct (q i)" by (rule contents_length [OF sched_repD(1) [OF Cons.prems(1)] plain_valid [OF plain_list]])
  have nx: "list_next (tasks s t) = hd_opt bs"
    by (rule contents_next [OF sched_repD(1) [OF Cons.prems(1)] plain_valid [OF plain_list] Cons.prems(2)])
  show ?case
  proof (cases "due s t")
    case False
    then show ?thesis using Cons.IH [OF Cons.prems(1), of "as @ [t]"] Cons.prems(2) by (simp add: loop_step nx)
  next
    case True
    let ?q = "move i (target_list t s) t q" and ?s = "act t s"
    have r: "sched_rep {} ?q ?s" using act_rep [OF Cons.prems(1), of t] Cons.prems(2) by simp
    have q: "?q i = as @ bs" using d plain_list Cons.prems(2) by (simp add: remove1_append)
    from Cons.IH [OF r q] obtain s' where IH: "loop (hd_opt bs) ?s = Some s'" "keeps (set (filter (due ?s) bs)) ?s s'"
      "sched_rep {} (wake_all i (\<lambda>t. target_list t ?s) (filter (due ?s) bs) ?q) s'"
      "\<forall>t\<in>set (filter (due ?s) bs). post (core (tasks s' t))" by blast
    have nt: "t \<notin> set bs" using d Cons.prems(2) by simp
    have ne: "x \<notin> {t}" if "x \<in> set bs" for x using nt that by auto
    have f: "filter (due ?s) bs = filter (due s) bs"
      by (rule filter_cong [OF refl]) (rule due_keeps [OF act_keeps ne])
    have "wake_all i (\<lambda>u. target_list u ?s) (filter (due s) bs) ?q = wake_all i (\<lambda>u. target_list u s) (filter (due s) bs) ?q"
      by (rule wake_all_cong) (rule keeps_target [OF act_keeps ne], simp)
    moreover have "keeps (insert t (set (filter (due s) bs))) s s'"
      using keeps_trans [OF act_keeps IH(2)] f by simp
    moreover have "post (core (tasks s' t))"
      using keeps_core [OF IH(2), of t] nt act_post [of t s] by simp
    ultimately show ?thesis using IH(1,3,4) True f by (simp add: loop_step nx)
  qed
qed

lemma loop_all:
  assumes "sched_rep {} q s"
  shows "\<exists>s'. loop (lhead (get_list i s)) s = Some s' \<and> keeps (set (filter (due s) (q i))) s s' \<and>
    sched_rep {} (wake_all i (\<lambda>t. target_list t s) (filter (due s) (q i)) q) s' \<and>
    (\<forall>t\<in>set (filter (due s) (q i)). post (core (tasks s' t)))"
  using loop_from [OF assms, of "[]" "q i"] contents_head [OF sched_repD(1) [OF assms] plain_valid [OF plain_list]] by simp

end

lemma enqueue_runnable_post [simp]:
  "state (tasks (scheduler_enqueue_runnable e t reason s) t) = TASK_RUNNABLE"
  "list_kind (tasks (scheduler_enqueue_runnable e t reason s) t) = TASK_LIST_RUNNABLE"
  "wait_result (tasks (scheduler_enqueue_runnable e t reason s) x) = wait_result (tasks s x)"
  "wait_channel (tasks (scheduler_enqueue_runnable e t reason s) x) = wait_channel (tasks s x)"
  "wakeup_tick (tasks (scheduler_enqueue_runnable e t reason s) x) = wakeup_tick (tasks s x)"
  by (cases "x = t"; simp add: scheduler_enqueue_runnable_def scheduler_cpu_enqueue_runnable_def
      scheduler_notify_remote_runnable_def scheduler_cpu_enqueue_runnable_local_def Let_def)+

interpretation sleepers: timer_loop Sleeping_List "\<lambda>s t. wakeup_tick (tasks s t) \<le> system_ticks s" "wake_sleeper e"
    "advance_sleepers e" "\<lambda>x. state x = TASK_RUNNABLE" for e
proof
  show "plain Sleeping_List" by (simp add: plain_def)
  show "advance_sleepers e None s = Some s" for s by (subst advance_sleepers.simps) simp
  show "advance_sleepers e (Some t) s = advance_sleepers e (list_next (tasks s t))
      (if wakeup_tick (tasks s t) \<le> system_ticks s then wake_sleeper e t s else s)" for t s
    by (subst advance_sleepers.simps) (simp only: option.case Let_def)
  show "state (core (tasks (wake_sleeper e t s) t)) = TASK_RUNNABLE" for t s by (simp add: wake_sleeper_def Let_def)
  show "(wakeup_tick (tasks s' x) \<le> system_ticks s') = (wakeup_tick (tasks s x) \<le> system_ticks s)" if "keeps D s s'" "x \<notin> D" for D s s' x
    using keeps_fields(4) [OF that] that(1) by (simp add: keeps_def)
  show "sched_rep {} (move Sleeping_List (target_list t s) t q) (wake_sleeper e t s)" if "sched_rep {} q s" "t \<in> set (q Sleeping_List)" for q s t
    using that by (rule wake_sleeper_rep)
  show "keeps {t} s (wake_sleeper e t s)" for t s by (rule keeps_wake_sleeper)
qed

interpretation waiters: timer_loop Blocked_List "\<lambda>s t. wakeup_tick (tasks s t) \<noteq> 0 \<and> wakeup_tick (tasks s t) \<le> system_ticks s"
    "expire_waiter e" "advance_waiters e" "\<lambda>x. state x = TASK_RUNNABLE \<and> \<not> wait_result x" for e
proof
  show "plain Blocked_List" by (simp add: plain_def)
  show "advance_waiters e None s = Some s" for s by (subst advance_waiters.simps) simp
  show "advance_waiters e (Some t) s = advance_waiters e (list_next (tasks s t))
      (if wakeup_tick (tasks s t) \<noteq> 0 \<and> wakeup_tick (tasks s t) \<le> system_ticks s then expire_waiter e t s else s)" for t s
    by (subst advance_waiters.simps) (simp only: option.case Let_def)
  show "state (core (tasks (expire_waiter e t s) t)) = TASK_RUNNABLE \<and> \<not> wait_result (core (tasks (expire_waiter e t s) t))" for t s
    by (simp add: expire_waiter_def Let_def)
  show "(wakeup_tick (tasks s' x) \<noteq> 0 \<and> wakeup_tick (tasks s' x) \<le> system_ticks s') =
      (wakeup_tick (tasks s x) \<noteq> 0 \<and> wakeup_tick (tasks s x) \<le> system_ticks s)" if "keeps D s s'" "x \<notin> D" for D s s' x
    using keeps_fields(4) [OF that] that(1) by (simp add: keeps_def)
  show "sched_rep {} (move Blocked_List (target_list t s) t q) (expire_waiter e t s)" if "sched_rep {} q s" "t \<in> set (q Blocked_List)" for q s t
    using that by (rule expire_waiter_rep)
  show "keeps {t} s (expire_waiter e t s)" for t s by (rule keeps_expire_waiter)
qed

text \<open>\<open>scheduler_advance_timers\<close> ends, and wakes the sleepers and the waiters whose time has come.\<close>

definition expired_sleepers :: "scheduler \<Rightarrow> nat list \<Rightarrow> nat list" where
  "expired_sleepers s ts = filter (\<lambda>t. wakeup_tick (tasks s t) \<le> system_ticks s) ts"

definition expired_waiters :: "scheduler \<Rightarrow> nat list \<Rightarrow> nat list" where
  "expired_waiters s ts = filter (\<lambda>t. wakeup_tick (tasks s t) \<noteq> 0 \<and> wakeup_tick (tasks s t) \<le> system_ticks s) ts"

lemma disjoint_lists:
  assumes "contents q s" "valid_id i" "valid_id j" "i \<noteq> j"
  shows "set (q i) \<inter> set (q j) = {}"
proof -
  have "x \<notin> set (q j)" if "x \<in> set (q i)" for x
    using contents_mem [OF assms(1,2), of x] contents_mem [OF assms(1,3), of x] assms(4) that by simp
  then show ?thesis by blast
qed

lemma advance_timers_rep:
  assumes r: "sched_rep {} q s"
  shows "\<exists>s'. scheduler_advance_timers e s = Some s' \<and>
    keeps (set (expired_sleepers s (q Sleeping_List)) \<union> set (expired_waiters s (q Blocked_List))) s s' \<and>
    sched_rep {} (wake_all Blocked_List (\<lambda>t. target_list t s) (expired_waiters s (q Blocked_List))
      (wake_all Sleeping_List (\<lambda>t. target_list t s) (expired_sleepers s (q Sleeping_List)) q)) s'"
proof -
  let ?sl = "expired_sleepers s (q Sleeping_List)" let ?q1 = "wake_all Sleeping_List (\<lambda>t. target_list t s) ?sl q"
  obtain s1 where s1: "advance_sleepers e (lhead (sleeping_list s)) s = Some s1" "keeps (set ?sl) s s1" "sched_rep {} ?q1 s1"
    using sleepers.loop_all [OF r, of e] unfolding get_list.simps expired_sleepers_def [symmetric] by (elim exE conjE)
  have b: "?q1 Blocked_List = q Blocked_List"
    by (subst wake_all_to) (simp_all add: plain_def filter_empty_conv)
  have dj: "t \<notin> set ?sl" if "t \<in> set (q Blocked_List)" for t
    using disjoint_lists [OF sched_repD(1) [OF r], of Sleeping_List Blocked_List] that by (auto simp: expired_sleepers_def)
  have w: "expired_waiters s1 (q Blocked_List) = expired_waiters s (q Blocked_List)" unfolding expired_waiters_def
    by (rule filter_cong) (use keeps_fields(4) [OF s1(2) dj] s1(2) in \<open>simp_all add: keeps_def\<close>)
  obtain s2 where s2: "advance_waiters e (lhead (blocked_list s1)) s1 = Some s2"
    "keeps (set (expired_waiters s1 (q Blocked_List))) s1 s2"
    "sched_rep {} (wake_all Blocked_List (\<lambda>t. target_list t s1) (expired_waiters s1 (q Blocked_List)) ?q1) s2"
    using waiters.loop_all [OF s1(3), of e] unfolding get_list.simps b expired_waiters_def [symmetric] by (elim exE conjE)
  have "wake_all Blocked_List (\<lambda>t. target_list t s1) (expired_waiters s (q Blocked_List)) ?q1 =
      wake_all Blocked_List (\<lambda>t. target_list t s) (expired_waiters s (q Blocked_List)) ?q1"
    by (rule wake_all_cong) (use keeps_target [OF s1(2) dj] in \<open>auto simp: expired_waiters_def\<close>)
  then show ?thesis using s1(1) s2 keeps_trans [OF s1(2) s2(2)] by (simp add: scheduler_advance_timers_def w)
qed

text \<open>The loop of \<open>scheduler_wake_channel\<close>: the first \<open>limit\<close> waiters of the channel, in the order they came.\<close>

lemma wake_loop_rep:
  assumes "sched_rep {} q s" "q Blocked_List = as @ bs" "unat woke + length bs < 2 ^ 32" "woke \<le> limit"
  shows "\<exists>s'. wake_loop e ch limit (hd_opt bs) woke s =
      Some (woke + of_nat (length (take (unat (limit - woke)) (filter (\<lambda>t. wait_channel (tasks s t) = ch) bs))), s') \<and>
    keeps (set (take (unat (limit - woke)) (filter (\<lambda>t. wait_channel (tasks s t) = ch) bs))) s s' \<and>
    sched_rep {} (wake_all Blocked_List (\<lambda>t. target_list t s)
      (take (unat (limit - woke)) (filter (\<lambda>t. wait_channel (tasks s t) = ch) bs)) q) s' \<and>
    (\<forall>t\<in>set (take (unat (limit - woke)) (filter (\<lambda>t. wait_channel (tasks s t) = ch) bs)).
       state (tasks s' t) = TASK_RUNNABLE \<and> wait_result (tasks s' t))"
  using assms
proof (induction bs arbitrary: as q s woke)
  case Nil
  then show ?case by (subst wake_loop.simps) simp
next
  case (Cons t bs)
  have v: "valid_id Blocked_List" by simp
  have d: "distinct (q Blocked_List)" by (rule contents_length [OF sched_repD(1) [OF Cons.prems(1)] v])
  have nx: "list_next (tasks s t) = hd_opt bs" by (rule contents_next [OF sched_repD(1) [OF Cons.prems(1)] v Cons.prems(2)])
  show ?case
  proof (cases "woke < limit")
    case False
    then have "limit - woke = 0" using Cons.prems(4) by simp
    then show ?thesis using False Cons.prems(1) by (subst wake_loop.simps) simp
  next
    case lt: True
    show ?thesis
    proof (cases "wait_channel (tasks s t) = ch")
      case False
      then show ?thesis using Cons.IH [OF Cons.prems(1), of "as @ [t]" woke] Cons.prems lt
        by (subst wake_loop.simps) (simp add: nx)
    next
      case True
      let ?q = "move Blocked_List (target_list t s) t q" and ?s = "wake_waiter e t s"
      let ?m = "\<lambda>s. filter (\<lambda>t. wait_channel (tasks s t) = ch) bs"
      have r: "sched_rep {} ?q ?s" using wake_waiter_rep [OF Cons.prems(1), of t] Cons.prems(2) by simp
      have q: "?q Blocked_List = as @ bs" using d Cons.prems(2) by (simp add: remove1_append plain_def)
      have w1: "unat (woke + 1) = unat woke + 1" "woke + 1 \<le> limit" "unat (limit - woke) = Suc (unat (limit - (woke + 1)))"
        using lt Cons.prems(3) unat_of_nat [of 1, where ?'a = 32] by (auto simp: word_less_nat_alt word_le_nat_alt unat_word_ariths unat_sub)
      have nt: "t \<notin> set bs" using d Cons.prems(2) by simp
      have ne: "x \<notin> {t}" if "x \<in> set bs" for x using nt that by auto
      have f: "?m ?s = ?m s" by (rule filter_cong [OF refl]) (simp add: keeps_fields(5) [OF keeps_wake_waiter ne])
      from Cons.IH [OF r q, of "woke + 1"] w1 Cons.prems(3) f obtain s' where
        IH: "wake_loop e ch limit (hd_opt bs) (woke + 1) ?s = Some (woke + 1 + of_nat (length (take (unat (limit - (woke + 1))) (?m s))), s')"
          "keeps (set (take (unat (limit - (woke + 1))) (?m s))) ?s s'"
          "sched_rep {} (wake_all Blocked_List (\<lambda>t. target_list t ?s) (take (unat (limit - (woke + 1))) (?m s)) ?q) s'"
          "\<forall>u\<in>set (take (unat (limit - (woke + 1))) (?m s)). state (tasks s' u) = TASK_RUNNABLE \<and> wait_result (tasks s' u)"
        by auto
      have sub: "set (take (unat (limit - (woke + 1))) (?m s)) \<subseteq> set bs" by (auto dest: in_set_takeD)
      have wa: "wake_all Blocked_List (\<lambda>u. target_list u ?s) (take (unat (limit - (woke + 1))) (?m s)) ?q =
          wake_all Blocked_List (\<lambda>u. target_list u s) (take (unat (limit - (woke + 1))) (?m s)) ?q"
        by (rule wake_all_cong) (rule keeps_target [OF keeps_wake_waiter ne], use sub in blast)
      have kp: "keeps (insert t (set (take (unat (limit - (woke + 1))) (?m s)))) s s'"
        using keeps_trans [OF keeps_wake_waiter IH(2)] by simp
      have "core (tasks s' t) = core (tasks ?s t)" using keeps_core [OF IH(2), of t] nt sub by blast
      then have "state (tasks s' t) = TASK_RUNNABLE" "wait_result (tasks s' t)"
        using core_fields(1,6) [of "tasks s' t"] core_fields(1,6) [of "tasks ?s t"] by (auto simp: wake_waiter_def Let_def)
      then show ?thesis using IH(1,3,4) True lt wa kp by (subst wake_loop.simps) (simp add: nx w1(3) Let_def algebra_simps)
    qed
  qed
qed

section \<open>Blocking\<close>

lemma running_slot:
  assumes r: "sched_rep {} q s" and c: "scheduler_current_task e s = Some t" and run: "state (tasks s t) = TASK_RUNNING"
  shows "t < MAX_THREADS" "list_kind (tasks s t) = TASK_LIST_NONE"
  using current_running [OF r current_cpu_online(1) [OF sched_repD(2) [OF r]], of e t] c run
  by (simp_all add: scheduler_current_task_def)

text \<open>The running task marks itself and goes to the back of a list.\<close>

lemma block_rep:
  assumes r: "sched_rep {} q s" and t: "t < MAX_THREADS" "list_kind (tasks s t) = TASK_LIST_NONE"
    and i: "plain i" and k: "\<And>x. list_kind (g x) = list_kind x" "home ((g (tasks s t))\<lparr>list_kind := k\<rparr>) = Some i"
      "kind_ok ((g (tasks s t))\<lparr>list_kind := k\<rparr>)" "state (g (tasks s t)) \<noteq> TASK_UNUSED"
  shows "sched_rep {} (q(i := q i @ [t])) (push_on i t k (upd_task t g s))"
proof -
  have "sched_rep {t} q (upd_task t g s)" by (rule rep_change [OF rep_take [OF r t]]) (simp_all add: k t)
  then show ?thesis by (rule rep_push) (simp_all add: i k)
qed

lemma sleep_section_rep:
  assumes "sched_rep {} q s" "scheduler_current_task e s = Some t" "state (tasks s t) = TASK_RUNNING"
  shows "sched_rep {} (q(Sleeping_List := q Sleeping_List @ [t])) (sleep_section e ticks s)"
proof -
  have r: "sched_rep {} q (count_event sleep_calls_update s)" by (rule sched_rep_same [OF assms(1)]) simp
  show ?thesis unfolding sleep_section_def assms(2) option.case Let_def
    by (rule block_rep [OF r]) (use running_slot [OF assms] in \<open>simp_all add: plain_def home_def kind_ok_def\<close>)
qed

lemma wait_section_rep:
  assumes "sched_rep {} q s" "scheduler_current_task e s = Some t" "state (tasks s t) = TASK_RUNNING"
  shows "sched_rep {} (q(Blocked_List := q Blocked_List @ [t])) (wait_section e ch timeout s)"
proof -
  have r: "sched_rep {} q (count_event wait_calls_update s)" by (rule sched_rep_same [OF assms(1)]) simp
  show ?thesis unfolding wait_section_def assms(2) option.case Let_def
    by (rule block_rep [OF r]) (use running_slot [OF assms] in \<open>simp_all add: plain_def home_def kind_ok_def\<close>)
qed

lemma exit_section_rep:
  assumes "sched_rep {} q s" "scheduler_current_task e s = Some t" "state (tasks s t) = TASK_RUNNING"
  shows "\<exists>s'. exit_section e s = Some s' \<and> sched_rep {} (q(Zombie_List := q Zombie_List @ [t])) s'"
proof -
  have "sched_rep {} (q(Zombie_List := q Zombie_List @ [t]))
      (push_on Zombie_List t TASK_LIST_ZOMBIE (upd_task t (\<lambda>x. x\<lparr>state := TASK_ZOMBIE\<rparr>) s))"
    by (rule block_rep [OF assms(1)]) (use running_slot [OF assms] in \<open>simp_all add: plain_def home_def kind_ok_def\<close>)
  then show ?thesis unfolding exit_section_def assms(2) option.case using sched_rep_same [OF _ same_rep_globals(5)] by blast
qed

section \<open>Slots\<close>

lemma unused_not_current:
  assumes "currents_ok s" "state (tasks s t) = TASK_UNUSED" "c < MAX_CPUS"
  shows "current (cpus s c) \<noteq> Some t"
  using assms by (auto simp: currents_ok_def)

lemma reset_fields [simp]: "list_kind (task_reset b) = TASK_LIST_NONE" "state (task_reset b) = TASK_UNUSED"
  by (simp_all add: task_reset_def)

lemma allocate_rep:
  assumes r: "sched_rep {} q s"
  shows "q Free_List = [] \<Longrightarrow> scheduler_allocate_task_slot s = (None, s)"
    and "q Free_List = t # ts \<Longrightarrow> \<exists>s'. scheduler_allocate_task_slot s = (Some t, s') \<and> t < MAX_THREADS \<and>
      sched_rep {} (q(Free_List := ts)) s' \<and> keeps {t} s s' \<and> tasks s' t = task_reset (boot_cpu_id s)"
proof -
  note p = pop_from_contents [OF sched_repD(1) [OF r], of Free_List]
  show "scheduler_allocate_task_slot s = (None, s)" if "q Free_List = []"
    using p(1) that by (simp add: scheduler_allocate_task_slot_def)
  assume q: "q Free_List = t # ts"
  let ?s = "remove_from Free_List t s"
  have m: "t < MAX_THREADS" "home (tasks s t) = Some Free_List"
    using contents_mem [OF sched_repD(1) [OF r], of Free_List t] q by simp_all
  then have u: "state (tasks s t) = TASK_UNUSED"
    using sched_repD(6) [OF r m(1)] by (auto simp: kind_ok_def home_def split: task_list_kind.splits)
  have r1: "sched_rep {t} (q(Free_List := ts)) ?s" using rep_remove [OF r, of Free_List t] q by (simp add: plain_def)
  then have "sched_rep {t} (q(Free_List := ts)) (upd_task t (\<lambda>_. task_reset (boot_cpu_id s)) ?s)"
    by (rule rep_change) (use unused_not_current [OF sched_repD(3) [OF r] u] in simp_all)
  then have "sched_rep {} (q(Free_List := ts)) (upd_task t (\<lambda>_. task_reset (boot_cpu_id s)) ?s)"
    by (rule rep_drop) (simp_all add: kind_ok_def)
  moreover have "keeps {t} s (upd_task t (\<lambda>_. task_reset (boot_cpu_id s)) ?s)"
    by (rule keeps_step [OF keeps_lists(2) keeps_upd_task])
  ultimately show "\<exists>s'. scheduler_allocate_task_slot s = (Some t, s') \<and> t < MAX_THREADS \<and>
      sched_rep {} (q(Free_List := ts)) s' \<and> keeps {t} s s' \<and> tasks s' t = task_reset (boot_cpu_id s)"
    using p(2) [OF _ q] m by (simp add: scheduler_allocate_task_slot_def)
qed

lemma release_rep:
  assumes r: "sched_rep {t} q s" and c: "\<And>c. c < MAX_CPUS \<Longrightarrow> current (cpus s c) \<noteq> Some t"
  shows "sched_rep {} (q(Free_List := q Free_List @ [t])) (scheduler_release_task_slot t s)"
proof -
  have "sched_rep {t} q (upd_task t (\<lambda>_. task_reset (boot_cpu_id s)) s)"
    by (rule rep_change [OF r]) (use c in simp_all)
  then show ?thesis unfolding scheduler_release_task_slot_def
    by (rule rep_push) (simp_all add: plain_def home_def kind_ok_def)
qed

lemma keeps_release [simp]: "keeps {t} s (scheduler_release_task_slot t s)"
  unfolding scheduler_release_task_slot_def by (rule keeps_step [OF keeps_upd_task keeps_lists(1)])

text \<open>A slot reserved by an unfinished task creation.\<close>

definition reserved :: "nat \<Rightarrow> scheduler \<Rightarrow> bool" where
  "reserved t s \<longleftrightarrow> t < MAX_THREADS \<and> state (tasks s t) = TASK_UNUSED \<and> list_kind (tasks s t) = TASK_LIST_NONE"

lemma release_reserved_rep:
  assumes "sched_rep {} q s" "reserved t s"
  shows "sched_rep {} (q(Free_List := q Free_List @ [t])) (scheduler_release_task_slot t s)"
  by (rule release_rep [OF rep_take [OF assms(1)]])
    (use assms(2) unused_not_current [OF sched_repD(3) [OF assms(1)]] in \<open>auto simp: reserved_def\<close>)

section \<open>Reaping\<close>

lemma is_current_iff:
  assumes "cpus_ok s" "currents_ok s"
  shows "scheduler_task_is_current_on_any_cpu_locked t s \<longleftrightarrow> (\<exists>c<MAX_CPUS. current (cpus s c) = Some t)"
  using cpus_okD(1,7) [OF assms(1)] assms(2)
  by (auto simp: scheduler_task_is_current_on_any_cpu_locked_def list_ex_iff currents_ok_def Bex_def; force)

definition reaped_resources :: "scheduler \<Rightarrow> nat \<Rightarrow> scheduler_reap_resources" where
  "reaped_resources s t = \<lparr>res_stack_base = stack_base (tasks s t), res_space = space (tasks s t)\<rparr>"

lemma zombie_slot:
  assumes r: "sched_rep {} q s" and t: "t < MAX_THREADS"
  shows "t \<in> set (q Zombie_List) \<longleftrightarrow> state (tasks s t) = TASK_ZOMBIE"
    and "t \<in> set (q Zombie_List) \<longleftrightarrow> list_kind (tasks s t) = TASK_LIST_ZOMBIE"
  using contents_mem [OF sched_repD(1) [OF r], of Zombie_List t] t sched_repD(6) [OF r t]
  by (auto simp: home_def kind_ok_def split: task_list_kind.splits)

lemma detach_rep:
  assumes r: "sched_rep {} q s" and t: "t \<in> set (q Zombie_List)"
  shows "scheduler_task_is_current_on_any_cpu_locked t s \<Longrightarrow> scheduler_detach_zombie_task_locked t s = (None, s)"
    and "\<not> scheduler_task_is_current_on_any_cpu_locked t s \<Longrightarrow>
      \<exists>s'. scheduler_detach_zombie_task_locked t s = (Some (reaped_resources s t), s') \<and> keeps {t} s s' \<and>
        sched_rep {} (move Zombie_List Free_List t q) s'"
proof -
  have m: "t < MAX_THREADS" using contents_mem [OF sched_repD(1) [OF r]] t by simp
  have z: "state (tasks s t) = TASK_ZOMBIE" "list_kind (tasks s t) = TASK_LIST_ZOMBIE" using zombie_slot [OF r m] t by simp_all
  show "scheduler_detach_zombie_task_locked t s = (None, s)" if "scheduler_task_is_current_on_any_cpu_locked t s"
    using that by (simp add: scheduler_detach_zombie_task_locked_def)
  assume n: "\<not> scheduler_task_is_current_on_any_cpu_locked t s"
  let ?s1 = "remove_from Zombie_List t s" let ?s2 = "upd_task t (\<lambda>x. x\<lparr>stack_base := 0, space := 0\<rparr>) ?s1"
  have c: "current (cpus s c) \<noteq> Some t" if "c < MAX_CPUS" for c
    using n that is_current_iff [OF sched_repD(2,3) [OF r]] by blast
  have "sched_rep {t} (q(Zombie_List := remove1 t (q Zombie_List))) ?s1" by (rule rep_remove [OF r]) (use t in \<open>simp_all add: plain_def\<close>)
  then have "sched_rep {t} (q(Zombie_List := remove1 t (q Zombie_List))) ?s2" by (rule rep_change) (simp_all add: z)
  from release_rep [OF this] have "sched_rep {} (move Zombie_List Free_List t q) (scheduler_release_task_slot t ?s2)"
    using c by (simp add: move_def Let_def)
  moreover have "keeps {t} s (scheduler_release_task_slot t ?s2)"
    by (rule keeps_step [OF keeps_step [OF keeps_lists(2) keeps_upd_task] keeps_release])
  ultimately show "\<exists>s'. scheduler_detach_zombie_task_locked t s = (Some (reaped_resources s t), s') \<and> keeps {t} s s' \<and>
      sched_rep {} (move Zombie_List Free_List t q) s'"
    using n z by (simp add: scheduler_detach_zombie_task_locked_def Let_def reaped_resources_def)
qed

text \<open>The zombies that may go: no CPU is still on their stack.\<close>

definition reapable :: "scheduler \<Rightarrow> nat list \<Rightarrow> nat list" where
  "reapable s ts = filter (\<lambda>t. \<not> scheduler_task_is_current_on_any_cpu_locked t s) ts"

lemma reap_scan_rep:
  assumes "sched_rep {} q s" "q Zombie_List = as @ bs"
  shows "reapable s bs = [] \<Longrightarrow> reap_scan (hd_opt bs) s = Some (None, s)"
    and "reapable s bs = t # ts \<Longrightarrow> \<exists>s'. reap_scan (hd_opt bs) s = Some (Some (reaped_resources s t), s') \<and> keeps {t} s s' \<and>
      sched_rep {} (move Zombie_List Free_List t q) s'"
proof -
  have "(reapable s bs = [] \<longrightarrow> reap_scan (hd_opt bs) s = Some (None, s)) \<and>
     (\<forall>t ts. reapable s bs = t # ts \<longrightarrow> (\<exists>s'. reap_scan (hd_opt bs) s = Some (Some (reaped_resources s t), s') \<and> keeps {t} s s' \<and>
      sched_rep {} (move Zombie_List Free_List t q) s'))"
    using assms(2)
  proof (induction bs arbitrary: as)
    case Nil
    show ?case by (subst reap_scan.simps) (simp add: reapable_def)
  next
    case (Cons x bs)
    have nx: "list_next (tasks s x) = hd_opt bs" by (rule contents_next [OF sched_repD(1) [OF assms(1)] _ Cons.prems]) simp
    have x: "x \<in> set (q Zombie_List)" using Cons.prems by simp
    show ?case
    proof (cases "scheduler_task_is_current_on_any_cpu_locked x s")
      case True
      then have "reap_scan (Some x) s = reap_scan (hd_opt bs) s"
        using detach_rep(1) [OF assms(1) x] by (subst reap_scan.simps) (simp add: nx)
      then show ?thesis using Cons.IH [of "as @ [x]"] Cons.prems True by (simp add: reapable_def)
    next
      case False
      from detach_rep(2) [OF assms(1) x this] obtain s' where
        d: "scheduler_detach_zombie_task_locked x s = (Some (reaped_resources s x), s')" "keeps {x} s s'"
        "sched_rep {} (move Zombie_List Free_List x q) s'" by blast
      have "reap_scan (Some x) s = Some (Some (reaped_resources s x), s')" by (subst reap_scan.simps) (simp add: d(1) Let_def)
      then show ?thesis using False d by (simp add: reapable_def)
    qed
  qed
  then show "reapable s bs = [] \<Longrightarrow> reap_scan (hd_opt bs) s = Some (None, s)"
    and "reapable s bs = t # ts \<Longrightarrow> \<exists>s'. reap_scan (hd_opt bs) s = Some (Some (reaped_resources s t), s') \<and> keeps {t} s s' \<and>
      sched_rep {} (move Zombie_List Free_List t q) s'" by blast+
qed

lemma keeps_is_current: "keeps D s s' \<Longrightarrow> scheduler_task_is_current_on_any_cpu_locked t s' = scheduler_task_is_current_on_any_cpu_locked t s"
  by (simp add: keeps_def scheduler_task_is_current_on_any_cpu_locked_def)

lemma reap_loop_rep:
  assumes "sched_rep {} q s" "unat k \<le> unat limit"
  shows "\<exists>s'. reap_loop limit k rs s = Some (k + of_nat (length (take (unat (limit - k)) (reapable s (q Zombie_List)))),
        rs @ map (reaped_resources s) (take (unat (limit - k)) (reapable s (q Zombie_List))), s') \<and>
      sched_rep {} (wake_all Zombie_List (\<lambda>_. Free_List) (take (unat (limit - k)) (reapable s (q Zombie_List))) q) s'"
  using assms
proof (induction "length (reapable s (q Zombie_List))" arbitrary: q s k rs)
  case 0
  have h: "lhead (zombie_list s) = hd_opt (q Zombie_List)"
    using contents_head [OF sched_repD(1) [OF "0.prems"(1)], of Zombie_List] by simp
  have "reap_scan (hd_opt (q Zombie_List)) s = Some (None, s)"
    by (rule reap_scan_rep(1) [OF "0.prems"(1), of "[]"]) (use 0 in simp_all)
  then have "reap_loop limit k rs s = Some (k, rs, s)" by (subst reap_loop.simps) (simp add: h)
  then show ?case using 0 by simp
next
  case (Suc n)
  then obtain t ts where t: "reapable s (q Zombie_List) = t # ts" by (cases "reapable s (q Zombie_List)") auto
  have h: "lhead (zombie_list s) = hd_opt (q Zombie_List)"
    using contents_head [OF sched_repD(1) [OF Suc.prems(1)], of Zombie_List] by simp
  show ?case
  proof (cases "k < limit")
    case False
    then have "limit = k" using Suc.prems(2) by (simp add: word_less_nat_alt word_unat_eq_iff)
    then have "limit - k = 0" by simp
    moreover have "reap_loop limit k rs s = Some (k, rs, s)" using False by (subst reap_loop.simps) simp
    ultimately show ?thesis using Suc.prems(1) by simp
  next
    case True
    from reap_scan_rep(2) [OF Suc.prems(1), of "[]" _ t ts] t obtain s1 where
      s1: "reap_scan (hd_opt (q Zombie_List)) s = Some (Some (reaped_resources s t), s1)" "keeps {t} s s1"
        "sched_rep {} (move Zombie_List Free_List t q) s1" by auto
    let ?q = "move Zombie_List Free_List t q"
    have d: "distinct (q Zombie_List)" by (rule contents_length [OF sched_repD(1) [OF Suc.prems(1)]]) simp
    have "reapable s1 (?q Zombie_List) = remove1 t (reapable s (q Zombie_List))"
      using d by (simp add: reapable_def keeps_is_current [OF s1(2)] move_def Let_def filter_remove1)
    then have ts: "reapable s1 (?q Zombie_List) = ts" by (simp add: t)
    have w: "unat (k + 1) = unat k + 1" "unat (limit - k) = Suc (unat (limit - (k + 1)))" "unat (k + 1) \<le> unat limit"
      using True unat_u32_less [of limit] by (auto simp: word_less_nat_alt unat_word_ariths unat_sub word_le_nat_alt)
    have nt: "t \<notin> set ts" using d t distinct_filter [of "q Zombie_List"] by (metis distinct.simps(2) reapable_def)
    have res: "map (reaped_resources s1) (take m ts) = map (reaped_resources s) (take m ts)" for m
    proof (rule map_cong [OF refl])
      fix x assume "x \<in> set (take m ts)"
      then have "core (tasks s1 x) = core (tasks s x)" using keeps_core [OF s1(2), of x] nt by (auto dest: in_set_takeD)
      then show "reaped_resources s1 x = reaped_resources s x"
        unfolding reaped_resources_def using core_fields(12,14) by metis
    qed
    have st: "reap_loop limit k rs s = reap_loop limit (k + 1) (rs @ [reaped_resources s t]) s1"
      using True by (subst reap_loop.simps) (simp add: h s1(1))
    from Suc.hyps(1) [of s1 ?q "k + 1" "rs @ [reaped_resources s t]", OF _ s1(3) w(3)] Suc.hyps(2) show ?thesis
      by (simp add: st t ts res w(2) add.assoc)
  qed
qed

end
