(* ===== verification/Sched_Calls.thy ===== *)
theory Sched_Calls
  imports Sched_Walks
begin

text \<open>
  Creation, bootstrap, priorities, the placement policy and the load balancer.
\<close>

section \<open>Creation\<close>

lemma create_commit_rep:
  assumes r: "sched_rep {} q s" and t: "reserved t s"
  shows "\<exists>i. \<not> plain i \<and> valid_id i \<and> state (tasks (create_commit e eff t name lit entry arg sp stack s) t) = TASK_RUNNABLE \<and>
    sched_rep {} (q(i := q i @ [t])) (create_commit e eff t name lit entry arg sp stack s)"
proof -
  define c where "c = scheduler_cpu_by_id (scheduler_select_target_cpu e (cfg_affinity eff) (cfg_node eff) s) s"
  define g where "g = (\<lambda>x. x\<lparr>task_id := next_task_id s, task_name := (if name \<noteq> 0 then name else lit), state := TASK_RUNNABLE,
            priority := cfg_priority eff, cpu_affinity_mask := cfg_affinity eff,
            preferred_numa_node := cfg_node eff, assigned_cpu := cpu_id (cpus s c),
            assigned_numa_node := numa_node (cpus s c), frame := stack + TASK_STACK_SIZE - 52,
            stack_base := stack, kernel_stack_top := stack + TASK_STACK_SIZE, wakeup_tick := 0,
            runnable_enqueue_tick := 0, task_entry := entry, task_arg := arg, space := sp,
            ticks_in_slice := 0, wait_channel := 0, wait_result := False\<rparr> :: task)"
  let ?s1 = "s\<lparr>next_task_id := next_task_id s + 1\<rparr>" let ?s2 = "upd_task t g ?s1"
  have e: "create_commit e eff t name lit entry arg sp stack s =
      count_event task_creations_update (scheduler_cpu_enqueue_runnable e c t REASON_RESCHEDULE ?s2)"
    by (simp add: create_commit_def Let_def c_def g_def)
  have "sched_rep {} q ?s1" by (rule sched_rep_same [OF r]) simp
  then have "sched_rep {t} q ?s1" by (rule rep_take) (use t in \<open>simp_all add: reserved_def\<close>)
  then have r2: "sched_rep {t} q ?s2" by (rule rep_change) (use t in \<open>simp_all add: g_def reserved_def\<close>)
  let ?i = "Runnable_List c (unat (scheduler_priority_sanitize (priority (tasks ?s2 t))))"
  have on: "c < MAX_CPUS" "online (cpus ?s2 c)" using cpu_by_id_online [OF sched_repD(2) [OF r]] by (simp_all add: c_def)
  from enqueue_rep [OF r2 on refl, of e REASON_RESCHEDULE]
  have "sched_rep {} (q(?i := q ?i @ [t])) (create_commit e eff t name lit entry arg sp stack s)"
    unfolding e by (rule sched_rep_same [OF _ same_rep_globals(5)])
  moreover have "\<not> plain ?i" "valid_id ?i" using on by (simp_all add: plain_def)
  ultimately show ?thesis unfolding e by (intro exI [of _ ?i]) simp
qed

lemma create_reserve_rep:
  assumes r: "sched_rep {} q s" and c: "create_reserve e cfg s = (Some (eff, node, t), s')"
  shows "\<exists>ts. q Free_List = t # ts \<and> sched_rep {} (q(Free_List := ts)) s' \<and> reserved t s' \<and> keeps {t} s s'"
proof -
  obtain u s1 where a: "scheduler_allocate_task_slot s = (Some u, s1)" "u = t" "s1 = s'"
    using c by (auto simp: create_reserve_def Let_def split: if_splits prod.splits option.splits)
  then obtain ts where q: "q Free_List = t # ts"
    using allocate_rep(1) [OF r] allocate_rep(2) [OF r] by (cases "q Free_List") auto
  then show ?thesis using allocate_rep(2) [OF r q] a by (auto simp: reserved_def)
qed

lemma create_reserve_None:
  assumes r: "sched_rep {} q s" and c: "create_reserve e cfg s = (None, s')"
  shows "q Free_List = [] \<and> s' = s"
proof -
  have "configured_cpu_count s \<noteq> 0" using cpus_okD(3) [OF sched_repD(2) [OF r]] .
  then have "fst (scheduler_allocate_task_slot s) = None \<and> s' = snd (scheduler_allocate_task_slot s)"
    using c by (auto simp: create_reserve_def Let_def split: if_splits prod.splits option.splits)
  then show ?thesis using allocate_rep(1) [OF r] allocate_rep(2) [OF r] by (cases "q Free_List") fastforce+
qed

text \<open>Attaching the boot context of a CPU as its running task.\<close>

lemma bootstrap_cpu_rep:
  assumes r: "sched_rep {} q s" and b: "scheduler_bootstrap_cpu_task i stk name lit ks s = (x, s')"
  shows "\<exists>q'. sched_rep {} q' s' \<and> (x = None \<longrightarrow> s' = s) \<and>
    (\<forall>t. x = Some t \<longrightarrow> t < MAX_THREADS \<and> state (tasks s' t) = TASK_RUNNING \<and> list_kind (tasks s' t) = TASK_LIST_NONE \<and>
       current (cpus s' (unat i)) = Some t \<and> unat i < MAX_CPUS)"
proof (cases "configured_cpu_count s = 0 \<or> i \<ge> configured_cpu_count s \<or> \<not> online (cpus s (unat i)) \<or> current (cpus s (unat i)) \<noteq> None")
  case True
  then have "x = None" "s' = s" using b by (auto simp: scheduler_bootstrap_cpu_task_def split: if_splits)
  then show ?thesis using r by auto
next
  case False
  then have c: "unat i < MAX_CPUS" "online (cpus s (unat i))" "current (cpus s (unat i)) = None"
    using cpus_okD(1) [OF sched_repD(2) [OF r]] by (auto simp: word_le_nat_alt)
  show ?thesis
  proof (cases "q Free_List")
    case Nil
    then have "x = None" "s' = s" using b False allocate_rep(1) [OF r] by (auto simp: scheduler_bootstrap_cpu_task_def)
    then show ?thesis using r by auto
  next
    case (Cons t ts)
    from allocate_rep(2) [OF r Cons] obtain s1 where a: "scheduler_allocate_task_slot s = (Some t, s1)" "t < MAX_THREADS"
      "sched_rep {} (q(Free_List := ts)) s1" "keeps {t} s s1" "tasks s1 t = task_reset (boot_cpu_id s)" by blast
    obtain g where s': "x = Some t" "s' = upd_cpu (unat i) (\<lambda>x. x\<lparr>current := Some t\<rparr>) (upd_task t g (s1\<lparr>next_task_id := next_task_id s1 + 1\<rparr>))"
      and g: "\<And>x. state (g x) = TASK_RUNNING" "\<And>x. list_kind (g x) = list_kind x"
      using b False c a(1) by (auto simp: scheduler_bootstrap_cpu_task_def Let_def)
    have "sched_rep {} (q(Free_List := ts)) (s1\<lparr>next_task_id := next_task_id s1 + 1\<rparr>)" by (rule sched_rep_same [OF a(3)]) simp
    then have "sched_rep {t} (q(Free_List := ts)) (s1\<lparr>next_task_id := next_task_id s1 + 1\<rparr>)" by (rule rep_take) (simp_all add: a)
    then have "sched_rep {t} (q(Free_List := ts)) (upd_task t g (s1\<lparr>next_task_id := next_task_id s1 + 1\<rparr>))"
      by (rule rep_change) (simp_all add: g a)
    then have "sched_rep {} (q(Free_List := ts)) s'" unfolding s'
      by (rule rep_switch) (use c a(4) in \<open>simp_all add: g keeps_def\<close>)
    then show ?thesis using s' c a by (intro exI [of _ "q(Free_List := ts)"]) (simp add: g)
  qed
qed

section \<open>Priorities\<close>

lemma runnable_slot:
  assumes r: "sched_rep {} q s" and t: "t < MAX_THREADS" "state (tasks s t) = TASK_RUNNABLE"
  shows "list_kind (tasks s t) = TASK_LIST_RUNNABLE" "unat (assigned_cpu (tasks s t)) < MAX_CPUS"
    "priority (tasks s t) < 5" "scheduler_cpu_by_id (assigned_cpu (tasks s t)) s = unat (assigned_cpu (tasks s t))"
    "t \<in> set (q (Runnable_List (unat (assigned_cpu (tasks s t))) (unat (priority (tasks s t)))))"
    "online (cpus s (unat (assigned_cpu (tasks s t))))"
proof -
  show k: "list_kind (tasks s t) = TASK_LIST_RUNNABLE"
    using sched_repD(6) [OF r t(1)] t(2) by (simp add: kind_ok_def split: task_list_kind.splits)
  with sched_repD(7) [OF r t(1)] show a: "unat (assigned_cpu (tasks s t)) < MAX_CPUS" and p: "priority (tasks s t) < 5"
    and o: "online (cpus s (unat (assigned_cpu (tasks s t))))" by (simp_all add: placed_def)
  have "unat (priority (tasks s t)) < 5" using p by (simp add: word_less_nat_alt)
  then show "t \<in> set (q (Runnable_List (unat (assigned_cpu (tasks s t))) (unat (priority (tasks s t)))))"
    using contents_mem [OF sched_repD(1) [OF r], of "Runnable_List (unat (assigned_cpu (tasks s t))) (unat (priority (tasks s t)))" t] a t k
    by (simp add: home_def)
  show "scheduler_cpu_by_id (assigned_cpu (tasks s t)) s = unat (assigned_cpu (tasks s t))"
    using cpus_okD(7) [OF sched_repD(2) [OF r] a o] o by (simp add: scheduler_cpu_by_id_def word_le_nat_alt)
qed

lemma rep_priority:
  assumes r: "sched_rep {} q s" and k: "list_kind (tasks s t) \<noteq> TASK_LIST_RUNNABLE"
  shows "sched_rep {} q (upd_task t (\<lambda>x. x\<lparr>priority := p\<rparr>) s)"
proof -
  let ?s = "upd_task t (\<lambda>x. x\<lparr>priority := p\<rparr>) s"
  have e: "list_prev (tasks ?s x) = list_prev (tasks s x)" "list_next (tasks ?s x) = list_next (tasks s x)"
    "state (tasks ?s x) = state (tasks s x)" "list_kind (tasks ?s x) = list_kind (tasks s x)" for x by (cases "x = t"; simp)+
  have h: "home (tasks ?s x) = home (tasks s x)" "placed ?s x = placed s x" "kind_ok (tasks ?s x) = kind_ok (tasks s x)" for x
    using k by (cases "x = t"; simp add: home_def placed_def kind_ok_def split: task_list_kind.splits)+
  have "contents q ?s" by (rule contents_cong [OF sched_repD(1) [OF r]]) (simp_all add: e h)
  moreover have "cpus_ok ?s" "currents_ok ?s" using sched_repD(2,3) [OF r] by (simp_all add: cpus_ok_def currents_ok_def e)
  ultimately show ?thesis using r by (simp add: sched_rep_def e h)
qed

lemma set_priority_rep:
  assumes r: "sched_rep {} q s" and x: "scheduler_set_task_priority e i p s = (b, s')"
  shows "\<exists>q'. sched_rep {} q' s'"
proof (cases "scheduler_find_task_by_id i s")
  case None
  then show ?thesis using r x by (auto simp: scheduler_set_task_priority_def)
next
  case (Some t)
  then have t: "t < MAX_THREADS" "state (tasks s t) \<noteq> TASK_UNUSED"
    by (auto simp: scheduler_find_task_by_id_def find_Some_iff)
  let ?p = "scheduler_priority_sanitize p"
  have fin: "sched_rep {} q' (count_event priority_updates_update
      (if state (tasks u t) = TASK_RUNNING then upd_task t (\<lambda>x. x\<lparr>ticks_in_slice := 0\<rparr>) u else u))" if "sched_rep {} q' u" for q' u
    by (rule sched_rep_same [OF _ same_rep_globals(5)]) (simp add: that sched_rep_same [OF that same_rep_upd_task])
  show ?thesis
  proof (cases "priority (tasks s t) = ?p")
    case True
    then show ?thesis using r x Some by (auto simp: scheduler_set_task_priority_def)
  next
    case ne: False
    show ?thesis
    proof (cases "state (tasks s t) = TASK_RUNNABLE")
      case True
      note sl = runnable_slot [OF r t(1) True]
      let ?l = "Runnable_List (unat (assigned_cpu (tasks s t))) (unat (priority (tasks s t)))"
      let ?s1 = "scheduler_remove_runnable t s" let ?s2 = "upd_task t (\<lambda>x. x\<lparr>priority := ?p\<rparr>) ?s1"
      have "sched_rep {t} (q(?l := remove1 t (q ?l))) ?s1"
        using dequeue_rep [OF r sl(2) _ sl(5)] sl(1,3,4) True
        by (simp add: scheduler_remove_runnable_def Let_def sanitize_id word_less_nat_alt)
      moreover have st: "state (tasks ?s1 t) = TASK_RUNNABLE" using True sl by (simp add: scheduler_remove_runnable_def Let_def)
      ultimately have "sched_rep {t} (q(?l := remove1 t (q ?l))) ?s2"
        by (intro rep_change) (simp_all add: sched_repD(5))
      note r3 = enqueue_runnable_rep [OF this refl, of e REASON_RESCHEDULE]
      have "s' = count_event priority_updates_update (if state (tasks (scheduler_enqueue_runnable e t REASON_RESCHEDULE ?s2) t) = TASK_RUNNING
          then upd_task t (\<lambda>x. x\<lparr>ticks_in_slice := 0\<rparr>) (scheduler_enqueue_runnable e t REASON_RESCHEDULE ?s2)
          else scheduler_enqueue_runnable e t REASON_RESCHEDULE ?s2)"
        using x Some ne True sl(1) st by (simp add: scheduler_set_task_priority_def Let_def)
      then show ?thesis using fin [OF r3] by (simp only:) blast
    next
      case False
      then have "list_kind (tasks s t) \<noteq> TASK_LIST_RUNNABLE" using sched_repD(6) [OF r t(1)] by (auto simp: kind_ok_def)
      note r3 = rep_priority [OF r this, of ?p]
      have "s' = count_event priority_updates_update (if state (tasks (upd_task t (\<lambda>x. x\<lparr>priority := ?p\<rparr>) s) t) = TASK_RUNNING
          then upd_task t (\<lambda>x. x\<lparr>ticks_in_slice := 0\<rparr>) (upd_task t (\<lambda>x. x\<lparr>priority := ?p\<rparr>) s)
          else upd_task t (\<lambda>x. x\<lparr>priority := ?p\<rparr>) s)"
        using x Some ne False by (simp add: scheduler_set_task_priority_def Let_def split: if_splits)
      then show ?thesis using fin [OF r3] by (simp only:) blast
    qed
  qed
qed

section \<open>Migration\<close>

text \<open>A migration moves the task to the same priority level of an online CPU in its affinity mask.\<close>

lemma migrate_rep:
  assumes r: "sched_rep {} q s" and m: "scheduler_migrate_runnable_task e src tgt t notify s = (True, s')"
    and c: "src < MAX_CPUS" "tgt < MAX_CPUS" "t < MAX_THREADS"
  shows "sched_rep {} (move (Runnable_List src (unat (priority (tasks s t)))) (Runnable_List tgt (unat (priority (tasks s t)))) t q) s'"
    and "unat (assigned_cpu (tasks s t)) = src" "online (cpus s tgt)" "src \<noteq> tgt"
    and "cpu_affinity_mask (tasks s t) AND push_bit tgt 1 \<noteq> 0"
proof -
  have g: "src \<noteq> tgt" "online (cpus s src)" "online (cpus s tgt)" "state (tasks s t) = TASK_RUNNABLE"
    "assigned_cpu (tasks s t) = cpu_id (cpus s src)" "cpu_affinity_mask (tasks s t) AND push_bit (unat (cpu_id (cpus s tgt))) 1 \<noteq> 0"
    using m by (auto simp: scheduler_migrate_runnable_task_def split: if_splits)
  have id: "unat (cpu_id (cpus s c)) = c" if "c < MAX_CPUS" for c using cpus_okD(6) [OF sched_repD(2) [OF r] that] .
  show a: "unat (assigned_cpu (tasks s t)) = src" using g(5) id c by simp
  show "online (cpus s tgt)" "src \<noteq> tgt" "cpu_affinity_mask (tasks s t) AND push_bit tgt 1 \<noteq> 0" using g id c by simp_all
  note sl = runnable_slot [OF r c(3) g(4), unfolded a]
  let ?p = "unat (priority (tasks s t))" let ?l = "Runnable_List src ?p"
  let ?s1 = "decrement_runnable src (remove_from ?l t s)"
  have sp: "scheduler_priority_sanitize (priority (tasks s t)) = priority (tasks s t)" using sanitize_id [OF sl(3)] .
  have r1: "sched_rep {t} (q(?l := remove1 t (q ?l))) ?s1"
    using dequeue_rep [OF r c(1) _ sl(5)] sl(3) by (simp add: word_less_nat_alt)
  have i: "Runnable_List tgt ?p = Runnable_List tgt (unat (scheduler_priority_sanitize (priority (tasks ?s1 t))))" by (simp add: sp)
  let ?q = "move ?l (Runnable_List tgt ?p) t q"
  have "sched_rep {} ?q (if notify then scheduler_cpu_enqueue_runnable e tgt t REASON_RESCHEDULE ?s1 else scheduler_cpu_enqueue_runnable_local tgt t ?s1)"
    using enqueue_rep [OF r1 c(2) _ i, of e REASON_RESCHEDULE] enqueue_local_rep [OF r1 c(2) _ i] g(3) by (simp add: move_def Let_def)
  then show "sched_rep {} ?q s'"
    using m g sl(1) sp sched_rep_same [OF _ same_rep_globals(5)]
    by (auto simp: scheduler_migrate_runnable_task_def Let_def split: if_splits)
qed

section \<open>Placement\<close>

lemma and_push_bit: "(x :: u32) AND push_bit n 1 = 0 \<longleftrightarrow> \<not> bit x n"
  by (simp add: push_bit_eq_mult and_exp_eq_0_iff_not_bit)

lemma bit_cpu_mask: "bit (cpu_mask n up) c \<longleftrightarrow> c < n \<and> c < 32 \<and> up c"
proof (induction n)
  case (Suc n)
  have "bit (2 ^ n :: u32) c \<longleftrightarrow> c = n \<and> c < 32" by (auto simp: bit_exp_iff)
  then show ?case using Suc by (auto simp: cpu_mask_def bit_or_iff less_Suc_eq)
qed (simp add: cpu_mask_def)

text \<open>The CPUs a pass considers, and what it picks among them: the least loaded, on a tie the local one, else the
  lowest number.\<close>

definition pass_set :: "bool \<Rightarrow> nat \<Rightarrow> (nat \<Rightarrow> u8) \<Rightarrow> u32 \<Rightarrow> u8 \<Rightarrow> nat set" where
  "pass_set enforce n cpu_to_node normalized preferred =
     {c. c < n \<and> bit normalized c \<and> (enforce \<longrightarrow> cpu_to_node c = preferred)}"

definition best_of :: "nat set \<Rightarrow> (nat \<Rightarrow> u32) \<Rightarrow> nat \<Rightarrow> nat \<Rightarrow> bool" where
  "best_of E cpu_load local_cpu r \<longleftrightarrow> r \<in> E \<and> (\<forall>c\<in>E. cpu_load r \<le> cpu_load c) \<and>
     (if local_cpu \<in> E \<and> cpu_load local_cpu = cpu_load r then r = local_cpu
      else \<forall>c\<in>E. cpu_load c = cpu_load r \<longrightarrow> r \<le> c)"

lemma best_of_insert:
  assumes b: "best_of E cpu_load lc r" and n: "\<And>c. c \<in> E \<Longrightarrow> c < n"
  shows "best_of (insert n E) cpu_load lc
     (if cpu_load n < cpu_load r \<or> cpu_load n = cpu_load r \<and> n = lc \<and> r \<noteq> lc then n else r)"
proof -
  have rn: "r < n" "r \<in> E" and le: "\<And>c. c \<in> E \<Longrightarrow> cpu_load r \<le> cpu_load c" using b n by (auto simp: best_of_def)
  have ne: "n \<notin> E" using n by blast
  consider "cpu_load n < cpu_load r" | "cpu_load n = cpu_load r" | "cpu_load r < cpu_load n" by (rule linorder_cases)
  then show ?thesis
  proof cases
    case 1
    have lt: "cpu_load n < cpu_load c" if "c \<in> E" for c using 1 le [OF that] by (rule less_le_trans)
    have le': "cpu_load n \<le> cpu_load c" if "c \<in> insert n E" for c using lt [of c] that by (cases "c = n") simp_all
    have eq: "c = n" if "c \<in> insert n E" "cpu_load c = cpu_load n" for c using lt [of c] that by (cases "c = n") auto
    have "best_of (insert n E) cpu_load lc n" unfolding best_of_def using le' eq [of lc] eq by (auto dest!: eq)
    then show ?thesis using 1 by simp
  next
    case 2
    have le': "cpu_load r \<le> cpu_load c" if "c \<in> insert n E" for c using le [of c] that 2 by (cases "c = n") simp_all
    have r': "r \<le> c" if "c \<in> insert n E" "cpu_load c = cpu_load r" "\<not> (lc \<in> E \<and> cpu_load lc = cpu_load r)" for c
      using b that rn by (cases "c = n") (simp_all add: best_of_def)
    show ?thesis
    proof (cases "n = lc \<and> r \<noteq> lc")
      case True
      then show ?thesis using 2 le' by (simp add: best_of_def)
    next
      case False
      then have "lc \<in> insert n E \<and> cpu_load lc = cpu_load r \<Longrightarrow> r = lc" using b by (auto simp: best_of_def)
      then have "best_of (insert n E) cpu_load lc r" unfolding best_of_def using rn(2) le' r' by simp
      then show ?thesis using 2 False by auto
    qed
  next
    case 3
    have le': "cpu_load r \<le> cpu_load c" if "c \<in> insert n E" for c using le [of c] that 3 by (cases "c = n") simp_all
    have iff: "(lc \<in> insert n E \<and> cpu_load lc = cpu_load r) = (lc \<in> E \<and> cpu_load lc = cpu_load r)" using 3 by auto
    have r': "r \<le> c" if "c \<in> insert n E" "cpu_load c = cpu_load r" "\<not> (lc \<in> E \<and> cpu_load lc = cpu_load r)" for c
      using b that 3 by (cases "c = n") (simp_all add: best_of_def)
    have "best_of (insert n E) cpu_load lc r" unfolding best_of_def iff using b le' r' by (simp add: best_of_def)
    moreover have "\<not> cpu_load n < cpu_load r" "cpu_load n \<noteq> cpu_load r" using 3 by auto
    ultimately show ?thesis by simp
  qed
qed

lemma consider_cpu_eq:
  "consider_cpu enforce nd cpu_load norm pref lc cpu (b, l) =
    (if \<not> bit norm cpu \<or> (enforce \<and> nd cpu \<noteq> pref) then (b, l)
     else if b = 255 \<or> cpu_load cpu < l then (of_nat cpu, cpu_load cpu)
     else if cpu_load cpu = l \<and> (cpu = unat lc \<and> b \<noteq> lc \<or> b \<noteq> lc \<and> cpu < unat b) then (of_nat cpu, l)
     else (b, l))"
  by (cases "enforce \<and> nd cpu \<noteq> pref") (auto simp: consider_cpu_def and_exp_eq_0_iff_not_bit)

lemma select_pass_spec:
  assumes "n < 255"
  shows "(\<lambda>(b, l). if pass_set enforce n nd norm pref = {} then b = 255 \<and> l = UINT_MAX
      else b \<noteq> 255 \<and> l = cpu_load (unat b) \<and> best_of (pass_set enforce n nd norm pref) cpu_load (unat lc) (unat b))
    (fold (consider_cpu enforce nd cpu_load norm pref lc) [0..<n] (255, UINT_MAX))"
  using assms
proof (induction n)
  case 0
  show ?case by (simp add: pass_set_def)
next
  case (Suc n)
  obtain b l where f: "fold (consider_cpu enforce nd cpu_load norm pref lc) [0..<n] (255, UINT_MAX) = (b, l)" by fastforce
  let ?E = "pass_set enforce n nd norm pref"
  have un: "unat (of_nat n :: u8) = n" "(of_nat n :: u8) \<noteq> 255"
    using Suc.prems by (simp_all add: unat_of_nat word_unat_eq_iff)
  have step: "fold (consider_cpu enforce nd cpu_load norm pref lc) [0..<Suc n] (255, UINT_MAX) =
      consider_cpu enforce nd cpu_load norm pref lc n (b, l)" by (simp add: f)
  have IH: "if ?E = {} then b = 255 \<and> l = UINT_MAX else b \<noteq> 255 \<and> l = cpu_load (unat b) \<and> best_of ?E cpu_load (unat lc) (unat b)"
    using Suc f by simp
  show ?case
  proof (cases "bit norm n \<and> (enforce \<longrightarrow> nd n = pref)")
    case False
    then have "pass_set enforce (Suc n) nd norm pref = ?E" by (auto simp: pass_set_def less_Suc_eq)
    then show ?thesis unfolding step consider_cpu_eq using IH False by auto
  next
    case True
    then have E: "pass_set enforce (Suc n) nd norm pref = insert n ?E" by (auto simp: pass_set_def less_Suc_eq)
    show ?thesis
    proof (cases "?E = {}")
      case emp: True
      then show ?thesis unfolding step consider_cpu_eq E using IH True un by (simp add: best_of_def)
    next
      case ne: False
      have b: "b \<noteq> 255" "l = cpu_load (unat b)" "best_of ?E cpu_load (unat lc) (unat b)" using IH ne by auto
      have lt: "unat b < n" using b(3) by (simp add: best_of_def pass_set_def)
      have "best_of (insert n ?E) cpu_load (unat lc)
         (if cpu_load n < cpu_load (unat b) \<or> cpu_load n = cpu_load (unat b) \<and> n = unat lc \<and> unat b \<noteq> unat lc then n else unat b)"
        by (rule best_of_insert [OF b(3)]) (simp add: pass_set_def)
      then show ?thesis unfolding step consider_cpu_eq E using b lt True un by (auto simp: word_unat_eq_iff [symmetric] split: if_splits)
    qed
  qed
qed

lemma select_pass_result:
  assumes "n < 255" "r = select_pass enforce n nd cpu_load norm pref lc"
  shows "pass_set enforce n nd norm pref = {} \<Longrightarrow> r = 255"
    and "pass_set enforce n nd norm pref \<noteq> {} \<Longrightarrow> r \<noteq> 255 \<and> best_of (pass_set enforce n nd norm pref) cpu_load (unat lc) (unat r)"
  using select_pass_spec [OF assms(1), of enforce nd norm pref cpu_load lc] assms(2)
  by (auto simp: select_pass_def split: prod.splits if_splits)

text \<open>The candidates of \<open>scheduler_select_best_cpu_from_view\<close>: the online CPUs of the affinity mask, or all online
  ones if there is none; of these those of the preferred node, if there is one.\<close>

definition candidates :: "nat \<Rightarrow> (nat \<Rightarrow> bool) \<Rightarrow> (nat \<Rightarrow> u8) \<Rightarrow> u32 \<Rightarrow> u8 \<Rightarrow> nat set" where
  "candidates n up nd affinity preferred =
     (let A = {c. c < n \<and> up c \<and> bit affinity c};
          B = (if A = {} then {c. c < n \<and> up c} else A);
          P = {c \<in> B. nd c = preferred}
      in if preferred \<noteq> NUMA_NODE_ANY \<and> P \<noteq> {} then P else B)"

lemma select_best_rep:
  assumes n: "cpu_count \<le> 8" and r: "r = scheduler_select_best_cpu_from_view cpu_count up nd cpu_load affinity preferred lc"
  shows "\<forall>c<unat cpu_count. \<not> up c \<Longrightarrow> r = INVALID_CPU_ID"
    and "c < unat cpu_count \<Longrightarrow> up c \<Longrightarrow> r \<noteq> INVALID_CPU_ID \<and>
      best_of (candidates (unat cpu_count) up nd affinity preferred) cpu_load (unat lc) (unat r)"
proof -
  let ?n = "unat cpu_count" let ?m = "cpu_mask ?n up"
  have n8: "?n \<le> 8" "?n < 255" using n by (simp_all add: word_le_nat_alt)
  have m0: "?m = 0 \<longleftrightarrow> (\<forall>c<?n. \<not> up c)" using n8 by (auto simp: bit_eq_iff bit_cpu_mask)
  show "r = INVALID_CPU_ID" if "\<forall>c<?n. \<not> up c"
    using that m0 r by (simp add: scheduler_select_best_cpu_from_view_def)
  assume c: "c < ?n" "up c"
  define norm where "norm = (if affinity AND ?m = 0 then ?m else affinity AND ?m)"
  let ?A = "{c. c < ?n \<and> up c \<and> bit affinity c}" let ?B = "if ?A = {} then {c. c < ?n \<and> up c} else ?A"
  have a0: "affinity AND ?m = 0 \<longleftrightarrow> ?A = {}" using n8 by (auto simp: bit_eq_iff bit_and_iff bit_cpu_mask)
  have bn: "{c. c < ?n \<and> bit norm c} = ?B" using n8 a0 by (auto simp: norm_def bit_and_iff bit_cpu_mask)
  have p1: "pass_set True ?n nd norm preferred = {c \<in> ?B. nd c = preferred}"
    unfolding pass_set_def bn [symmetric] by auto
  have p2: "pass_set False ?n nd norm preferred = ?B" unfolding pass_set_def bn [symmetric] by auto
  have ne: "?B \<noteq> {}" using c by auto
  have m1: "?m \<noteq> 0" "cpu_count \<noteq> 0" using m0 c by auto
  let ?first = "select_pass (preferred \<noteq> NUMA_NODE_ANY) ?n nd cpu_load norm preferred lc"
  let ?second = "select_pass False ?n nd cpu_load norm preferred lc"
  have re: "r = (if ?first \<noteq> INVALID_CPU_ID then ?first else ?second)"
    using m1 by (simp add: r scheduler_select_best_cpu_from_view_def norm_def Let_def)
  have second: "?second \<noteq> 255 \<and> best_of ?B cpu_load (unat lc) (unat ?second)"
    using select_pass_result(2) [OF n8(2) refl, of False nd norm preferred cpu_load lc] ne by (simp only: p2 simp_thms)
  have cand: "candidates ?n up nd affinity preferred =
      (if preferred \<noteq> NUMA_NODE_ANY \<and> pass_set True ?n nd norm preferred \<noteq> {} then pass_set True ?n nd norm preferred else ?B)"
    unfolding candidates_def Let_def p1 by simp
  show "r \<noteq> INVALID_CPU_ID \<and> best_of (candidates ?n up nd affinity preferred) cpu_load (unat lc) (unat r)"
  proof (cases "preferred = NUMA_NODE_ANY")
    case True
    then show ?thesis using second re cand by simp
  next
    case False
    then show ?thesis
      using second re cand select_pass_result [OF n8(2) refl, of True nd norm preferred cpu_load lc] by auto
  qed
qed

lemma candidates_sub: "candidates n up nd a p \<subseteq> {c. c < n \<and> up c}"
  by (auto simp: candidates_def Let_def)

lemma select_best_online:
  assumes "cpu_count \<le> 8" "r = scheduler_select_best_cpu_from_view cpu_count up nd cpu_load affinity preferred lc" "r \<noteq> INVALID_CPU_ID"
  shows "unat r < unat cpu_count" "up (unat r)"
proof -
  obtain c where "c < unat cpu_count" "up c" using select_best_rep(1) [OF assms(1,2)] assms(3) by blast
  then have "unat r \<in> candidates (unat cpu_count) up nd affinity preferred"
    using select_best_rep(2) [OF assms(1,2)] by (auto simp: best_of_def)
  then show "unat r < unat cpu_count" "up (unat r)" using candidates_sub by blast+
qed

section \<open>Balancing\<close>

text \<open>Balancing changes no CPU's current task, state or place among the configured ones.\<close>

lemma keeps_migrate:
  assumes "scheduler_migrate_runnable_task e src tgt t notify s = (b, s')"
  shows "keeps {t} s s'"
proof -
  have d: "keeps {t} s (decrement_runnable c (remove_from i t s))" for c i by (simp add: keeps_def)
  have "keeps {t} s (if notify then scheduler_cpu_enqueue_runnable e tgt t REASON_RESCHEDULE (decrement_runnable c (remove_from i t s))
      else scheduler_cpu_enqueue_runnable_local tgt t (decrement_runnable c (remove_from i t s)))" for c i
    using keeps_step [OF d keeps_enqueue] keeps_step [OF d keeps_enqueue_local] by simp
  then show ?thesis using assms keeps_step [OF _ keeps_globals(1)]
    by (auto simp: scheduler_migrate_runnable_task_def Let_def split: if_splits)
qed

definition same_cpus :: "scheduler \<Rightarrow> scheduler \<Rightarrow> bool" where
  "same_cpus s s' \<longleftrightarrow> (\<forall>c. online (cpus s' c) = online (cpus s c) \<and> current (cpus s' c) = current (cpus s c)) \<and>
     configured_cpu_count s' = configured_cpu_count s \<and> boot_cpu_id s' = boot_cpu_id s"

lemma same_cpus_refl [simp]: "same_cpus s s"
  by (simp add: same_cpus_def)

lemma same_cpus_trans: "same_cpus s s1 \<Longrightarrow> same_cpus s1 s2 \<Longrightarrow> same_cpus s s2"
  by (simp add: same_cpus_def)

lemma keeps_same_cpus: "keeps D s s' \<Longrightarrow> same_cpus s s'"
  by (simp add: keeps_def same_cpus_def)

lemma same_cpus_current: "same_cpus s s' \<Longrightarrow> scheduler_current_cpu_state e s' = scheduler_current_cpu_state e s"
  by (simp add: same_cpus_def scheduler_current_cpu_state_def)

text \<open>One round of balancing ends, and moves at most one task, from a CPU to one at least two less loaded.\<close>

definition balance_move ::
  "scheduler \<Rightarrow> (list_id \<Rightarrow> nat list) \<Rightarrow> (nat \<Rightarrow> u32) \<Rightarrow> scheduler \<Rightarrow> (nat \<Rightarrow> u32) \<Rightarrow> bool" where
  "balance_move s q ld s' ld' \<longleftrightarrow> (\<exists>src tgt t. src < MAX_CPUS \<and> tgt < MAX_CPUS \<and> src \<noteq> tgt \<and> t < MAX_THREADS \<and>
     online (cpus s src) \<and> online (cpus s tgt) \<and> \<not> ld src \<le> ld tgt + 1 \<and>
     cpu_affinity_mask (tasks s t) AND push_bit tgt 1 \<noteq> 0 \<and>
     t \<in> set (q (Runnable_List src (unat (priority (tasks s t))))) \<and>
     ld' = ld(src := ld src - 1, tgt := ld tgt + 1) \<and> keeps {t} s s' \<and>
     sched_rep {} (move (Runnable_List src (unat (priority (tasks s t)))) (Runnable_List tgt (unat (priority (tasks s t)))) t q) s')"

lemma balance_queue_rep:
  assumes "sched_rep {} q s" "src < MAX_CPUS" "online (cpus s src)" "p < 5" "n \<le> 8" "q (Runnable_List src p) = as @ bs"
  shows "\<exists>r. balance_queue e n up nd notify src (hd_opt bs) ld s = Some r \<and>
    (case r of None \<Rightarrow> True | Some (ld', s') \<Rightarrow> balance_move s q ld s' ld')"
  using assms(6)
proof (induction bs arbitrary: as)
  case Nil
  show ?case by (subst balance_queue.simps) simp
next
  case (Cons t bs)
  have v: "valid_id (Runnable_List src p)" using assms(2,4) by simp
  have t: "t \<in> set (q (Runnable_List src p))" using Cons.prems by simp
  note hd = head_not_current_running [OF assms(1) v t]
  have nx: "list_next (tasks s t) = hd_opt bs" by (rule contents_next [OF sched_repD(1) [OF assms(1)] v Cons.prems])
  have IH: "\<exists>r. balance_queue e n up nd notify src (hd_opt bs) ld s = Some r \<and>
    (case r of None \<Rightarrow> True | Some (ld', s') \<Rightarrow> balance_move s q ld s' ld')" using Cons.IH [of "as @ [t]"] Cons.prems by simp
  define tg where "tg = scheduler_select_best_cpu_from_view n up nd ld (cpu_affinity_mask (tasks s t))
    (preferred_numa_node (tasks s t)) (cpu_id (cpus s src))"
  obtain ok s1 where m: "scheduler_migrate_runnable_task e src (unat tg) t notify s = (ok, s1)" by fastforce
  have step: "balance_queue e n up nd notify src (Some t) ld s =
      (if tg = 255 \<or> tg = cpu_id (cpus s src) \<or> ld src \<le> ld (unat tg) + 1 \<or> \<not> up (unat tg) \<or> \<not> online (cpus s (unat tg)) \<or> \<not> ok
       then balance_queue e n up nd notify src (hd_opt bs) ld s
       else Some (Some ((ld(src := ld src - 1))(unat tg := (ld(src := ld src - 1)) (unat tg) + 1), s1)))"
    by (subst balance_queue.simps) (simp add: nx tg_def [symmetric] m Let_def)
  show ?case
  proof (cases "tg = 255 \<or> tg = cpu_id (cpus s src) \<or> ld src \<le> ld (unat tg) + 1 \<or> \<not> up (unat tg) \<or> \<not> online (cpus s (unat tg)) \<or> \<not> ok")
    case True
    then show ?thesis using IH by (simp add: step)
  next
    case False
    have lt: "unat tg < MAX_CPUS"
      using select_best_online(1) [OF assms(5) tg_def] False assms(5) by (simp add: word_le_nat_alt)
    note mg = migrate_rep [OF assms(1) _ assms(2) lt hd(2), of e notify s1]
    have ok: "scheduler_migrate_runnable_task e src (unat tg) t notify s = (True, s1)" using m False by simp
    have pr: "unat (priority (tasks s t)) = p"
      using contents_mem [OF sched_repD(1) [OF assms(1)] v, of t] t hd(3) by (simp add: home_def)
    have "balance_move s q ld s1 ((ld(src := ld src - 1))(unat tg := (ld(src := ld src - 1)) (unat tg) + 1))"
      unfolding balance_move_def using mg [OF ok] keeps_migrate [OF ok] assms(2,3) lt hd(2) False t pr
      by (intro exI [of _ src] exI [of _ "unat tg"] exI [of _ t]) auto
    then show ?thesis using False by (simp add: step)
  qed
qed

lemma balance_priorities_rep:
  assumes "sched_rep {} q s" "src < MAX_CPUS" "online (cpus s src)" "\<forall>p\<in>set ps. p < 5" "n \<le> 8"
  shows "\<exists>r. balance_priorities e n up nd notify src ps ld s = Some r \<and>
    (case r of None \<Rightarrow> True | Some (ld', s') \<Rightarrow> balance_move s q ld s' ld')"
  using assms(4)
proof (induction ps)
  case (Cons p ps)
  have h: "lhead (runnable (cpus s src) p) = hd_opt (q (Runnable_List src p))"
    using contents_head [OF sched_repD(1) [OF assms(1)], of "Runnable_List src p"] assms(2) Cons.prems by simp
  obtain r where "balance_queue e n up nd notify src (hd_opt (q (Runnable_List src p))) ld s = Some r"
    "case r of None \<Rightarrow> True | Some (ld', s') \<Rightarrow> balance_move s q ld s' ld'"
    using balance_queue_rep [OF assms(1-3) _ assms(5), of p "[]" "q (Runnable_List src p)" e up nd notify ld] Cons.prems by auto
  then show ?case using Cons h by (cases r) auto
qed simp

lemma balance_sources_rep:
  assumes "sched_rep {} q s" "\<forall>c\<in>set cs. c < MAX_CPUS" "n \<le> 8"
  shows "\<exists>r. balance_sources e n up nd notify cs ld s = Some r \<and>
    (case r of None \<Rightarrow> True | Some (ld', s') \<Rightarrow> balance_move s q ld s' ld')"
  using assms(2)
proof (induction cs)
  case (Cons c cs)
  show ?case
  proof (cases "\<not> up c \<or> \<not> online (cpus s c) \<or> runnable_count (cpus s c) = 0")
    case False
    then obtain r where "balance_priorities e n up nd notify c [4, 3, 2, 1, 0] ld s = Some r"
      "case r of None \<Rightarrow> True | Some (ld', s') \<Rightarrow> balance_move s q ld s' ld'"
      using balance_priorities_rep [OF assms(1), of c "[4, 3, 2, 1, 0]" n e up nd notify ld] Cons.prems assms(3) by auto
    then show ?thesis using Cons False by (cases r) auto
  qed (use Cons in auto)
qed simp

lemma balance_once_rep:
  assumes "sched_rep {} q s" "n \<le> 8"
  shows "\<exists>moved ld' s'. scheduler_balance_once_from_view e n up nd ld notify s = Some (moved, ld', s') \<and>
    (if moved then balance_move s q ld s' ld' else s' = s)"
proof (cases "n \<le> 1")
  case False
  have "\<forall>c\<in>set [0..<unat n]. c < MAX_CPUS" using assms(2) by (auto simp: word_le_nat_alt)
  then obtain r where r: "balance_sources e n up nd notify [0..<unat n] ld s = Some r"
    "case r of None \<Rightarrow> True | Some (ld', s') \<Rightarrow> balance_move s q ld s' ld'"
    using balance_sources_rep [OF assms(1) _ assms(2), of _ e up nd notify ld] by blast
  show ?thesis
  proof (cases r)
    case None
    then show ?thesis using r False by (intro exI [of _ False]) (simp add: scheduler_balance_once_from_view_def)
  next
    case (Some x)
    then show ?thesis using r False by (intro exI [of _ True]) (auto simp: scheduler_balance_once_from_view_def split: prod.splits)
  qed
qed (auto simp: scheduler_balance_once_from_view_def)

lemma balance_move_inv: "balance_move s q ld s' ld' \<Longrightarrow> \<exists>q'. sched_rep {} q' s' \<and> same_cpus s s'"
  using keeps_same_cpus by (fastforce simp: balance_move_def)

lemma balance_rounds_rep:
  assumes "sched_rep {} q s" "n \<le> 8"
  shows "\<exists>q' s'. balance_rounds k e n up nd ld s = Some s' \<and> sched_rep {} q' s' \<and> same_cpus s s'"
  using assms
proof (induction k arbitrary: q s ld)
  case (Suc k)
  obtain moved ld' s' where b: "scheduler_balance_once_from_view e n up nd ld True s = Some (moved, ld', s')"
    "if moved then balance_move s q ld s' ld' else s' = s" using balance_once_rep [OF Suc.prems, of e up nd ld True] by blast
  show ?case
  proof (cases moved)
    case True
    then obtain q' where q': "sched_rep {} q' s'" "same_cpus s s'" using b balance_move_inv [of s q ld s' ld'] by auto
    let ?s = "count_event load_balance_migrations_update s'"
    have "sched_rep {} q' ?s" by (rule sched_rep_same [OF q'(1)]) simp
    from Suc.IH [OF this Suc.prems(2), of ld'] obtain q2 s2 where
      "balance_rounds k e n up nd ld' ?s = Some s2" "sched_rep {} q2 s2" "same_cpus ?s s2" by blast
    moreover have "same_cpus s s2"
      using q'(2) calculation(3) by (simp add: same_cpus_def)
    ultimately show ?thesis using b True by auto
  qed (use b Suc.prems in auto)
qed auto

lemma balance_periodic_rep:
  assumes "sched_rep {} q s"
  shows "\<exists>q' s'. scheduler_balance_periodic e s = Some s' \<and> sched_rep {} q' s' \<and> same_cpus s s'"
proof -
  have "sched_rep {} q (count_event load_balance_runs_update s)" by (rule sched_rep_same [OF assms]) simp
  moreover have "configured_cpu_count (count_event load_balance_runs_update s) \<le> 8"
    using sched_repD(2) [OF assms] by (simp add: cpus_ok_def)
  ultimately show ?thesis unfolding scheduler_balance_periodic_def Let_def
    using balance_rounds_rep [of q "count_event load_balance_runs_update s"] by (force simp: same_cpus_def)
qed

end
