(* ===== verification/Sched_Steps.thy ===== *)
theory Sched_Steps
  imports Sched_Calls
begin

text \<open>
  The interrupt handlers, initialisation, the step relation of the scheduler and its reachable states; runs of
  yields.
\<close>

section \<open>The interrupt handlers\<close>

lemma rep_update: "sched_rep {} q s \<Longrightarrow> same_rep s s' \<Longrightarrow> \<exists>q'. sched_rep {} q' s'"
  using sched_rep_same by blast

lemma on_yield_inv:
  assumes r: "sched_rep {} q s" and y: "scheduler_on_yield e fr s = Some (x, s')"
  shows "\<exists>q'. sched_rep {} q' s'"
proof -
  let ?s = "count_event voluntary_yields_update s"
  have r1: "sched_rep {} q ?s" by (rule sched_rep_same [OF r]) simp
  show ?thesis
    by (rule schedule_cpu_inv [OF r1 current_cpu_online [OF sched_repD(2) [OF r1], of e]])
      (use y in \<open>simp add: scheduler_on_yield_def Let_def\<close>)
qed

lemma on_timer_tick_inv:
  assumes r: "sched_rep {} q s" and k: "scheduler_on_timer_tick e fr s = Some (x, s')"
  shows "\<exists>q'. sched_rep {} q' s'"
proof -
  let ?s0 = "count_event timer_ticks_update (s\<lparr>system_ticks := system_ticks s + 1\<rparr>)"
  have "sched_rep {} q ?s0" by (rule sched_rep_same [OF sched_rep_same [OF r same_rep_globals(1)] same_rep_globals(5)])
  from advance_timers_rep [OF this, of e] obtain s1 q1 where s1: "scheduler_advance_timers e ?s0 = Some s1" "sched_rep {} q1 s1"
    by blast
  let ?c = "scheduler_current_cpu_state e s1"
  define b where "b = (if cpu_id (cpus s1 ?c) = boot_cpu_id s1 then scheduler_should_balance_now e s1 else (False, s1))"
  have b2: "same_rep s1 (snd b)" "same_cpus s1 (snd b)"
    by (simp_all add: b_def scheduler_should_balance_now_def same_cpus_def)
  have r2: "sched_rep {} q1 (snd b)" by (rule sched_rep_same [OF s1(2) b2(1)])
  obtain q3 s3 where s3: "(if fst b then scheduler_balance_periodic e (snd b) else Some (snd b)) = Some s3"
    "sched_rep {} q3 s3" "same_cpus s1 s3"
    using balance_periodic_rep [OF r2, of e] same_cpus_trans [OF b2(2)] r2 b2(2) by (cases "fst b") auto
  have c: "?c < MAX_CPUS" "online (cpus s3 ?c)"
    using current_cpu_online [OF sched_repD(2) [OF s1(2)], of e] s3(3) by (simp_all add: same_cpus_def)
  note e1 = k [unfolded scheduler_on_timer_tick_def s1(1) option.case Let_def b_def [symmetric] case_prod_beta s3(1)]
  show ?thesis
  proof (cases "current (cpus s1 ?c)")
    case None
    then show ?thesis using schedule_cpu_inv [OF s3(2) c] e1 by simp
  next
    case (Some t)
    let ?s4 = "upd_task t (\<lambda>x. x\<lparr>ticks_in_slice := ticks_in_slice x + 1\<rparr>) s3"
    have r4: "sched_rep {} q3 ?s4" by (rule sched_rep_same [OF s3(2) same_rep_upd_task]) simp_all
    have r5: "sched_rep {} q3 (count_event preemptions_update ?s4)" by (rule sched_rep_same [OF r4]) simp
    have r6: "sched_rep {} q3 (upd_task t (\<lambda>x. x\<lparr>frame := fr\<rparr>) ?s4)" by (rule sched_rep_same [OF r4 same_rep_upd_task]) simp_all
    show ?thesis
      using e1 Some schedule_cpu_inv [OF s3(2) c, of e fr True x s'] schedule_cpu_inv [OF r5 c(1) _, of e fr True x s'] c(2) r6
      by (auto split: if_splits)
  qed
qed

section \<open>Initialisation\<close>

lemma plain_cases: "plain i \<Longrightarrow> i = Free_List \<or> i = Sleeping_List \<or> i = Blocked_List \<or> i = Zombie_List"
  by (cases i) (auto simp: plain_def)

lemma topology_cpus:
  "cpus (fold (\<lambda>i. upd_cpu i (\<lambda>_. f i)) [0..<n] s) c = (if c < n then f c else cpus s c)"
  by (induction n) (auto simp: less_Suc_eq upd_cpu_def)

lemma topology_rest:
  "tasks (fold (\<lambda>i. upd_cpu i (\<lambda>_. f i)) xs s) = tasks s"
  "configured_cpu_count (fold (\<lambda>i. upd_cpu i (\<lambda>_. f i)) xs s) = configured_cpu_count s"
  "configured_node_count (fold (\<lambda>i. upd_cpu i (\<lambda>_. f i)) xs s) = configured_node_count s"
  "boot_cpu_id (fold (\<lambda>i. upd_cpu i (\<lambda>_. f i)) xs s) = boot_cpu_id s"
  "plain l \<Longrightarrow> get_list l (fold (\<lambda>i. upd_cpu i (\<lambda>_. f i)) xs s) = get_list l s"
proof -
  have p: "get_list l (upd_cpu i g s) = get_list l s" if "plain l" for i g s using that by (auto dest: plain_cases)
  show "tasks (fold (\<lambda>i. upd_cpu i (\<lambda>_. f i)) xs s) = tasks s"
    "configured_cpu_count (fold (\<lambda>i. upd_cpu i (\<lambda>_. f i)) xs s) = configured_cpu_count s"
    "configured_node_count (fold (\<lambda>i. upd_cpu i (\<lambda>_. f i)) xs s) = configured_node_count s"
    "boot_cpu_id (fold (\<lambda>i. upd_cpu i (\<lambda>_. f i)) xs s) = boot_cpu_id s"
    "plain l \<Longrightarrow> get_list l (fold (\<lambda>i. upd_cpu i (\<lambda>_. f i)) xs s) = get_list l s"
    by (induction xs arbitrary: s; simp add: p)+
qed

text \<open>Laying out the CPUs when no task lives: the run queues start empty and the other lists stay.\<close>

definition no_runnable :: "(list_id \<Rightarrow> nat list) \<Rightarrow> list_id \<Rightarrow> nat list" where
  "no_runnable q i = (case i of Runnable_List c p \<Rightarrow> [] | _ \<Rightarrow> q i)"

lemma no_runnable_plain [simp]: "plain i \<Longrightarrow> no_runnable q i = q i"
  by (auto simp: no_runnable_def plain_def split: list_id.splits)

lemma linked_init [simp]: "linked h task_list_init []"
  by (simp add: linked_def task_list_init_def)

lemma topology_validD:
  assumes "topology_valid cfg"
  shows "top_cpu_count cfg \<le> 8" "top_boot_cpu cfg < top_cpu_count cfg" "top_cpu_online cfg (unat (top_boot_cpu cfg))"
    "0 < top_node_count cfg" "top_node_count cfg \<le> 4"
  using assms by (auto simp: topology_valid_def not_le not_less word_gt_0)

lemma configure_rep:
  assumes v: "topology_valid cfg"
    and lists: "\<And>i. plain i \<Longrightarrow> linked (tasks s) (get_list i s) (q i) \<and> (\<forall>x. x \<in> set (q i) \<longleftrightarrow> x < MAX_THREADS \<and> home (tasks s x) = Some i)"
    and dead: "\<And>t. t < MAX_THREADS \<Longrightarrow> kind_ok (tasks s t) \<and> state (tasks s t) = TASK_UNUSED"
    and live: "\<not> scheduler_bootstrapped s" and c: "scheduler_configure_topology cfg (s, m) = (b, s', m')"
  shows "b" "sched_rep {} (no_runnable q) s'"
proof -
  let ?cpu = "\<lambda>i. scheduler_cpu_state_init (of_nat i) (if i < unat (top_cpu_count cfg) then top_cpu_to_node cfg i else 0)
     (i < unat (top_cpu_count cfg) \<and> top_cpu_online cfg i)"
  let ?s1 = "s\<lparr>configured_cpu_count := top_cpu_count cfg, configured_node_count := top_node_count cfg, boot_cpu_id := top_boot_cpu cfg\<rparr>"
  note tv = topology_validD [OF v]
  have nl: "\<not> scheduler_has_live_tasks s" using dead by (auto simp: scheduler_has_live_tasks_def list_ex_iff)
  have s': "s' = fold (\<lambda>i. upd_cpu i (\<lambda>_. ?cpu i)) [0..<MAX_CPUS] ?s1"
    using c live nl v by (simp add: scheduler_configure_topology_def Let_def case_prod_beta)
  have ok: "\<not> (top_node_count cfg = 0 \<or> top_node_count cfg > 8)"
    using tv(4,5) by (auto simp: word_less_nat_alt word_le_nat_alt)
  have "b = fst (pmm_configure_numa_topology (configured_node_count s') m)"
    using c live nl v s' by (auto simp: scheduler_configure_topology_def Let_def case_prod_beta)
  moreover have "configured_node_count s' = top_node_count cfg" by (simp add: s' topology_rest)
  ultimately show "b" using ok by (simp add: pmm_configure_numa_topology_def PMM_MAX_NUMA_NODES_def Let_def)
  have cp: "cpus s' d = ?cpu d" if "d < MAX_CPUS" for d using that unfolding s' topology_cpus by simp
  have tk: "tasks s' = tasks s" "configured_cpu_count s' = top_cpu_count cfg" "boot_cpu_id s' = top_boot_cpu cfg"
    unfolding s' by (simp_all add: topology_rest)
  have gl: "get_list i s' = get_list i s" if "plain i" for i
    using that plain_cases [OF that] unfolding s' by (auto simp: topology_rest)
  have nr: "list_kind (tasks s t) = TASK_LIST_NONE \<or> list_kind (tasks s t) = TASK_LIST_FREE" if "t < MAX_THREADS" for t
    using dead [OF that] by (auto simp: kind_ok_def split: task_list_kind.splits)
  have "contents (no_runnable q) s'" unfolding contents_def
  proof (intro allI impI)
    fix i assume vi: "valid_id i"
    show "linked (tasks s') (get_list i s') (no_runnable q i) \<and>
        (\<forall>x. (x \<in> set (no_runnable q i)) = (x < MAX_THREADS \<and> home (tasks s' x) = Some i))"
    proof (cases "plain i")
      case True
      then show ?thesis using lists [OF True] gl tk by simp
    next
      case False
      then obtain d p where i: "i = Runnable_List d p" by (cases i) (auto simp: plain_def)
      have "home (tasks s x) \<noteq> Some i" if "x < MAX_THREADS" for x using nr [OF that] i by (auto simp: home_def)
      then show ?thesis using i vi cp tk by (auto simp: no_runnable_def scheduler_cpu_state_init_def)
    qed
  qed
  moreover have "unat (top_boot_cpu cfg) < unat (top_cpu_count cfg)" "unat (top_cpu_count cfg) \<le> 8"
    using tv by (simp_all add: word_less_nat_alt word_le_nat_alt)
  then have "cpus_ok s'" using tv by (simp add: cpus_ok_def tk cp scheduler_cpu_state_init_def)
  moreover have "currents_ok s'" by (simp add: currents_ok_def cp scheduler_cpu_state_init_def)
  moreover have "placed s' t" if "t < MAX_THREADS" for t using nr [OF that] by (auto simp: placed_def tk)
  ultimately show "sched_rep {} (no_runnable q) s'"
    using dead by (simp add: sched_rep_def tk cp scheduler_cpu_state_init_def queued_def no_runnable_def)
qed

lemma configure_inv:
  assumes r: "sched_rep {} q s" and c: "scheduler_configure_topology cfg (s, m) = (b, s', m')"
  shows "\<exists>q'. sched_rep {} q' s'"
proof (cases "scheduler_bootstrapped s \<or> scheduler_has_live_tasks s \<or> \<not> topology_valid cfg")
  case True
  then have "s' = s" using c by (auto simp: scheduler_configure_topology_def split: if_splits)
  then show ?thesis using r by blast
next
  case False
  have "sched_rep {} (no_runnable q) s'"
  proof (rule configure_rep(2) [OF _ _ _ _ c])
    show "linked (tasks s) (get_list i s) (q i) \<and> (\<forall>x. x \<in> set (q i) \<longleftrightarrow> x < MAX_THREADS \<and> home (tasks s x) = Some i)"
      if "plain i" for i using sched_repD(1) [OF r] that by (simp add: contents_def)
    show "kind_ok (tasks s t) \<and> state (tasks s t) = TASK_UNUSED" if "t < MAX_THREADS" for t
      using False that sched_repD(6) [OF r that] by (auto simp: scheduler_has_live_tasks_def list_ex_iff)
  qed (use False in auto)
  then show ?thesis by blast
qed

text \<open>The loop of \<open>scheduler_init\<close> that fills the free list.\<close>

definition fill :: "nat \<Rightarrow> scheduler \<Rightarrow> scheduler" where
  "fill n s = fold (\<lambda>i st. push_on Free_List i TASK_LIST_FREE (upd_task i (\<lambda>_. task_reset (boot_cpu_id st)) st)) [0..<n] s"

lemma fill_Suc: "fill (Suc n) s = push_on Free_List n TASK_LIST_FREE (upd_task n (\<lambda>_. task_reset (boot_cpu_id (fill n s))) (fill n s))"
  by (simp add: fill_def)

lemma fill_rest:
  "sleeping_list (fill n s) = sleeping_list s" "blocked_list (fill n s) = blocked_list s" "zombie_list (fill n s) = zombie_list s"
  "scheduler_bootstrapped (fill n s) = scheduler_bootstrapped s" "boot_cpu_id (fill n s) = boot_cpu_id s"
  by (induction n; simp add: fill_def push_on_alt)+

lemma fill_linked:
  assumes "free_list s = task_list_init" "n < 2 ^ 32"
  shows "linked (tasks (fill n s)) (free_list (fill n s)) [0..<n] \<and>
    (\<forall>i<n. core (tasks (fill n s) i) = (task_reset (boot_cpu_id s))\<lparr>list_kind := TASK_LIST_FREE\<rparr>)"
  using assms(2)
proof (induction n)
  case 0
  show ?case by (simp add: fill_def assms(1))
next
  case (Suc n)
  let ?u = "upd_task n (\<lambda>_. task_reset (boot_cpu_id (fill n s))) (fill n s)"
  have IH: "linked (tasks (fill n s)) (free_list (fill n s)) [0..<n]"
    "\<forall>i<n. core (tasks (fill n s) i) = (task_reset (boot_cpu_id s))\<lparr>list_kind := TASK_LIST_FREE\<rparr>" using Suc by simp_all
  have l: "linked (tasks ?u) (free_list ?u) [0..<n]"
    using linked_other [OF IH(1), of "tasks ?u"] by simp
  obtain l' h' where p: "task_list_push_back (free_list ?u) n TASK_LIST_FREE (tasks ?u) = (l', h')" by fastforce
  have e: "fill (Suc n) s = ?u\<lparr>tasks := h', free_list := l'\<rparr>" by (simp only: fill_Suc push_on_def get_list.simps p) simp
  have "linked h' l' [0..<Suc n]" using push_back_linked [OF l _ _ p] Suc.prems by simp
  moreover have "core (h' i) = (if i = n then (core (tasks ?u i))\<lparr>list_kind := TASK_LIST_FREE\<rparr> else core (tasks ?u i))" for i
    using core_push [of "free_list ?u" n TASK_LIST_FREE "tasks ?u" i] unfolding p by simp
  moreover have "core (task_reset b) = task_reset b" for b by (simp add: core_def task_reset_def)
  ultimately show ?case using IH(2) unfolding e by (auto simp: less_Suc_eq fill_rest)
qed

lemma scheduler_init_rep:
  "\<exists>s' m'. scheduler_init (s, m) = Some (s', m') \<and>
     sched_rep {} (\<lambda>i. if i = Free_List then [0..<MAX_THREADS] else []) s'"
proof -
  define s2 where "s2 = scheduler_trace_reset_locked (s\<lparr>free_list := task_list_init, sleeping_list := task_list_init, blocked_list := task_list_init,
                zombie_list := task_list_init, scheduler_bootstrapped := False, system_ticks := 0,
                next_task_id := 1, last_balance_tick := 0, configured_cpu_count := 0,
                configured_node_count := 0, boot_cpu_id := 0\<rparr>)"
  have s2: "free_list s2 = task_list_init" "sleeping_list s2 = task_list_init" "blocked_list s2 = task_list_init"
    "zombie_list s2 = task_list_init" "\<not> scheduler_bootstrapped s2"
    by (simp_all add: s2_def scheduler_trace_reset_locked_def)
  let ?s3 = "fill MAX_THREADS s2" let ?q = "\<lambda>i. if i = Free_List then [0..<MAX_THREADS] else []"
  have fl: "linked (tasks ?s3) (free_list ?s3) [0..<MAX_THREADS]"
    and co: "\<And>i. i < MAX_THREADS \<Longrightarrow> core (tasks ?s3 i) = (task_reset (boot_cpu_id s2))\<lparr>list_kind := TASK_LIST_FREE\<rparr>"
    using fill_linked [OF s2(1), of MAX_THREADS] by auto
  have tk: "list_kind (tasks ?s3 i) = TASK_LIST_FREE" "state (tasks ?s3 i) = TASK_UNUSED" if "i < MAX_THREADS" for i
    using core_fields(1,7) [of "tasks ?s3 i"] co [OF that] by simp_all
  obtain b s' m' where c: "scheduler_configure_topology scheduler_topology_default (?s3, m) = (b, s', m')" by (metis prod_cases3)
  have v: "topology_valid scheduler_topology_default"
    by (simp add: topology_valid_def scheduler_topology_default_def)
  have lists: "linked (tasks ?s3) (get_list i ?s3) (?q i) \<and> (\<forall>x. x \<in> set (?q i) \<longleftrightarrow> x < MAX_THREADS \<and> home (tasks ?s3 x) = Some i)"
    if "plain i" for i
    using plain_cases [OF that] fl tk(1) s2 by (auto simp: fill_rest home_def)
  have dead: "kind_ok (tasks ?s3 t) \<and> state (tasks ?s3 t) = TASK_UNUSED" if "t < MAX_THREADS" for t
    using tk [OF that] by (simp add: kind_ok_def)
  note cr = configure_rep [OF v lists dead _ c]
  have "no_runnable ?q = ?q" by (auto simp: no_runnable_def split: list_id.splits)
  then have "b" "sched_rep {} ?q s'" using cr s2(5) by (simp_all add: fill_rest)
  moreover have "scheduler_init (s, m) = (if b then Some (s', m') else None)"
    using c by (simp add: scheduler_init_def Let_def s2_def [symmetric] fill_def)
  ultimately show ?thesis by auto
qed

section \<open>Steps\<close>

text \<open>One critical section of the scheduler, on some CPU. A thread enters the blocking calls and exits only
  while it is the running task of its CPU; the slot of a creation in progress is one it reserved.\<close>

inductive sched_step :: "scheduler \<Rightarrow> scheduler \<Rightarrow> bool" where
  tick: "scheduler_on_timer_tick e fr s = Some (x, s') \<Longrightarrow> sched_step s s'"
| yield: "scheduler_on_yield e fr s = Some (x, s') \<Longrightarrow> sched_step s s'"
| sleep: "scheduler_current_task e s = Some t \<Longrightarrow> state (tasks s t) = TASK_RUNNING \<Longrightarrow> sched_step s (sleep_section e ticks s)"
| wait: "scheduler_current_task e s = Some t \<Longrightarrow> state (tasks s t) = TASK_RUNNING \<Longrightarrow> sched_step s (wait_section e ch timeout s)"
| wake: "scheduler_wake_channel e ch limit s = Some (n, s') \<Longrightarrow> sched_step s s'"
| exit: "scheduler_current_task e s = Some t \<Longrightarrow> state (tasks s t) = TASK_RUNNING \<Longrightarrow> exit_section e s = Some s' \<Longrightarrow> sched_step s s'"
| reserve: "create_reserve e cfg s = (r, s') \<Longrightarrow> sched_step s s'"
| commit: "reserved t s \<Longrightarrow> sched_step s (create_commit e eff t name lit entry arg sp stack s)"
| abort: "reserved t s \<Longrightarrow> sched_step s (scheduler_release_task_slot t s)"
| bootstrap: "scheduler_bootstrap_current name lit esp ks cs s = Some s' \<Longrightarrow> sched_step s s'"
| secondary: "scheduler_bootstrap_secondary_current i stk name lit ks s = (b, s') \<Longrightarrow> sched_step s s'"
| priority: "scheduler_set_task_priority e i p s = (b, s') \<Longrightarrow> sched_step s s'"
| join: "join_section i timeout start s = (j, r, s') \<Longrightarrow> sched_step s s'"
| reap: "reap_scan (lhead (zombie_list s)) s = Some (r, s') \<Longrightarrow> sched_step s s'"
| reset: "sched_step s (scheduler_trace_reset_locked s)"
| topology: "scheduler_configure_topology cfg (s, m) = (b, s', m') \<Longrightarrow> sched_step s s'"

lemma wake_channel_rep:
  assumes r: "sched_rep {} q s"
  shows "\<exists>n s'. scheduler_wake_channel e ch limit s = Some (n, s') \<and> (\<exists>q'. sched_rep {} q' s')"
proof (cases "ch = 0")
  case False
  have h: "lhead (blocked_list s) = hd_opt (q Blocked_List)" using contents_head [OF sched_repD(1) [OF r], of Blocked_List] by simp
  have l: "length (q Blocked_List) < 2 ^ 32" using contents_length(1) [OF sched_repD(1) [OF r], of Blocked_List] by simp
  show ?thesis using False h l wake_loop_rep [OF r, of "[]" "q Blocked_List" 0 "if limit = 0 then UINT_MAX else limit" e ch]
    by (auto simp: scheduler_wake_channel_def)
qed (use r in \<open>auto simp: scheduler_wake_channel_def\<close>)

lemma join_section_inv:
  assumes r: "sched_rep {} q s" and j: "join_section i timeout start s = (x, y, s')"
  shows "\<exists>q'. sched_rep {} q' s'"
proof -
  have "\<exists>q'. sched_rep {} q' (snd (scheduler_detach_zombie_task_locked t s))"
    if "scheduler_find_task_by_id i s = Some t" "state (tasks s t) = TASK_ZOMBIE" for t
  proof -
    have "t < MAX_THREADS" using that(1) by (auto simp: scheduler_find_task_by_id_def find_Some_iff)
    then have "t \<in> set (q Zombie_List)" using zombie_slot(1) [OF r] that(2) by simp
    from detach_rep [OF r this] r show ?thesis by (cases "scheduler_task_is_current_on_any_cpu_locked t s") auto
  qed
  then show ?thesis using j r by (auto simp: join_section_def Let_def split: option.splits if_splits prod.splits)
qed

theorem sched_step_inv: "sched_step s s' \<Longrightarrow> sched_rep {} q s \<Longrightarrow> \<exists>q'. sched_rep {} q' s'"
proof (induction arbitrary: q rule: sched_step.induct)
  case (tick e fr s x s')
  then show ?case using on_timer_tick_inv by blast
next
  case (yield e fr s x s')
  then show ?case using on_yield_inv by blast
next
  case (sleep e s t ticks)
  then show ?case using sleep_section_rep by blast
next
  case (wait e s t ch timeout)
  then show ?case using wait_section_rep by blast
next
  case (wake e ch limit s n s')
  then show ?case using wake_channel_rep [of q s e ch limit] by auto
next
  case (exit e s t s')
  then show ?case using exit_section_rep [of q s e t] by auto
next
  case (reserve e cfg s r s')
  show ?case
  proof (cases r)
    case None
    then show ?thesis using create_reserve_None reserve by blast
  next
    case (Some y)
    then show ?thesis using create_reserve_rep [of q s e cfg _ _ _ s'] reserve by (cases y) blast
  qed
next
  case (commit t s e eff name lit entry arg sp stack)
  then show ?case using create_commit_rep by blast
next
  case (abort t s)
  then show ?case using release_reserved_rep by blast
next
  case (bootstrap name lit esp ks cs s s')
  obtain x s1 where b: "scheduler_bootstrap_cpu_task (boot_cpu_id s) esp (if name \<noteq> 0 then name else lit) lit ks s = (x, s1)" by fastforce
  obtain q1 where r1: "sched_rep {} q1 s1" using bootstrap_cpu_rep [OF bootstrap.prems b] by blast
  obtain t where "s' = (upd_task t (\<lambda>x. x\<lparr>space := cs\<rparr>) s1)\<lparr>scheduler_bootstrapped := True\<rparr>"
    using bootstrap.hyps b by (auto simp: scheduler_bootstrap_current_def split: if_splits option.splits)
  moreover have "sched_rep {} q1 (upd_task t (\<lambda>x. x\<lparr>space := cs\<rparr>) s1)" by (rule sched_rep_same [OF r1 same_rep_upd_task]) simp_all
  ultimately show ?case using sched_rep_same [OF _ same_rep_globals(4)] by blast
next
  case (secondary i stk name lit ks s b s')
  obtain x s1 where b: "scheduler_bootstrap_cpu_task (ucast i) stk name lit ks s = (x, s1)" by fastforce
  obtain q1 where "sched_rep {} q1 s1" using bootstrap_cpu_rep [OF secondary.prems b] by blast
  then show ?case using secondary b by (auto simp: scheduler_bootstrap_secondary_current_def split: if_splits)
next
  case (priority e i p s b s')
  then show ?case using set_priority_rep by blast
next
  case (join i timeout start s j r s')
  then show ?case using join_section_inv by blast
next
  case (reap s r s')
  have h: "lhead (zombie_list s) = hd_opt (q Zombie_List)"
    using contents_head [OF sched_repD(1) [OF reap.prems], of Zombie_List] by simp
  show ?case using reap_scan_rep [OF reap.prems, of "[]" "q Zombie_List"] reap h
    by (cases "reapable s (q Zombie_List)") auto
next
  case (reset s)
  have "same_rep s (scheduler_trace_reset_locked s)" by (simp add: scheduler_trace_reset_locked_def same_rep_def)
  then show ?case using sched_rep_same [OF reset] by blast
next
  case (topology cfg s m b s' m')
  then show ?case using configure_inv by blast
qed

inductive sched_reachable :: "scheduler \<Rightarrow> bool" where
  start: "scheduler_init (s0, m0) = Some (s, m) \<Longrightarrow> sched_reachable s"
| step: "sched_reachable s \<Longrightarrow> sched_step s s' \<Longrightarrow> sched_reachable s'"

lemma reachable_rep: "sched_reachable s \<Longrightarrow> \<exists>q. sched_rep {} q s"
proof (induction rule: sched_reachable.induct)
  case (start s0 m0 s m)
  then show ?case using scheduler_init_rep [of s0 m0] by auto
next
  case (step s s')
  then show ?case using sched_step_inv by blast
qed

section \<open>Yielding\<close>

text \<open>What dispatch leaves alone: priorities up to sanitising, and which CPUs there are.\<close>

definition same_place :: "scheduler \<Rightarrow> scheduler \<Rightarrow> bool" where
  "same_place s s' \<longleftrightarrow>
     (\<forall>x. scheduler_priority_sanitize (priority (tasks s' x)) = scheduler_priority_sanitize (priority (tasks s x))) \<and>
     (\<forall>c. online (cpus s' c) = online (cpus s c)) \<and> configured_cpu_count s' = configured_cpu_count s \<and> boot_cpu_id s' = boot_cpu_id s"

lemma same_place_trans: "same_place s s1 \<Longrightarrow> same_place s1 s2 \<Longrightarrow> same_place s s2"
  by (simp add: same_place_def)

lemma same_place_current: "same_place s s' \<Longrightarrow> scheduler_current_cpu_state e s' = scheduler_current_cpu_state e s"
  by (simp add: same_place_def scheduler_current_cpu_state_def)

lemma sanitize_idem [simp]: "scheduler_priority_sanitize (scheduler_priority_sanitize p) = scheduler_priority_sanitize p"
  by (simp add: sanitize_id)

lemma same_place_dequeued: "same_place s (dequeued c p t s)"
  by (simp add: same_place_def dequeued_def Let_def)

lemma same_place_enqueue: "same_place s (scheduler_cpu_enqueue_runnable e c t reason s)"
proof -
  have "scheduler_priority_sanitize (priority (tasks (scheduler_cpu_enqueue_runnable e c t reason s) x)) =
      scheduler_priority_sanitize (priority (tasks s x))" for x
    by (cases "x = t") (simp_all add: scheduler_cpu_enqueue_runnable_def scheduler_notify_remote_runnable_def
        scheduler_cpu_enqueue_runnable_local_def Let_def)
  moreover have "configured_cpu_count (scheduler_cpu_enqueue_runnable e c t reason s) = configured_cpu_count s"
    "boot_cpu_id (scheduler_cpu_enqueue_runnable e c t reason s) = boot_cpu_id s"
    using keeps_enqueue [of t s e c reason] by (simp_all add: keeps_def)
  ultimately show ?thesis by (simp add: same_place_def)
qed

lemma same_place_next:
  assumes "contents q s" "c < MAX_CPUS" "schedule_next c fr s = Some (x, s')"
  shows "same_place s s'"
proof -
  have sw: "same_place s1 s'" if "scheduler_switch_to_task c n fr s1 = Some (x, s')" for n s1
  proof (cases n)
    case None
    then show ?thesis using that by (auto simp: scheduler_switch_to_task_def same_place_def split: option.splits if_splits)
  next
    case (Some t)
    let ?g = "\<lambda>x. x\<lparr>state := TASK_RUNNING, ticks_in_slice := 0\<rparr> :: task" let ?h = "\<lambda>x. x\<lparr>current := Some t\<rparr> :: scheduler_cpu_state"
    have pr: "priority (tasks (upd_task t ?g s1) x) = priority (tasks s1 x)" for x by (cases "x = t") simp_all
    have on: "online (cpus (upd_cpu c ?h s2) d) = online (cpus s2 d)" for s2 d by (cases "d = c") simp_all
    have "s' = upd_cpu c ?h (upd_task t ?g s1) \<or> s' = count_event context_switches_update (upd_cpu c ?h (upd_task t ?g s1))"
      using that Some by (auto simp: scheduler_switch_to_task_def Let_def split: if_splits)
    then show ?thesis by (auto simp: same_place_def pr on)
  qed
  show ?thesis
  proof (cases "next_level q c")
    case None
    then show ?thesis using assms(3) sw by (auto simp: schedule_next_def dequeue_next_eq [OF assms(1,2)])
  next
    case (Some p)
    then have "same_place (dequeued c p (hd (q (Runnable_List c p))) s) s'"
      using assms(3) sw by (auto simp: schedule_next_def dequeue_next_eq [OF assms(1,2)])
    then show ?thesis by (rule same_place_trans [OF same_place_dequeued])
  qed
qed

lemma same_place_schedule:
  assumes r: "sched_rep {} q s" and c: "c < MAX_CPUS" "online (cpus s c)" and s: "scheduler_schedule_cpu e c fr True s = Some (x, s')"
  shows "same_place s s'"
proof -
  let ?s1 = "count_event schedule_events_update s"
  have r1: "sched_rep {} q ?s1" by (rule sched_rep_same [OF r]) simp
  show ?thesis
  proof (cases "current (cpus s c)")
    case None
    then have "schedule_next c fr ?s1 = Some (x, s')" using s by (simp add: scheduler_schedule_cpu_def Let_def)
    then show ?thesis using same_place_next [OF sched_repD(1) [OF r1] c(1)] by (simp add: same_place_def)
  next
    case (Some t)
    let ?s2 = "upd_task t (\<lambda>x. x\<lparr>frame := fr\<rparr>) ?s1"
    have p: "same_place s ?s2" "state (tasks ?s2 t) = state (tasks s t)"
    proof -
      have "priority (tasks ?s2 x) = priority (tasks s x)" for x by (cases "x = t") simp_all
      then show "same_place s ?s2" by (simp add: same_place_def)
    qed simp
    have r2: "sched_rep {} q ?s2" by (rule sched_rep_same [OF r1 same_rep_upd_task]) simp_all
    show ?thesis
    proof (cases "state (tasks s t) = TASK_RUNNING")
      case False
      then have "schedule_next c fr ?s2 = Some (x, s')" using s Some by (simp add: scheduler_schedule_cpu_def Let_def)
      then show ?thesis using same_place_trans [OF p(1)] same_place_next [OF sched_repD(1) [OF r2] c(1)] by blast
    next
      case True
      let ?s3 = "scheduler_cpu_enqueue_runnable e c t REASON_RESCHEDULE ?s2"
      have "sched_rep {t} q ?s2" by (rule rep_take [OF r2]) (use current_running [OF r c(1) Some] True in \<open>simp_all\<close>)
      then have r3: "sched_rep {} (q(Runnable_List c (unat (scheduler_priority_sanitize (priority (tasks ?s2 t)))) :=
          q (Runnable_List c (unat (scheduler_priority_sanitize (priority (tasks ?s2 t))))) @ [t])) ?s3"
        by (rule enqueue_rep) (use c in simp_all)
      have "schedule_next c fr ?s3 = Some (x, s')" using s Some True by (simp add: scheduler_schedule_cpu_def Let_def)
      then show ?thesis
        using same_place_trans [OF same_place_trans [OF p(1) same_place_enqueue]] same_place_next [OF sched_repD(1) [OF r3] c(1)] by blast
    qed
  qed
qed

lemma counters_irrelevant:
  "requeue c (trace_counters_update f s) q = requeue c s q"
  "scheduler_current_cpu_state e (trace_counters_update f s) = scheduler_current_cpu_state e s"
  by (cases "current (cpus s c)"; simp add: requeue_def runs_on_def scheduler_current_cpu_state_def)+

text \<open>A yield on the abstract queues.\<close>

lemma yield_rep:
  assumes r: "sched_rep {} q s" and c: "c = scheduler_current_cpu_state e s"
    and l: "next_level (requeue c s q) c = Some p" and h: "requeue c s q (Runnable_List c p) = t # ts"
  shows "\<exists>s'. scheduler_on_yield e fr s =
      Some (Switch (if current (cpus s c) = Some t then fr else frame (tasks s t)) (kernel_stack_top (tasks s t)) (space (tasks s t)), s') \<and>
    sched_rep {} ((requeue c s q)(Runnable_List c p := ts)) s' \<and> current (cpus s' c) = Some t \<and> state (tasks s' t) = TASK_RUNNING \<and>
    same_place s s'"
proof -
  let ?s = "count_event voluntary_yields_update s"
  have r1: "sched_rep {} q ?s" by (rule sched_rep_same [OF r]) simp
  have e: "scheduler_current_cpu_state e ?s = c" "requeue c ?s q = requeue c s q"
    by (simp_all add: c counters_irrelevant)
  have on: "c < MAX_CPUS" "online (cpus ?s c)" using current_cpu_online [OF sched_repD(2) [OF r], of e] by (simp_all add: c)
  from schedule_cpu_rep [OF r1 on, unfolded e, OF l h, of e fr] obtain s' where
    s': "scheduler_schedule_cpu e c fr True ?s =
      Some (Switch (if current (cpus s c) = Some t then fr else frame (tasks s t)) (kernel_stack_top (tasks s t)) (space (tasks s t)), s')"
    "sched_rep {} ((requeue c s q)(Runnable_List c p := ts)) s'" "current (cpus s' c) = Some t" "state (tasks s' t) = TASK_RUNNING" by auto
  have "same_place ?s s'" by (rule same_place_schedule [OF r1 on s'(1)])
  then have "same_place s s'" by (simp add: same_place_def)
  then show ?thesis using s' by (simp add: scheduler_on_yield_def Let_def e)
qed

lemma yield_panic:
  assumes r: "sched_rep {} q s" and c: "c = scheduler_current_cpu_state e s" and l: "next_level (requeue c s q) c = None"
  shows "scheduler_on_yield e fr s = None"
proof -
  let ?s = "count_event voluntary_yields_update s"
  have r1: "sched_rep {} q ?s" by (rule sched_rep_same [OF r]) simp
  have e: "scheduler_current_cpu_state e ?s = c" "requeue c ?s q = requeue c s q"
    by (simp_all add: c counters_irrelevant)
  have on: "c < MAX_CPUS" "online (cpus ?s c)" using current_cpu_online [OF sched_repD(2) [OF r], of e] by (simp_all add: c)
  show ?thesis using schedule_cpu_panic [OF r1 on, unfolded e, OF l] by (simp add: scheduler_on_yield_def Let_def e)
qed

text \<open>Tasks of one level that yield to each other: each yield rotates the level.\<close>

fun run_yields :: "cpu_env \<Rightarrow> u32 list \<Rightarrow> scheduler \<Rightarrow> scheduler option" where
  "run_yields e [] s = Some s"
| "run_yields e (fr # frs) s = (case scheduler_on_yield e fr s of None \<Rightarrow> None | Some (x, s') \<Rightarrow> run_yields e frs s')"

lemma run_yields_rep:
  assumes "sched_rep {} q s" "c = scheduler_current_cpu_state e s" "runs_on c s = Some t"
    and "unat (scheduler_priority_sanitize (priority (tasks s t))) = p" "\<And>r. r < p \<Longrightarrow> q (Runnable_List c r) = []"
  shows "\<exists>s'. run_yields e frs s = Some s' \<and>
    runs_on c s' = Some (rotate (length frs) (t # q (Runnable_List c p)) ! 0) \<and>
    members (Runnable_List c p) s' = tl (rotate (length frs) (t # q (Runnable_List c p)))"
  using assms
proof (induction frs arbitrary: q s t)
  case Nil
  have "valid_id (Runnable_List c p)"
    using current_cpu_online(1) [OF sched_repD(2) [OF Nil.prems(1)], of e] Nil.prems(2,4) by auto
  then show ?case using Nil.prems(3) sched_rep_members [OF Nil.prems(1)] by simp
next
  case (Cons fr frs)
  let ?i = "Runnable_List c p"
  have p5: "p < 5" using Cons.prems(4) by auto
  have c8: "c < MAX_CPUS" using current_cpu_online(1) [OF sched_repD(2) [OF Cons.prems(1)], of e] Cons.prems(2) by simp
  have rq: "requeue c s q = q(?i := q ?i @ [t])" using Cons.prems(3,4) by (simp add: requeue_def Let_def)
  have lv: "next_level (requeue c s q) c = Some p"
    by (rule next_level_eq) (use p5 Cons.prems(5) in \<open>simp_all add: rq\<close>)
  obtain u us where u: "requeue c s q ?i = u # us" "q ?i @ [t] = u # us" by (cases "q ?i @ [t]") (auto simp: rq)
  from yield_rep [OF Cons.prems(1,2) lv u(1), of fr] obtain x s1 where
    s1: "scheduler_on_yield e fr s = Some (x, s1)" "sched_rep {} ((requeue c s q)(?i := us)) s1"
      "current (cpus s1 c) = Some u" "state (tasks s1 u) = TASK_RUNNING" "same_place s s1" by blast
  have ru: "runs_on c s1 = Some u" using s1(3,4) by (simp add: runs_on_def)
  have cu: "c = scheduler_current_cpu_state e s1" using same_place_current [OF s1(5)] Cons.prems(2) by simp
  have pu: "unat (scheduler_priority_sanitize (priority (tasks s1 u))) = p"
  proof (cases "u = t")
    case True
    then show ?thesis using Cons.prems(4) s1(5) by (simp add: same_place_def)
  next
    case False
    then have "u \<in> set (q ?i)" using u(2) by (metis in_set_conv_decomp_first list.set_intros(1) set_ConsD append_Nil rotate1.simps(2) set_rotate1)
    then have "home (tasks s u) = Some ?i" using contents_mem [OF sched_repD(1) [OF Cons.prems(1)], of ?i u] c8 p5 by simp
    then have "unat (priority (tasks s u)) = p" by (auto simp: home_def split: task_list_kind.splits)
    then have "unat (scheduler_priority_sanitize (priority (tasks s u))) = p" using p5 by (subst sanitize_id) (simp_all add: word_less_nat_alt)
    then show ?thesis using s1(5) by (simp add: same_place_def)
  qed
  have "((requeue c s q)(?i := us)) ?i = us" by simp
  moreover have "((requeue c s q)(?i := us)) (Runnable_List c r) = []" if "r < p" for r using Cons.prems(5) [OF that] that by (simp add: rq)
  ultimately obtain s' where "run_yields e frs s1 = Some s'" "runs_on c s' = Some (rotate (length frs) (u # us) ! 0)"
    "members ?i s' = tl (rotate (length frs) (u # us))"
    using Cons.IH [OF s1(2) cu ru pu] by auto
  moreover have "rotate (length (fr # frs)) (t # q ?i) = rotate (length frs) (u # us)"
    using u(2) by (simp add: rotate1_rotate_swap del: rotate1_rotate_swap) (simp add: rotate_def funpow_swap1)
  ultimately show ?case using s1(1) by simp
qed

end
