(* ===== verification/Sched_Demo.thy ===== *)
theory Sched_Demo
  imports Sched_Steps
begin

text \<open>
  A concrete scheduler state with a task of every kind, for the witnesses of the scheduler and of the locks.
\<close>

section \<open>A state with every kind of task\<close>

text \<open>Two CPUs. Slots 0 and 1 run, 2 and 3 wait for CPU 0, 4 and 5 are blocked on a channel, 6 is a zombie, 7 sleeps,
  and the others are free.\<close>

definition demo_task :: "nat \<Rightarrow> task" where
  "demo_task i =
     (let z = (task_reset 0)\<lparr>task_id := of_nat (i + 1)\<rparr>
      in if i = 0 then z\<lparr>state := TASK_RUNNING\<rparr>
         else if i = 1 then z\<lparr>state := TASK_RUNNING, assigned_cpu := 1\<rparr>
         else if i = 2 then z\<lparr>state := TASK_RUNNABLE, list_next := Some 3, list_kind := TASK_LIST_RUNNABLE\<rparr>
         else if i = 3 then z\<lparr>state := TASK_RUNNABLE, list_prev := Some 2, list_kind := TASK_LIST_RUNNABLE\<rparr>
         else if i = 4 then z\<lparr>state := TASK_BLOCKED, wait_channel := 7, list_next := Some 5, list_kind := TASK_LIST_BLOCKED\<rparr>
         else if i = 5 then z\<lparr>state := TASK_BLOCKED, wait_channel := 7, wakeup_tick := 4, list_prev := Some 4, list_kind := TASK_LIST_BLOCKED\<rparr>
         else if i = 6 then z\<lparr>state := TASK_ZOMBIE, list_kind := TASK_LIST_ZOMBIE\<rparr>
         else if i = 7 then z\<lparr>state := TASK_SLEEPING, wakeup_tick := 3, list_kind := TASK_LIST_SLEEPING\<rparr>
         else (task_reset 0)\<lparr>list_prev := (if i = 8 then None else Some (i - 1)), list_next := (if i = 31 then None else Some (i + 1)),
                list_kind := TASK_LIST_FREE\<rparr>)"

definition demo_cpu :: "nat \<Rightarrow> scheduler_cpu_state" where
  "demo_cpu c = \<lparr>cpu_id = of_nat c, numa_node = 0, online = c < 2,
     runnable = (\<lambda>p. if c = 0 \<and> p = 2 then \<lparr>lhead = Some 2, ltail = Some 3, lcount = 2\<rparr> else task_list_init),
     runnable_count = (if c = 0 then 2 else 0), current = (if c = 0 then Some 0 else if c = 1 then Some 1 else None)\<rparr>"

definition demo :: scheduler where
  "demo = \<lparr>tasks = demo_task, cpus = demo_cpu,
     free_list = \<lparr>lhead = Some 8, ltail = Some 31, lcount = 24\<rparr>,
     sleeping_list = \<lparr>lhead = Some 7, ltail = Some 7, lcount = 1\<rparr>,
     blocked_list = \<lparr>lhead = Some 4, ltail = Some 5, lcount = 2\<rparr>,
     zombie_list = \<lparr>lhead = Some 6, ltail = Some 6, lcount = 1\<rparr>,
     configured_cpu_count = 2, configured_node_count = 1, boot_cpu_id = 0, system_ticks = 4, next_task_id = 40,
     last_balance_tick = 0, scheduler_bootstrapped = True, trace_counters = zero_counters, trace_latency = zero_latency, ipis = []\<rparr>"

definition demo_queues :: "list_id \<Rightarrow> nat list" where
  "demo_queues i = (case i of Free_List \<Rightarrow> [8..<32] | Sleeping_List \<Rightarrow> [7] | Blocked_List \<Rightarrow> [4, 5] | Zombie_List \<Rightarrow> [6]
     | Runnable_List c p \<Rightarrow> if c = 0 \<and> p = 2 then [2, 3] else [])"

lemma demo_fields [simp]:
  "tasks demo = demo_task" "cpus demo = demo_cpu" "free_list demo = \<lparr>lhead = Some 8, ltail = Some 31, lcount = 24\<rparr>"
  "sleeping_list demo = \<lparr>lhead = Some 7, ltail = Some 7, lcount = 1\<rparr>"
  "blocked_list demo = \<lparr>lhead = Some 4, ltail = Some 5, lcount = 2\<rparr>"
  "zombie_list demo = \<lparr>lhead = Some 6, ltail = Some 6, lcount = 1\<rparr>"
  "configured_cpu_count demo = 2" "configured_node_count demo = 1" "boot_cpu_id demo = 0" "system_ticks demo = 4"
  "next_task_id demo = 40" "last_balance_tick demo = 0" "scheduler_bootstrapped demo"
  by (simp_all add: demo_def)

lemma demo_kind: "list_kind (demo_task i) =
   (if i \<le> 1 then TASK_LIST_NONE else if i \<le> 3 then TASK_LIST_RUNNABLE else if i \<le> 5 then TASK_LIST_BLOCKED
    else if i = 6 then TASK_LIST_ZOMBIE else if i = 7 then TASK_LIST_SLEEPING else TASK_LIST_FREE)"
  by (simp add: demo_task_def Let_def task_reset_def)

lemma demo_state: "state (demo_task i) =
   (if i \<le> 1 then TASK_RUNNING else if i \<le> 3 then TASK_RUNNABLE else if i \<le> 5 then TASK_BLOCKED
    else if i = 6 then TASK_ZOMBIE else if i = 7 then TASK_SLEEPING else TASK_UNUSED)"
  by (simp add: demo_task_def Let_def task_reset_def)

lemma demo_place: "priority (demo_task i) = 2" "assigned_cpu (demo_task i) = (if i = 1 then 1 else 0)"
  "cpu_affinity_mask (demo_task i) = CPU_MASK_ALL" "wakeup_tick (demo_task i) = (if i = 5 then 4 else if i = 7 then 3 else 0)"
  "wait_channel (demo_task i) = (if i = 4 \<or> i = 5 then 7 else 0)" "task_id (demo_task i) = (if i < 8 then of_nat (i + 1) else 0)"
  by (simp_all add: demo_task_def Let_def task_reset_def)

lemma demo_free_seg: "m \<le> 32 \<Longrightarrow> 8 \<le> n \<Longrightarrow> n \<le> m \<Longrightarrow>
    dseg demo_task (if n = 8 then None else Some (n - 1)) [n..<m] (if m = 32 then None else Some m)"
proof (induction "m - n" arbitrary: n)
  case (Suc k)
  then have "[n..<m] = n # [Suc n..<m]" by (simp add: upt_rec)
  moreover have "list_prev (demo_task n) = (if n = 8 then None else Some (n - 1))"
    "list_next (demo_task n) = (if n = 31 then None else Some (n + 1))"
    using Suc by (simp_all add: demo_task_def Let_def task_reset_def)
  moreover have "(case [Suc n..<m] of [] \<Rightarrow> if m = 32 then None else Some m | y # _ \<Rightarrow> Some y) = (if n = 31 then None else Some (n + 1))"
    using Suc by (auto simp: upt_rec [of "Suc n"])
  ultimately show ?case using Suc.hyps(1) [of "Suc n"] Suc by simp
qed simp

lemma demo_linked: "valid_id i \<Longrightarrow> linked demo_task (get_list i demo) (demo_queues i)"
proof (cases i)
  case Free_List
  have "dseg demo_task None [8..<32] None" using demo_free_seg [of 32 8] by simp
  moreover have "last_opt [8..<32] = Some 31" by (simp add: last_opt_def upt_rec)
  ultimately show ?thesis using Free_List by (simp add: linked_def demo_queues_def)
next
  case (Runnable_List c p)
  then show ?thesis
    by (simp add: linked_def demo_queues_def demo_cpu_def task_list_init_def) (simp add: demo_task_def Let_def task_reset_def last_opt_def)
qed (simp_all add: linked_def demo_queues_def demo_task_def Let_def task_reset_def last_opt_def)

lemma demo_mem: "valid_id i \<Longrightarrow> x \<in> set (demo_queues i) \<longleftrightarrow> x < MAX_THREADS \<and> home (demo_task x) = Some i"
proof (cases i)
  case Free_List
  have "x \<in> set [8..<32] \<longleftrightarrow> 8 \<le> x \<and> x < 32" by (simp only: set_upt atLeastLessThan_iff)
  then show ?thesis unfolding Free_List demo_queues_def list_id.case home_def demo_kind by auto
qed (auto simp: demo_queues_def home_def demo_kind demo_place)

lemma demo_rep: "sched_rep {} demo_queues demo"
proof -
  have "contents demo_queues demo" using demo_linked demo_mem by (simp add: contents_def)
  moreover have "cpus_ok demo" "currents_ok demo"
    by (auto simp: cpus_ok_def currents_ok_def demo_cpu_def demo_state split: if_splits)
  moreover have "kind_ok (demo_task t)" "placed demo t" for t
    by (simp_all add: kind_ok_def placed_def demo_kind demo_state demo_place demo_cpu_def)
  moreover have "queued demo_queues c = (if c = 0 then 2 else 0)" for c
    by (simp add: queued_def demo_queues_def numeral_eq_Suc lessThan_Suc)
  then have "runnable_count (demo_cpu c) = of_nat (queued demo_queues c)" for c by (simp add: demo_cpu_def)
  moreover have "\<exists>c<MAX_CPUS. current (demo_cpu c) = Some t" if "state (demo_task t) = TASK_RUNNING" for t
    using that by (intro exI [of _ t]) (auto simp: demo_state demo_cpu_def split: if_splits)
  ultimately show ?thesis by (simp add: sched_rep_def)
qed

lemma demo_inv: "sched_inv demo"
  by (rule sched_rep_inv [OF demo_rep])

lemma demo_members: "valid_id i \<Longrightarrow> members i demo = demo_queues i"
  by (rule sched_rep_members [OF demo_rep])

definition demo_env :: "u32 \<Rightarrow> cpu_env" where
  "demo_env c = \<lparr>env_cpu = c, env_smp = True\<rparr>"

lemma demo_current [simp]: "scheduler_current_cpu_state (demo_env 0) demo = 0" "scheduler_current_cpu_state (demo_env 1) demo = 1"
  by (simp_all add: scheduler_current_cpu_state_def demo_env_def demo_cpu_def word_le_nat_alt)

end
