(* ===== verification/Sched_Props.thy ===== *)
theory Sched_Props
  imports Sched_Demo
begin

text \<open>
  The properties of the scheduler.
\<close>

section \<open>Properties\<close>

lemma inv_rep: "sched_inv s \<Longrightarrow> sched_rep {} (\<lambda>i. members i s) s"
  by (simp add: sched_inv_def)





text \<open>C21: A yield. The running task goes to the back of the queue of its level and the head of the first nonempty
  level is dispatched, with its saved frame, kernel stack and address space; the handler panics exactly when the CPU
  runs no task and all its queues are empty.\<close>

theorem scheduler_yield_spec:
  assumes "sched_inv s" "c = scheduler_current_cpu_state e s" "q = requeue c s (\<lambda>i. members i s)"
  shows "case next_level q c of
      None \<Rightarrow> scheduler_on_yield e fr s = None \<and> runs_on c s = None
    | Some p \<Rightarrow> \<exists>s'. scheduler_on_yield e fr s =
          Some (Switch (if current (cpus s c) = Some (hd (q (Runnable_List c p))) then fr else frame (tasks s (hd (q (Runnable_List c p)))))
             (kernel_stack_top (tasks s (hd (q (Runnable_List c p))))) (space (tasks s (hd (q (Runnable_List c p))))), s') \<and>
        sched_inv s' \<and> runs_on c s' = Some (hd (q (Runnable_List c p))) \<and>
        (\<forall>i. valid_id i \<longrightarrow> members i s' = (q(Runnable_List c p := tl (q (Runnable_List c p)))) i)"
proof (cases "next_level q c")
  case None
  then show ?thesis using yield_panic [OF inv_rep [OF assms(1)] assms(2)] assms(3) requeue_level [of c s]
    by (cases "runs_on c s") auto
next
  case (Some p)
  then obtain t ts where t: "q (Runnable_List c p) = t # ts" using next_level_Some(2) [OF Some] by (meson neq_Nil_conv)
  from yield_rep [OF inv_rep [OF assms(1)] assms(2), folded assms(3), OF Some t, of fr] obtain s' where
    "scheduler_on_yield e fr s = Some (Switch (if current (cpus s c) = Some t then fr else frame (tasks s t)) (kernel_stack_top (tasks s t)) (space (tasks s t)), s')"
    "sched_rep {} (q(Runnable_List c p := ts)) s'" "current (cpus s' c) = Some t" "state (tasks s' t) = TASK_RUNNING" by blast
  then show ?thesis using Some t sched_rep_inv sched_rep_members [of "{}" "q(Runnable_List c p := ts)" s']
    by (auto simp: runs_on_def)
qed

lemma demo_runs [simp]: "runs_on 0 demo = Some 0" "runs_on (Suc 0) demo = Some 1"
  by (simp_all add: runs_on_def demo_cpu_def demo_state)

lemma demo_requeue: "requeue 0 demo (\<lambda>i. members i demo) (Runnable_List 0 p) = (if p = 2 then [2, 3, 0] else members (Runnable_List 0 p) demo)"
  by (simp add: requeue_def Let_def demo_place scheduler_priority_sanitize_def demo_members demo_queues_def)

theorem scheduler_yield_spec_witness:
  "\<exists>s'. scheduler_on_yield (demo_env 0) 99 demo = Some (Switch 0 0 0, s') \<and> runs_on 0 s' = Some 2 \<and>
     members (Runnable_List 0 2) s' = [3, 0]"
proof -
  have "next_level (requeue 0 demo (\<lambda>i. members i demo)) 0 = Some 2"
    by (simp add: next_level_def demo_requeue demo_members demo_queues_def)
  then show ?thesis
    using scheduler_yield_spec [OF demo_inv _ refl, of 0 "demo_env 0" 99]
    by (auto simp: demo_requeue demo_cpu_def demo_task_def Let_def task_reset_def)
qed

text \<open>C22: Round robin. While the tasks of the highest nonempty level of a CPU yield to each other, each yield moves to
  the next of them in turn; so each of the \<open>n\<close> queued ones runs within \<open>n\<close> yields, and no yield panics.\<close>

theorem scheduler_round_robin:
  assumes "sched_inv s" "c = scheduler_current_cpu_state e s" "runs_on c s = Some t"
    and "p = unat (scheduler_priority_sanitize (priority (tasks s t)))" "\<forall>r<p. members (Runnable_List c r) s = []"
    and "k < length (members (Runnable_List c p) s)" "length frs = Suc k"
  shows "\<exists>s'. run_yields e frs s = Some s' \<and> runs_on c s' = Some (members (Runnable_List c p) s ! k)"
proof -
  let ?q = "members (Runnable_List c p) s"
  obtain s' where s': "run_yields e frs s = Some s'" "runs_on c s' = Some (rotate (length frs) (t # ?q) ! 0)"
    using run_yields_rep [OF inv_rep [OF assms(1)] assms(2,3) assms(4) [symmetric], of frs] assms(5) by auto
  have "rotate (Suc k) (t # ?q) ! 0 = ?q ! k" using assms(6) nth_rotate [of 0 "t # ?q" "Suc k"] by simp
  then show ?thesis using s' assms(7) by auto
qed

theorem scheduler_round_robin_witness:
  "\<exists>s'. run_yields (demo_env 0) [8, 9] demo = Some s' \<and> runs_on 0 s' = Some 3"
  using scheduler_round_robin [OF demo_inv, of 0 "demo_env 0" 0 2 1 "[8, 9]"]
  by (simp add: demo_place scheduler_priority_sanitize_def demo_members demo_queues_def del: run_yields.simps)

text \<open>C23: Waking a channel returns, wakes the first \<open>limit\<close> waiters of the channel (all of them for limit 0) in the
  order in which they blocked, queues each at the back of its level on its CPU with a true wait result, and leaves the
  other waiters blocked in their order.\<close>

theorem scheduler_wake_channel_spec:
  assumes "sched_inv s" "ch \<noteq> 0"
    and "ws = filter (\<lambda>t. wait_channel (tasks s t) = ch) (members Blocked_List s)"
    and "woken = (if limit = 0 then ws else take (unat limit) ws)"
  shows "\<exists>s'. scheduler_wake_channel e ch limit s = Some (of_nat (length woken), s') \<and> sched_inv s' \<and>
    members Blocked_List s' = filter (\<lambda>t. t \<notin> set woken) (members Blocked_List s) \<and>
    (\<forall>c<MAX_CPUS. \<forall>p<5. members (Runnable_List c p) s' =
       members (Runnable_List c p) s @ filter (\<lambda>t. target_list t s = Runnable_List c p) woken) \<and>
    (\<forall>t\<in>set woken. state (tasks s' t) = TASK_RUNNABLE \<and> wait_result (tasks s' t))"
proof -
  let ?b = "members Blocked_List s" and ?l = "if limit = 0 then UINT_MAX else limit"
  note r = inv_rep [OF assms(1)]
  have v: "valid_id Blocked_List" by simp
  note len = contents_length [OF sched_repD(1) [OF r] v]
  have h: "lhead (blocked_list s) = hd_opt ?b" using contents_head [OF sched_repD(1) [OF r] v] by simp
  have "length ws \<le> 32" using len(1) length_filter_le [of _ ?b] assms(3) by (meson le_trans)
  then have w: "take (unat ?l) ws = woken" using assms(4) by simp
  obtain s' where s': "wake_loop e ch ?l (hd_opt ?b) 0 s = Some (of_nat (length woken), s')"
    "sched_rep {} (wake_all Blocked_List (\<lambda>t. target_list t s) woken (\<lambda>i. members i s)) s'"
    "\<forall>t\<in>set woken. state (tasks s' t) = TASK_RUNNABLE \<and> wait_result (tasks s' t)"
    using wake_loop_rep [OF r, of "[]" ?b 0 ?l e ch] len(1) w assms(3) by auto
  have m: "members i s' = wake_all Blocked_List (\<lambda>t. target_list t s) woken (\<lambda>i. members i s) i" if "valid_id i" for i
    using sched_rep_members [OF s'(2) that] .
  have "members Blocked_List s' = fold remove1 woken ?b"
    unfolding m [OF v] by (rule wake_all_from) (simp add: target_list_def)
  also have "\<dots> = filter (\<lambda>t. t \<notin> set woken) ?b"
    using len(2) by (rule remove1_set)
  finally show ?thesis
    using s' sched_rep_inv [OF s'(2)] m wake_all_to [of "Runnable_List _ _" Blocked_List] assms(2) h
    by (auto simp: scheduler_wake_channel_def)
qed

theorem scheduler_wake_channel_spec_witness:
  "\<exists>s'. scheduler_wake_channel (demo_env 1) 7 1 demo = Some (1, s') \<and> members Blocked_List s' = [5] \<and>
     members (Runnable_List 0 2) s' = [2, 3, 4] \<and> wait_result (tasks s' 4)"
proof -
  have "target_list 4 demo = Runnable_List 0 2"
    by (simp add: target_list_def demo_place scheduler_cpu_by_id_def demo_cpu_def scheduler_priority_sanitize_def)
  then show ?thesis
    using scheduler_wake_channel_spec [OF demo_inv, of 7 "[4, 5]" "[4]" 1 "demo_env 1"]
    by (auto simp: demo_members demo_queues_def demo_place)
qed

text \<open>C24: Advancing the timers ends whatever the state, and wakes exactly the sleepers whose time has come and the
  waiters whose timeout has; a waiter without timeout stays blocked.\<close>

theorem scheduler_advance_timers_spec:
  assumes "sched_inv s"
  shows "\<exists>s'. scheduler_advance_timers e s = Some s' \<and> sched_inv s' \<and>
    members Sleeping_List s' = filter (\<lambda>t. \<not> wakeup_tick (tasks s t) \<le> system_ticks s) (members Sleeping_List s) \<and>
    members Blocked_List s' = filter (\<lambda>t. wakeup_tick (tasks s t) = 0 \<or> \<not> wakeup_tick (tasks s t) \<le> system_ticks s) (members Blocked_List s) \<and>
    (\<forall>c<MAX_CPUS. \<forall>p<5. members (Runnable_List c p) s' = members (Runnable_List c p) s @
       filter (\<lambda>t. target_list t s = Runnable_List c p)
         (expired_sleepers s (members Sleeping_List s) @ expired_waiters s (members Blocked_List s)))"
proof -
  note r = inv_rep [OF assms]
  let ?m = "\<lambda>i. members i s" let ?sl = "expired_sleepers s (members Sleeping_List s)" let ?wt = "expired_waiters s (members Blocked_List s)"
  let ?q1 = "wake_all Sleeping_List (\<lambda>t. target_list t s) ?sl ?m" let ?q2 = "wake_all Blocked_List (\<lambda>t. target_list t s) ?wt ?q1"
  obtain s' where s': "scheduler_advance_timers e s = Some s'" "sched_rep {} ?q2 s'" using advance_timers_rep [OF r, of e] by blast
  have ne: "target_list t s \<noteq> Sleeping_List" "target_list t s \<noteq> Blocked_List" for t by (simp_all add: target_list_def)
  have m: "members i s' = ?q2 i" if "valid_id i" for i using sched_rep_members [OF s'(2) that] .
  have d: "distinct (members Sleeping_List s)" "distinct (members Blocked_List s)"
    using contents_length(2) [OF sched_repD(1) [OF r]] by simp_all
  have "?q2 Sleeping_List = filter (\<lambda>t. \<not> wakeup_tick (tasks s t) \<le> system_ticks s) (members Sleeping_List s)"
    using remove1_filter [OF d(1)] ne by (simp add: wake_all_to wake_all_from expired_sleepers_def)
  moreover have "?q2 Blocked_List = filter (\<lambda>t. wakeup_tick (tasks s t) = 0 \<or> \<not> wakeup_tick (tasks s t) \<le> system_ticks s) (members Blocked_List s)"
    using remove1_filter [OF d(2)] ne by (simp add: wake_all_to wake_all_from expired_waiters_def)
  moreover have "?q2 (Runnable_List c p) = members (Runnable_List c p) s @ filter (\<lambda>t. target_list t s = Runnable_List c p) (?sl @ ?wt)" for c p
    by (simp add: wake_all_to)
  ultimately show ?thesis using s' sched_rep_inv [OF s'(2)] m by auto
qed

theorem scheduler_advance_timers_spec_witness:
  "\<exists>s'. scheduler_advance_timers (demo_env 0) demo = Some s' \<and> members Sleeping_List s' = [] \<and>
     members Blocked_List s' = [4] \<and> members (Runnable_List 0 2) s' = [2, 3, 7, 5]"
proof -
  have "target_list t demo = Runnable_List 0 2" if "t \<noteq> 1" for t
    using that by (simp add: target_list_def demo_place scheduler_cpu_by_id_def demo_cpu_def scheduler_priority_sanitize_def)
  then show ?thesis
    using scheduler_advance_timers_spec [OF demo_inv, of "demo_env 0"]
    by (auto simp: demo_members demo_queues_def demo_place expired_sleepers_def expired_waiters_def)
qed

text \<open>C25: Placement. Of the CPUs that are online and in the affinity mask (of all online ones if there is none), and
  of these only those of the preferred node if there are any, the one with the least load is chosen; on a tie the local
  CPU if it is among them, else the lowest number. The invalid id is returned only if no CPU is online.\<close>

theorem select_best_cpu_spec:
  assumes "cpu_count \<le> 8" "r = scheduler_select_best_cpu_from_view cpu_count up node cpu_load affinity preferred local_cpu"
  shows "if \<exists>c<unat cpu_count. up c
    then r \<noteq> INVALID_CPU_ID \<and> best_of (candidates (unat cpu_count) up node affinity preferred) cpu_load (unat local_cpu) (unat r)
    else r = INVALID_CPU_ID"
  using select_best_rep [OF assms] by auto

theorem select_best_cpu_spec_witness:
  "scheduler_select_best_cpu_from_view 4 (\<lambda>_. True) (\<lambda>c. [0, 0, 1, 1] ! c) (\<lambda>c. [4, 2, 1, 3] ! c) CPU_MASK_ALL 1 0 = 2 \<and>
   best_of (candidates 4 (\<lambda>_. True) (\<lambda>c. [0, 0, 1, 1] ! c) CPU_MASK_ALL 1) (\<lambda>c. [4, 2, 1, 3] ! c) 0 2"
proof -
  have r: "2 = scheduler_select_best_cpu_from_view 4 (\<lambda>_. True) (\<lambda>c. [0, 0, 1, 1] ! c) (\<lambda>c. [4, 2, 1, 3] ! c) CPU_MASK_ALL 1 0"
    by (simp add: scheduler_select_best_cpu_from_view_def select_pass_def consider_cpu_def cpu_mask_def upt_rec Let_def)
  have "(4 :: u8) \<le> 8" "\<exists>c<unat (4 :: u8). True" by (simp_all add: word_le_nat_alt exI [of _ 0])
  then show ?thesis using select_best_cpu_spec [OF _ r] r by (simp only: if_True) simp
qed

text \<open>C26: Load balancing returns and either changes nothing or moves one queued task, within its priority level, from
  an online CPU to an online CPU that its affinity mask allows and whose load in the view is less by at least two.\<close>

theorem scheduler_balance_once_spec:
  assumes "sched_inv s" "cpu_count \<le> 8"
  shows "\<exists>moved cpu_load' s'. scheduler_balance_once_from_view e cpu_count up node cpu_load notify s = Some (moved, cpu_load', s') \<and>
    sched_inv s' \<and> (if moved then balance_move s (\<lambda>i. members i s) cpu_load s' cpu_load' else s' = s)"
proof -
  obtain moved ld' s' where b: "scheduler_balance_once_from_view e cpu_count up node cpu_load notify s = Some (moved, ld', s')"
    "if moved then balance_move s (\<lambda>i. members i s) cpu_load s' ld' else s' = s"
    using balance_once_rep [OF inv_rep [OF assms(1)] assms(2), of e up node cpu_load notify] by blast
  have "sched_inv s'"
    using b(2) assms(1) balance_move_inv [of s "\<lambda>i. members i s" cpu_load s' ld'] sched_rep_inv by (cases moved) auto
  then show ?thesis using b by blast
qed

theorem scheduler_balance_once_spec_witness:
  "\<exists>moved cpu_load' s'. scheduler_balance_once_from_view (demo_env 0) 2 (\<lambda>c. online (cpus demo c)) (\<lambda>_. 0) (\<lambda>c. scheduler_cpu_load c demo) True demo =
     Some (moved, cpu_load', s') \<and> sched_inv s'"
  using scheduler_balance_once_spec [OF demo_inv, of 2 "demo_env 0" "\<lambda>c. online (cpus demo c)" "\<lambda>_. 0" "\<lambda>c. scheduler_cpu_load c demo" True]
  by (simp add: word_le_nat_alt) blast

text \<open>C27: Reaping returns, and hands over the stacks and address spaces of the first \<open>limit\<close> zombies that no CPU has as
  its current task (of all of them for limit 0), whose slots become free; no other zombie is touched.\<close>

theorem scheduler_reap_zombies_spec:
  assumes "sched_inv s" "zs = filter (\<lambda>t. \<forall>c<MAX_CPUS. current (cpus s c) \<noteq> Some t) (members Zombie_List s)"
    and "gone = (if limit = 0 then zs else take (unat limit) zs)"
  shows "\<exists>s'. scheduler_reap_zombies limit s = Some (of_nat (length gone), map (reaped_resources s) gone, s') \<and> sched_inv s' \<and>
    members Zombie_List s' = filter (\<lambda>t. t \<notin> set gone) (members Zombie_List s) \<and>
    members Free_List s' = members Free_List s @ gone"
proof -
  note r = inv_rep [OF assms(1)]
  let ?l = "if limit = 0 then UINT_MAX else limit"
  have v: "valid_id Zombie_List" "valid_id Free_List" by simp_all
  note len = contents_length [OF sched_repD(1) [OF r] v(1)]
  have zs: "reapable s (members Zombie_List s) = zs"
    unfolding assms(2) reapable_def using is_current_iff [OF sched_repD(2,3) [OF r]] by (intro filter_cong) auto
  have "length zs \<le> 32" using len(1) length_filter_le [of _ "members Zombie_List s"] assms(2) by (meson le_trans)
  then have w: "take (unat (?l - 0)) (reapable s (members Zombie_List s)) = gone" using assms(3) zs by simp
  obtain s' where s': "reap_loop ?l 0 [] s = Some (of_nat (length gone), map (reaped_resources s) gone, s')"
    "sched_rep {} (wake_all Zombie_List (\<lambda>_. Free_List) gone (\<lambda>i. members i s)) s'"
    using reap_loop_rep [OF r, of 0 ?l "[]"] unfolding w by auto
  note m = sched_rep_members [OF s'(2)]
  have "members Zombie_List s' = filter (\<lambda>t. t \<notin> set gone) (members Zombie_List s)"
    unfolding m [OF v(1)] using remove1_set [OF len(2)] by (subst wake_all_from) simp_all
  moreover have "members Free_List s' = members Free_List s @ gone" unfolding m [OF v(2)] by (subst wake_all_to) simp_all
  ultimately show ?thesis using s'(1) sched_rep_inv [OF s'(2)] by (simp add: scheduler_reap_zombies_def)
qed

theorem scheduler_reap_zombies_spec_witness:
  "\<exists>s'. scheduler_reap_zombies 0 demo = Some (1, [\<lparr>res_stack_base = 0, res_space = 0\<rparr>], s') \<and> members Zombie_List s' = [] \<and>
     members Free_List s' = [8..<32] @ [6]"
proof -
  have "[6] = filter (\<lambda>t. \<forall>c<MAX_CPUS. current (cpus demo c) \<noteq> Some t) (members Zombie_List demo)"
    by (simp add: demo_members demo_queues_def demo_cpu_def)
  from scheduler_reap_zombies_spec [OF demo_inv this, of "[6]" 0] show ?thesis
    by (simp add: demo_members demo_queues_def reaped_resources_def demo_task_def Let_def task_reset_def) blast
qed



text \<open>C29: The task lists are first-in first-out: distinct tasks appended to an empty list come back in this order,
  and the list is empty then.\<close>

theorem task_list_fifo:
  assumes "distinct ts" "length ts < 2 ^ 32" "push_all (\<lambda>l t. task_list_push_back l t kind) ts task_list_init h = (l, h')"
  shows "pop_all task_list_pop_front (Suc (length ts)) l h' = map Some ts @ [None]"
proof -
  have l: "linked h' l ts" using tq.push_all_holds [OF linked_init, of ts kind h l h'] assms by simp
  have "pop_all task_list_pop_front (Suc (length xs)) l h' = map Some xs @ [None]" if "linked h' l xs" for xs l h'
    using that
  proof (induction xs arbitrary: l h')
    case (Cons x xs)
    then obtain l1 h1 where "task_list_pop_front l h' = (Some x, l1, h1)" "linked h1 l1 xs" using pop_front_linked by blast
    then show ?case using Cons.IH by simp
  qed (simp add: pop_front_empty)
  then show ?thesis using l .
qed

theorem task_list_fifo_witness:
  "pop_all task_list_pop_front 4 (fst (push_all (\<lambda>l t. task_list_push_back l t TASK_LIST_RUNNABLE) [5, 3, 9] task_list_init demo_task))
     (snd (push_all (\<lambda>l t. task_list_push_back l t TASK_LIST_RUNNABLE) [5, 3, 9] task_list_init demo_task)) = [Some 5, Some 3, Some 9, None]"
proof -
  have d: "distinct [5 :: nat, 3, 9]" "length [5 :: nat, 3, 9] < 2 ^ 32" and n: "Suc (length [5 :: nat, 3, 9]) = 4" by simp_all
  from task_list_fifo [OF d prod.collapse [symmetric], of TASK_LIST_RUNNABLE demo_task, unfolded n] show ?thesis
    by (simp del: push_all.simps pop_all.simps)
qed

section \<open>Windows between the critical sections\<close>

text \<open>C30: A join can sleep through the exit it waits for. The check of \<open>scheduler_join_task\<close> and its wait are two
  critical sections; if the task exits and wakes the join channel between them, the joiner blocks without a timeout on
  a task that is already a zombie.\<close>

theorem join_misses_exit:
  assumes "sched_inv s" "scheduler_current_task e1 s = Some j" "state (tasks s j) = TASK_RUNNING"
    and "scheduler_current_task e2 s = Some t" "state (tasks s t) = TASK_RUNNING" "j \<noteq> t"
    and "scheduler_find_task_by_id i s = Some t" "ch \<noteq> 0" "\<forall>x\<in>set (members Blocked_List s). wait_channel (tasks s x) \<noteq> ch"
  shows "join_section i WAIT_FOREVER start s = (Join_Wait WAIT_FOREVER, None, s) \<and>
    (\<exists>s1 s2. exit_section e2 s = Some s1 \<and> scheduler_wake_channel e2 ch 0 s1 = Some (0, s2) \<and>
       (let s3 = wait_section e1 ch WAIT_FOREVER s2
        in sched_inv s3 \<and> t \<in> set (members Zombie_List s3) \<and> j \<in> set (members Blocked_List s3) \<and> wakeup_tick (tasks s3 j) = 0))"
proof -
  note r = inv_rep [OF assms(1)]
  obtain s1 where s1: "exit_section e2 s = Some s1" "sched_rep {} ((\<lambda>i. members i s)(Zombie_List := members Zombie_List s @ [t])) s1"
    using exit_section_rep [OF r assms(4,5)] by blast
  have s1e: "s1 = count_event task_exits_update (push_on Zombie_List t TASK_LIST_ZOMBIE (upd_task t (\<lambda>x. x\<lparr>state := TASK_ZOMBIE\<rparr>) s))"
    using s1(1) assms(4) by (simp add: exit_section_def)
  have k1: "keeps {t} s s1" unfolding s1e by (rule keeps_step [OF keeps_step [OF keeps_upd_task keeps_lists(1)] keeps_globals(1)])
  have wc: "wait_channel (tasks s1 x) = wait_channel (tasks s x)" for x unfolding s1e by (cases "x = t") simp_all
  have no: "filter (\<lambda>x. wait_channel (tasks s1 x) = ch) (members Blocked_List s) = []"
    using assms(9) by (auto simp: filter_empty_conv wc)
  let ?q = "(\<lambda>i. members i s)(Zombie_List := members Zombie_List s @ [t])"
  have h: "lhead (blocked_list s1) = hd_opt (members Blocked_List s)"
    using contents_head [OF sched_repD(1) [OF s1(2)], of Blocked_List] by simp
  have len: "length (members Blocked_List s) \<le> 32" using contents_length(1) [OF sched_repD(1) [OF r], of Blocked_List] by simp
  obtain s2 where s2: "wake_loop e2 ch UINT_MAX (hd_opt (members Blocked_List s)) 0 s1 = Some (0, s2)" "keeps {} s1 s2" "sched_rep {} ?q s2"
    using wake_loop_rep [OF s1(2), of "[]" "members Blocked_List s" 0 UINT_MAX e2 ch] no len by auto
  have k: "keeps {t} s s2" using keeps_trans [OF k1 s2(2)] by simp
  have cur: "scheduler_current_task e1 s2 = Some j"
    using k assms(2) same_cpus_current [OF keeps_same_cpus [OF k], of e1] by (simp add: scheduler_current_task_def keeps_def)
  have run: "state (tasks s2 j) = TASK_RUNNING" using keeps_fields(1) [OF k, of j] assms(3,6) by simp
  have r3: "sched_rep {} (?q(Blocked_List := ?q Blocked_List @ [j])) (wait_section e1 ch WAIT_FOREVER s2)"
    by (rule wait_section_rep [OF s2(3) cur run])
  have "wakeup_tick (tasks (wait_section e1 ch WAIT_FOREVER s2) j) = 0" by (simp add: wait_section_def cur Let_def)
  moreover have "members Zombie_List (wait_section e1 ch WAIT_FOREVER s2) = members Zombie_List s @ [t]"
    "members Blocked_List (wait_section e1 ch WAIT_FOREVER s2) = members Blocked_List s @ [j]"
    using sched_rep_members [OF r3] by simp_all
  moreover have "scheduler_wake_channel e2 ch 0 s1 = Some (0, s2)" using s2(1) h assms(8) by (simp add: scheduler_wake_channel_def)
  moreover have "join_section i WAIT_FOREVER start s = (Join_Wait WAIT_FOREVER, None, s)"
    using assms(5,7) by (simp add: join_section_def)
  ultimately show ?thesis using s1(1) sched_rep_inv [OF r3] by (simp add: Let_def)
qed

theorem join_misses_exit_witness:
  "\<exists>s1 s2. exit_section (demo_env 1) demo = Some s1 \<and> scheduler_wake_channel (demo_env 1) 9 0 s1 = Some (0, s2) \<and>
     1 \<in> set (members Zombie_List (wait_section (demo_env 0) 9 WAIT_FOREVER s2)) \<and>
     0 \<in> set (members Blocked_List (wait_section (demo_env 0) 9 WAIT_FOREVER s2))"
proof -
  have "scheduler_current_task (demo_env 0) demo = Some 0" "scheduler_current_task (demo_env 1) demo = Some 1"
    by (simp_all add: scheduler_current_task_def demo_cpu_def)
  moreover have "scheduler_find_task_by_id 2 demo = Some 1"
    by (simp add: scheduler_find_task_by_id_def demo_state demo_place upt_rec)
  ultimately show ?thesis
    using join_misses_exit [OF demo_inv, of "demo_env 0" 0 "demo_env 1" 1 2 9 0]
    by (simp add: demo_state demo_members demo_queues_def demo_place Let_def) blast
qed









end
