(* ===== verification/Sched_Report.thy ===== *)
theory Sched_Report
  imports Sched_Ops
begin

text \<open>
  The snapshots and the self tests of \<^verbatim>\<open>kernel/kernel/scheduler.c\<close>.
\<close>

section \<open>Snapshots\<close>

definition task_state_name :: "task_state \<Rightarrow> string" where
  "task_state_name st = (case st of
     TASK_UNUSED \<Rightarrow> ''unused'' | TASK_RUNNABLE \<Rightarrow> ''runnable'' | TASK_RUNNING \<Rightarrow> ''running''
   | TASK_SLEEPING \<Rightarrow> ''sleeping'' | TASK_BLOCKED \<Rightarrow> ''blocked'' | TASK_ZOMBIE \<Rightarrow> ''zombie'')"

definition scheduler_task_count :: "scheduler \<Rightarrow> u32" where
  "scheduler_task_count s =
     fold (\<lambda>i count. if state (tasks s i) \<noteq> TASK_UNUSED then count + 1 else count) [0..<MAX_THREADS] 0"

record scheduler_task_snapshot =
  snap_id :: u32
  snap_name :: u32
  snap_state :: string
  snap_wakeup_tick :: u32
  snap_root :: u32
  snap_priority :: u8
  snap_cpu :: u8
  snap_node :: u8
  snap_affinity :: u32

text \<open>\<open>root\<close> stands for \<open>paging_space_root_physical\<close> and \<open>unnamed\<close> for the address of a string literal.\<close>

fun task_snapshot_scan :: "(u32 \<Rightarrow> u32) \<Rightarrow> u32 \<Rightarrow> u32 \<Rightarrow> u32 \<Rightarrow> nat list \<Rightarrow> scheduler \<Rightarrow> scheduler_task_snapshot option" where
  "task_snapshot_scan root unnamed index seen [] s = None"
| "task_snapshot_scan root unnamed index seen (i # is) s =
     (let x = tasks s i
      in if state x = TASK_UNUSED then task_snapshot_scan root unnamed index seen is s
         else if seen = index then
           Some \<lparr>snap_id = task_id x, snap_name = (if task_name x \<noteq> 0 then task_name x else unnamed),
             snap_state = task_state_name (state x), snap_wakeup_tick = wakeup_tick x,
             snap_root = (if space x \<noteq> 0 then root (space x) else 0),
             snap_priority = ucast (scheduler_priority_sanitize (priority x)), snap_cpu = assigned_cpu x,
             snap_node = assigned_numa_node x, snap_affinity = cpu_affinity_mask x\<rparr>
         else task_snapshot_scan root unnamed index (seen + 1) is s)"

definition scheduler_get_task_snapshot :: "(u32 \<Rightarrow> u32) \<Rightarrow> u32 \<Rightarrow> u32 \<Rightarrow> scheduler \<Rightarrow> scheduler_task_snapshot option" where
  "scheduler_get_task_snapshot root unnamed index s = task_snapshot_scan root unnamed index 0 [0..<MAX_THREADS] s"

record scheduler_cpu_snapshot =
  csnap_id :: u8
  csnap_node :: u8
  csnap_online :: bool
  csnap_runnable :: u32
  csnap_task :: u32
  csnap_name :: u32

definition scheduler_get_cpu_snapshot :: "u32 \<Rightarrow> u32 \<Rightarrow> u32 \<Rightarrow> scheduler \<Rightarrow> scheduler_cpu_snapshot option" where
  "scheduler_get_cpu_snapshot none unnamed index s =
     (if index \<ge> ucast (configured_cpu_count s) then None
      else let c = cpus s (unat index);
               snap = \<lparr>csnap_id = cpu_id c, csnap_node = numa_node c, csnap_online = online c,
                 csnap_runnable = runnable_count c, csnap_task = 0, csnap_name = none\<rparr>
           in case current c of
                None \<Rightarrow> Some snap
              | Some t \<Rightarrow> Some (snap\<lparr>csnap_task := task_id (tasks s t),
                  csnap_name := (if task_name (tasks s t) \<noteq> 0 then task_name (tasks s t) else unnamed)\<rparr>))"

record scheduler_list_snapshot =
  free_count :: u32
  lsnap_runnable :: u32
  sleeping_count :: u32
  blocked_count :: u32
  zombie_count :: u32

definition scheduler_get_list_snapshot :: "scheduler \<Rightarrow> scheduler_list_snapshot" where
  "scheduler_get_list_snapshot s =
     \<lparr>free_count = lcount (free_list s),
      lsnap_runnable = fold (\<lambda>c n. n + runnable_count (cpus s c)) [0..<unat (configured_cpu_count s)] 0,
      sleeping_count = lcount (sleeping_list s), blocked_count = lcount (blocked_list s),
      zombie_count = lcount (zombie_list s)\<rparr>"

section \<open>Self tests\<close>

record scheduler_self_test_report =
  checks :: u32
  failures :: u32

definition scheduler_self_test_record :: "bool \<Rightarrow> scheduler_self_test_report \<Rightarrow> scheduler_self_test_report" where
  "scheduler_self_test_record condition r =
     (let r1 = r\<lparr>checks := checks r + 1\<rparr> in if \<not> condition then r1\<lparr>failures := failures r1 + 1\<rparr> else r1)"

abbreviation record_all :: "bool list \<Rightarrow> scheduler_self_test_report \<Rightarrow> scheduler_self_test_report" where
  "record_all cs r \<equiv> fold scheduler_self_test_record cs r"

text \<open>The tests work on tasks and CPUs of their own: the model gives them a task table and a CPU array of
  their own and keeps from the result only what is static, the metrics and the counters.\<close>

definition on_locals :: "task_table \<Rightarrow> (nat \<Rightarrow> scheduler_cpu_state) \<Rightarrow> scheduler \<Rightarrow> scheduler" where
  "on_locals ts cs s = s\<lparr>tasks := ts, cpus := cs\<rparr>"

definition off_locals :: "scheduler \<Rightarrow> scheduler \<Rightarrow> scheduler" where
  "off_locals s s' = s\<lparr>trace_counters := trace_counters s', trace_latency := trace_latency s'\<rparr>"

type_synonym test_result = "bool \<times> scheduler_self_test_report \<times> scheduler"

definition scheduler_self_test_thread_list :: "scheduler_self_test_report \<Rightarrow> scheduler \<Rightarrow> test_result" where
  "scheduler_self_test_thread_list r s =
     (let h = (\<lambda>_. task_reset (boot_cpu_id s));
          (l, h) = task_list_push_back task_list_init 0 TASK_LIST_RUNNABLE h;
          (l, h) = task_list_push_back l 1 TASK_LIST_RUNNABLE h;
          (l, h) = task_list_push_back l 2 TASK_LIST_RUNNABLE h;
          n = lcount l;
          (a, l, h) = task_list_pop_front l h;
          (b, l, h) = task_list_pop_front l h;
          (c, l, h) = task_list_pop_front l h;
          (d, l, h) = task_list_pop_front l h;
          r = record_all [n = 3, a = Some 0, b = Some 1, c = Some 2, d = None, lcount l = 0] r
      in (n = 3 \<and> a = Some 0 \<and> b = Some 1 \<and> c = Some 2 \<and> d = None \<and> lcount l = 0, r, s))"

definition scheduler_self_test_priority_dispatch :: "scheduler_self_test_report \<Rightarrow> scheduler \<Rightarrow> test_result" where
  "scheduler_self_test_priority_dispatch r s =
     (let z = task_reset (boot_cpu_id s);
          s0 = on_locals ((\<lambda>_. z)(0 := z\<lparr>priority := 3\<rparr>, 1 := z\<lparr>priority := 2\<rparr>, 2 := z\<lparr>priority := 0\<rparr>))
                 (\<lambda>_. scheduler_cpu_state_init 0 0 True) s;
          s1 = scheduler_cpu_enqueue_runnable_local 0 0 s0;
          s2 = scheduler_cpu_enqueue_runnable_local 0 1 s1;
          s3 = scheduler_cpu_enqueue_runnable_local 0 2 s2;
          (a, s4) = scheduler_cpu_dequeue_next_runnable 0 s3;
          (b, s5) = scheduler_cpu_dequeue_next_runnable 0 s4;
          (c, s6) = scheduler_cpu_dequeue_next_runnable 0 s5;
          (d, s7) = scheduler_cpu_dequeue_next_runnable 0 s6;
          n = runnable_count (cpus s7 0);
          r = record_all [a = Some 2, b = Some 1, c = Some 0, d = None, n = 0] r
      in (a = Some 2 \<and> b = Some 1 \<and> c = Some 0 \<and> d = None \<and> n = 0, r, off_locals s s7))"

definition scheduler_self_test_numa_selection :: "scheduler_self_test_report \<Rightarrow> scheduler \<Rightarrow> test_result" where
  "scheduler_self_test_numa_selection r s =
     (let up = (\<lambda>_. True); node = (\<lambda>c. [0, 0, 1, 1] ! c); ld = (\<lambda>c. [4, 2, 1, 3] ! c);
          preferred_pick = scheduler_select_best_cpu_from_view 4 up node ld CPU_MASK_ALL 1 0;
          affinity_pick = scheduler_select_best_cpu_from_view 4 up node ld (push_bit 0 1 OR push_bit 3 1) NUMA_NODE_ANY 0;
          invalid_pick = scheduler_select_best_cpu_from_view 4 (up(3 := False)) node ld (push_bit 3 1) NUMA_NODE_ANY 0;
          r = record_all [preferred_pick = 2, affinity_pick = 3, invalid_pick = 2] r
      in (preferred_pick = 2 \<and> affinity_pick = 3 \<and> invalid_pick = 2, r, s))"

definition scheduler_self_test_task_migration :: "cpu_env \<Rightarrow> scheduler_self_test_report \<Rightarrow> scheduler \<Rightarrow> test_result" where
  "scheduler_self_test_task_migration e r s =
     (let z = task_reset (boot_cpu_id s);
          s0 = on_locals ((\<lambda>_. z)(0 := z\<lparr>priority := PRIORITY_NORMAL, cpu_affinity_mask := push_bit 0 1 OR push_bit 1 1\<rparr>,
                                 1 := z\<lparr>priority := PRIORITY_NORMAL, cpu_affinity_mask := push_bit 0 1\<rparr>))
                 ((\<lambda>_. scheduler_cpu_state_init 0 0 True)(1 := scheduler_cpu_state_init 1 0 True)) s;
          s1 = scheduler_cpu_enqueue_runnable_local 0 0 s0;
          s2 = scheduler_cpu_enqueue_runnable_local 0 1 s1;
          (moved, s3) = scheduler_migrate_runnable_task e 0 1 0 False s2;
          (blocked, s4) = scheduler_migrate_runnable_task e 0 1 1 False s3;
          cs = [moved, \<not> blocked, assigned_cpu (tasks s4 0) = 1, assigned_cpu (tasks s4 1) = 0,
                runnable_count (cpus s4 0) = 1, runnable_count (cpus s4 1) = 1];
          r = record_all cs r
      in (list_all id cs, r, off_locals s s4))"

definition scheduler_self_test_load_balancer ::
  "cpu_env \<Rightarrow> scheduler_self_test_report \<Rightarrow> scheduler \<Rightarrow> test_result option" where
  "scheduler_self_test_load_balancer e r s =
     (let z = task_reset (boot_cpu_id s); any = push_bit 0 1 OR push_bit 1 1 OR push_bit 2 1;
          s0 = on_locals ((\<lambda>_. z)(0 := z\<lparr>priority := 3, cpu_affinity_mask := push_bit 0 1\<rparr>,
                                 1 := z\<lparr>priority := 4, cpu_affinity_mask := any\<rparr>,
                                 2 := z\<lparr>priority := 4, cpu_affinity_mask := any\<rparr>))
                 (\<lambda>i. scheduler_cpu_state_init (of_nat i) 0 True) s;
          s1 = scheduler_cpu_enqueue_runnable_local 0 0 s0;
          s2 = scheduler_cpu_enqueue_runnable_local 0 1 s1;
          s3 = scheduler_cpu_enqueue_runnable_local 0 2 s2;
          ld = (\<lambda>c. scheduler_cpu_load c s3)
      in case scheduler_balance_once_from_view e 3 (\<lambda>_. True) (\<lambda>_. 0) ld False s3 of None \<Rightarrow> None | Some (first, ld1, s4) \<Rightarrow>
         case scheduler_balance_once_from_view e 3 (\<lambda>_. True) (\<lambda>_. 0) ld1 False s4 of None \<Rightarrow> None | Some (second, ld2, s5) \<Rightarrow>
         case scheduler_balance_once_from_view e 3 (\<lambda>_. True) (\<lambda>_. 0) ld2 False s5 of None \<Rightarrow> None | Some (third, ld3, s6) \<Rightarrow>
           let cs = [first, second, \<not> third, assigned_cpu (tasks s6 0) = 0, runnable_count (cpus s6 0) = 1,
                     runnable_count (cpus s6 1) = 1, runnable_count (cpus s6 2) = 1]
           in Some (list_all id cs, record_all cs r, off_locals s s6))"

definition scheduler_self_test_trace_latency_metrics :: "scheduler_self_test_report \<Rightarrow> scheduler \<Rightarrow> test_result" where
  "scheduler_self_test_trace_latency_metrics r s =
     (let m = scheduler_trace_latency_record (scheduler_trace_latency_record
                (scheduler_trace_latency_record scheduler_trace_latency_reset_metric 7) 3) 11;
          cs = [sample_count m = 3, total_ticks m = 21, min_ticks m = 3, max_ticks m = 11]
      in (list_all id cs, record_all cs r, s))"

definition scheduler_run_self_tests :: "cpu_env \<Rightarrow> scheduler \<Rightarrow> test_result option" where
  "scheduler_run_self_tests e s =
     (let r = \<lparr>checks = 0, failures = 0\<rparr>;
          (p1, r, s1) = scheduler_self_test_thread_list r s;
          (p2, r, s2) = scheduler_self_test_priority_dispatch r s1;
          (p3, r, s3) = scheduler_self_test_numa_selection r s2;
          (p4, r, s4) = scheduler_self_test_task_migration e r s3
      in case scheduler_self_test_load_balancer e r s4 of None \<Rightarrow> None | Some (p5, r, s5) \<Rightarrow>
         let (p6, r, s6) = scheduler_self_test_trace_latency_metrics r s5
         in Some (p1 \<and> p2 \<and> p3 \<and> p4 \<and> p5 \<and> p6 \<and> failures r = 0, r, s6))"

end
