(* ===== verification/Sync.thy ===== *)
theory Sync
  imports Sched_Steps
begin

text \<open>
  The locks of \<^verbatim>\<open>kernel/kernel/sync.c\<close>: atomic operations, spin locks, wait queues, conditions, reference counts
  and mutexes. The operations that run alone are functions. The calls on a mutex, which wait for each other, are
  programs of atomic steps (\<open>mutex_exec\<close>) of the tasks the scheduler runs; they block and wake through the scheduler's
  own \<open>wait_section\<close>, \<open>scheduler_on_yield\<close> and \<open>scheduler_wake_channel\<close>.
\<close>

section \<open>Atomic operations, interrupt flag, spin locks\<close>

text \<open>An atomic operation is a function of the word in memory: its result and the new word. The signed sum of
  \<open>atomic_xadd_u32\<close> is taken to wrap.\<close>

definition atomic_xadd_u32 :: "u32 \<Rightarrow> u32 \<Rightarrow> u32 \<times> u32" where
  "atomic_xadd_u32 target delta = (let previous = target in (previous + delta, target + delta))"

definition atomic_add_u32 :: "u32 \<Rightarrow> u32 \<Rightarrow> u32 \<times> u32" where
  "atomic_add_u32 target value = atomic_xadd_u32 target value"

definition atomic_sub_u32 :: "u32 \<Rightarrow> u32 \<Rightarrow> u32 \<times> u32" where
  "atomic_sub_u32 target value = atomic_xadd_u32 target (- value)"

definition atomic_try_lock_u32 :: "u32 \<Rightarrow> bool \<times> u32" where
  "atomic_try_lock_u32 target = (target = 0, 1)"

text \<open>The interrupt flag of the CPU, as the word that holds its flags.\<close>

definition X86_EFLAGS_INTERRUPT_FLAG :: u32 where
  "X86_EFLAGS_INTERRUPT_FLAG = push_bit 9 1"

definition irq_save :: "u32 \<Rightarrow> u32 \<times> u32" where
  "irq_save eflags = (eflags, eflags AND NOT X86_EFLAGS_INTERRUPT_FLAG)"

definition irq_restore :: "u32 \<Rightarrow> u32 \<Rightarrow> u32" where
  "irq_restore flags eflags =
     (if flags AND X86_EFLAGS_INTERRUPT_FLAG \<noteq> 0 then eflags OR X86_EFLAGS_INTERRUPT_FLAG else eflags)"

record kspinlock =
  lock_value :: u32

record kwait_queue =
  waiter_count :: u32

record kcondition =
  cond_queue :: kwait_queue
  cond_sequence :: u32

record kref =
  ref_value :: u32

record kobject =
  refcount :: kref
  release :: u32

record kmutex =
  mutex_lock :: kspinlock
  condition :: kcondition
  locked :: bool
  owner_task_id :: u32

text \<open>A pointer to an object is \<open>None\<close> if it is \<open>NULL\<close>. An operation that panics has no result.\<close>

definition kspinlock_init :: "kspinlock option \<Rightarrow> kspinlock option" where
  "kspinlock_init lock = map_option (\<lambda>l. l\<lparr>lock_value := 0\<rparr>) lock"

definition kspin_unlock :: "kspinlock option \<Rightarrow> kspinlock option" where
  "kspin_unlock lock = map_option (\<lambda>l. l\<lparr>lock_value := 0\<rparr>) lock"

text \<open>\<open>kspin_lock\<close> as its caller sees it alone: it returns at once from a free lock, and never from a taken one.\<close>

partial_function (option) kspin_lock :: "kspinlock option \<Rightarrow> kspinlock option option" where
  "kspin_lock lock =
     (case lock of
        None \<Rightarrow> Some None
      | Some l \<Rightarrow>
          let l1 = l\<lparr>lock_value := snd (atomic_try_lock_u32 (lock_value l))\<rparr>
          in if fst (atomic_try_lock_u32 (lock_value l)) then Some (Some l1) else kspin_lock (Some l1))"

definition kspin_lock_irqsave :: "kspinlock option \<Rightarrow> u32 \<Rightarrow> (u32 \<times> kspinlock option \<times> u32) option" where
  "kspin_lock_irqsave lock eflags =
     (let (irq_state, eflags1) = irq_save eflags
      in map_option (\<lambda>l. (irq_state, l, eflags1)) (kspin_lock lock))"

definition kspin_unlock_irqrestore :: "kspinlock option \<Rightarrow> u32 \<Rightarrow> u32 \<Rightarrow> kspinlock option \<times> u32" where
  "kspin_unlock_irqrestore lock irq_state eflags = (kspin_unlock lock, irq_restore irq_state eflags)"

section \<open>Wait queues and conditions\<close>

text \<open>A wait queue waits on the scheduler's channel of its own address, \<open>ch\<close>.\<close>

definition kwait_queue_init :: "kwait_queue option \<Rightarrow> kwait_queue option" where
  "kwait_queue_init queue = map_option (\<lambda>q. q\<lparr>waiter_count := 0\<rparr>) queue"

definition kwait_wake_one :: "cpu_env \<Rightarrow> u32 \<Rightarrow> scheduler \<Rightarrow> (u32 \<times> scheduler) option" where
  "kwait_wake_one e ch s = (if ch = 0 then Some (0, s) else scheduler_wake_channel e ch 1 s)"

definition kwait_wake_all :: "cpu_env \<Rightarrow> u32 \<Rightarrow> scheduler \<Rightarrow> (u32 \<times> scheduler) option" where
  "kwait_wake_all e ch s = (if ch = 0 then Some (0, s) else scheduler_wake_channel e ch 0 s)"

definition kwait_waiter_count :: "kwait_queue option \<Rightarrow> u32" where
  "kwait_waiter_count queue = (case queue of None \<Rightarrow> 0 | Some q \<Rightarrow> waiter_count q)"

definition kcondition_init :: "kcondition option \<Rightarrow> kcondition option" where
  "kcondition_init c = map_option (\<lambda>c. c\<lparr>cond_queue := the (kwait_queue_init (Some (cond_queue c))), cond_sequence := 0\<rparr>) c"

definition advance_sequence :: "kcondition \<Rightarrow> kcondition" where
  "advance_sequence c = c\<lparr>cond_sequence := snd (atomic_add_u32 (cond_sequence c) 1)\<rparr>"

definition kcondition_signal :: "cpu_env \<Rightarrow> u32 \<Rightarrow> kcondition option \<Rightarrow> scheduler \<Rightarrow> (kcondition option \<times> scheduler) option" where
  "kcondition_signal e ch c s =
     (case c of
        None \<Rightarrow> Some (None, s)
      | Some c \<Rightarrow> map_option (\<lambda>(n, s'). (Some (advance_sequence c), s')) (kwait_wake_one e ch s))"

definition kcondition_broadcast :: "cpu_env \<Rightarrow> u32 \<Rightarrow> kcondition option \<Rightarrow> scheduler \<Rightarrow> (kcondition option \<times> scheduler) option" where
  "kcondition_broadcast e ch c s =
     (case c of
        None \<Rightarrow> Some (None, s)
      | Some c \<Rightarrow> map_option (\<lambda>(n, s'). (Some (advance_sequence c), s')) (kwait_wake_all e ch s))"

section \<open>Reference counts\<close>

definition kref_init :: "kref option \<Rightarrow> u32 \<Rightarrow> kref option" where
  "kref_init r initial_value = map_option (\<lambda>r. r\<lparr>ref_value := initial_value\<rparr>) r"

definition kref_get :: "kref option \<Rightarrow> kref option option" where
  "kref_get r =
     (case r of
        None \<Rightarrow> Some None
      | Some r \<Rightarrow>
          let (new_value, v) = atomic_add_u32 (ref_value r) 1
          in if new_value = 0 then None else Some (Some (r\<lparr>ref_value := v\<rparr>)))"

definition kref_put :: "kref option \<Rightarrow> (bool \<times> kref option) option" where
  "kref_put r =
     (case r of
        None \<Rightarrow> Some (False, None)
      | Some r \<Rightarrow>
          let (new_value, v) = atomic_sub_u32 (ref_value r) 1
          in if new_value = UINT_MAX then None else Some (new_value = 0, Some (r\<lparr>ref_value := v\<rparr>)))"

definition kref_read :: "kref option \<Rightarrow> u32" where
  "kref_read r = (case r of None \<Rightarrow> 0 | Some r \<Rightarrow> ref_value r)"

definition kobject_init :: "kobject option \<Rightarrow> u32 \<Rightarrow> kobject option" where
  "kobject_init ob rel =
     map_option (\<lambda>ob. ob\<lparr>refcount := the (kref_init (Some (refcount ob)) 1), release := rel\<rparr>) ob"

definition kobject_get :: "kobject option \<Rightarrow> kobject option option" where
  "kobject_get ob =
     (case ob of
        None \<Rightarrow> Some None
      | Some ob \<Rightarrow> map_option (\<lambda>r. Some (ob\<lparr>refcount := the r\<rparr>)) (kref_get (Some (refcount ob))))"

text \<open>The first component is the release function that is called, if any.\<close>

definition kobject_put :: "kobject option \<Rightarrow> (u32 option \<times> kobject option) option" where
  "kobject_put ob =
     (case ob of
        None \<Rightarrow> Some (None, None)
      | Some ob \<Rightarrow>
          (case kref_put (Some (refcount ob)) of
             None \<Rightarrow> None
           | Some (last_ref, r) \<Rightarrow>
               let ob1 = ob\<lparr>refcount := the r\<rparr>
               in if \<not> last_ref then Some (None, Some ob1)
                  else if release ob1 \<noteq> 0 then Some (Some (release ob1), Some ob1)
                  else Some (None, Some ob1)))"

definition kobject_refcount :: "kobject option \<Rightarrow> u32" where
  "kobject_refcount ob = (case ob of None \<Rightarrow> 0 | Some ob \<Rightarrow> kref_read (Some (refcount ob)))"

section \<open>Mutexes\<close>

definition kmutex_init :: "kmutex option \<Rightarrow> kmutex option" where
  "kmutex_init m =
     map_option (\<lambda>m. m\<lparr>mutex_lock := the (kspinlock_init (Some (mutex_lock m))),
       condition := the (kcondition_init (Some (condition m))), locked := False, owner_task_id := 0\<rparr>) m"

definition kmutex_is_locked :: "kmutex option \<Rightarrow> bool" where
  "kmutex_is_locked m = (case m of None \<Rightarrow> False | Some m \<Rightarrow> locked m)"

definition kmutex_owner_task :: "kmutex option \<Rightarrow> u32" where
  "kmutex_owner_task m = (case m of None \<Rightarrow> 0 | Some m \<Rightarrow> owner_task_id m)"

text \<open>
  The calls on a mutex run concurrently, so they are programs of atomic steps: between any two accesses to shared
  memory another CPU or an interrupt may come. The program counter of a task names its next step.
  \<^item> \<open>Spin k\<close>, \<open>Pause k\<close>: in \<open>kspin_lock\<close>, at the exchange or in the inner loop, to continue at \<open>k\<close>;
  \<^item> \<open>Unspin k\<close>: at \<open>kspin_unlock\<close>, to continue at \<open>k\<close>;
  \<^item> \<open>Wait_*\<close>: in \<open>kcondition_wait\<close>, and in the \<open>kwait_wait\<close> and \<open>scheduler_wait_channel\<close> it calls;
  \<^item> \<open>Inside\<close>: a call of the task has locked the mutex; \<open>Outside\<close>: no call is open.
\<close>

datatype mutex_pc =
    Outside | Inside | Panicked
  | Spin mutex_pc | Pause mutex_pc | Unspin mutex_pc | Return bool
  | Try_Start | Try_Test
  | Lock_Start | Lock_Loop | Lock_Take | Lock_Owner
  | Wait_Read | Wait_Check | Wait_Enter | Wait_Block | Wait_Yield | Wait_Result | Wait_Leave | Wait_Woke | Wait_Return
  | Unlock_Start | Unlock_Test | Unlock_Owner | Unlock_Clear | Unlock_Signal | Unlock_Wake

text \<open>The local variables of the calls; \<open>start_tick\<close> is read by \<open>kmutex_lock_timeout\<close> only, and \<open>must_lock\<close> tells \<open>kmutex_lock\<close> from \<open>kmutex_lock_timeout\<close>.\<close>

record mutex_locals =
  call_id :: u32
  start_tick :: u32
  timeout_ticks :: u32
  must_lock :: bool
  wait_ticks :: u32
  observed_sequence :: u32
  woke :: bool
  signaled :: bool

text \<open>The state: the mutex, the scheduler, and per task (by id) its program counter and local variables.\<close>

record mutex_sys =
  mutex :: kmutex
  sched :: scheduler
  pc :: "u32 \<Rightarrow> mutex_pc"
  locals :: "u32 \<Rightarrow> mutex_locals"

definition goto :: "u32 \<Rightarrow> mutex_pc \<Rightarrow> mutex_sys \<Rightarrow> mutex_sys" where
  "goto i p x = x\<lparr>pc := (pc x)(i := p)\<rparr>"

definition set_locals :: "u32 \<Rightarrow> (mutex_locals \<Rightarrow> mutex_locals) \<Rightarrow> mutex_sys \<Rightarrow> mutex_sys" where
  "set_locals i f x = x\<lparr>locals := (locals x)(i := f (locals x i))\<rparr>"

definition set_mutex :: "(kmutex \<Rightarrow> kmutex) \<Rightarrow> mutex_sys \<Rightarrow> mutex_sys" where
  "set_mutex f x = x\<lparr>mutex := f (mutex x)\<rparr>"

definition set_spin :: "u32 \<Rightarrow> mutex_sys \<Rightarrow> mutex_sys" where
  "set_spin v = set_mutex (\<lambda>m. m\<lparr>mutex_lock := mutex_lock m\<lparr>lock_value := v\<rparr>\<rparr>)"

definition set_waiters :: "u32 \<Rightarrow> mutex_sys \<Rightarrow> mutex_sys" where
  "set_waiters v = set_mutex (\<lambda>m. m\<lparr>condition := condition m\<lparr>cond_queue := cond_queue (condition m)\<lparr>waiter_count := v\<rparr>\<rparr>\<rparr>)"

subsection \<open>The steps\<close>

definition spin_step :: "mutex_pc \<Rightarrow> u32 \<Rightarrow> mutex_sys \<Rightarrow> mutex_sys" where
  "spin_step k i x =
     (let (taken, v) = atomic_try_lock_u32 (lock_value (mutex_lock (mutex x)))
      in goto i (if taken then k else Pause k) (set_spin v x))"

definition pause_step :: "mutex_pc \<Rightarrow> u32 \<Rightarrow> mutex_sys \<Rightarrow> mutex_sys" where
  "pause_step k i x = goto i (if lock_value (mutex_lock (mutex x)) \<noteq> 0 then Pause k else Spin k) x"

definition unspin_step :: "mutex_pc \<Rightarrow> u32 \<Rightarrow> mutex_sys \<Rightarrow> mutex_sys" where
  "unspin_step k i x = goto i k (set_mutex (\<lambda>m. m\<lparr>mutex_lock := the (kspin_unlock (Some (mutex_lock m)))\<rparr>) x)"

definition call_start :: "cpu_env \<Rightarrow> mutex_pc \<Rightarrow> u32 \<Rightarrow> mutex_sys \<Rightarrow> mutex_sys" where
  "call_start e k i x =
     goto i (Spin k) (set_locals i (\<lambda>l. l\<lparr>call_id := scheduler_current_task_id e (sched x), start_tick := system_ticks (sched x)\<rparr>) x)"

definition try_test :: "u32 \<Rightarrow> mutex_sys \<Rightarrow> mutex_sys" where
  "try_test i x =
     (if locked (mutex x)
      then goto i (Unspin (if owner_task_id (mutex x) = call_id (locals x i) then Panicked else Return False)) x
      else goto i Lock_Take x)"

definition lock_loop :: "u32 \<Rightarrow> mutex_sys \<Rightarrow> mutex_sys" where
  "lock_loop i x =
     (let l = locals x i; elapsed = system_ticks (sched x) - start_tick l
      in if \<not> locked (mutex x) then goto i Lock_Take x
         else if owner_task_id (mutex x) = call_id l then goto i (Unspin Panicked) x
         else if timeout_ticks l = WAIT_FOREVER then goto i Wait_Read (set_locals i (\<lambda>l. l\<lparr>wait_ticks := WAIT_FOREVER\<rparr>) x)
         else if elapsed \<ge> timeout_ticks l then goto i (Unspin (Return False)) x
         else goto i Wait_Read (set_locals i (\<lambda>l. l\<lparr>wait_ticks := timeout_ticks l - elapsed\<rparr>) x))"

definition wait_return :: "u32 \<Rightarrow> mutex_sys \<Rightarrow> mutex_sys" where
  "wait_return i x =
     (let l = locals x i
      in if \<not> signaled l \<and> timeout_ticks l \<noteq> WAIT_FOREVER \<and> locked (mutex x) then goto i (Unspin (Return False)) x
         else goto i Lock_Loop x)"

definition lock_take :: "u32 \<Rightarrow> mutex_sys \<Rightarrow> mutex_sys" where
  "lock_take i x = goto i Lock_Owner (set_mutex (\<lambda>m. m\<lparr>locked := True\<rparr>) x)"

definition lock_owner :: "u32 \<Rightarrow> mutex_sys \<Rightarrow> mutex_sys" where
  "lock_owner i x = goto i (Unspin (Return True)) (set_mutex (\<lambda>m. m\<lparr>owner_task_id := call_id (locals x i)\<rparr>) x)"

definition lock_return :: "bool \<Rightarrow> u32 \<Rightarrow> mutex_sys \<Rightarrow> mutex_sys" where
  "lock_return b i x = goto i (if b then Inside else if must_lock (locals x i) then Panicked else Outside) x"

definition wait_read :: "u32 \<Rightarrow> mutex_sys \<Rightarrow> mutex_sys" where
  "wait_read i x =
     goto i (Unspin Wait_Check) (set_locals i (\<lambda>l. l\<lparr>observed_sequence := cond_sequence (condition (mutex x)), signaled := False\<rparr>) x)"

definition wait_check :: "u32 \<Rightarrow> mutex_sys \<Rightarrow> mutex_sys" where
  "wait_check i x =
     (if cond_sequence (condition (mutex x)) \<noteq> observed_sequence (locals x i)
      then goto i (Spin Wait_Return) (set_locals i (\<lambda>l. l\<lparr>signaled := True\<rparr>) x)
      else goto i Wait_Enter x)"

definition wait_enter :: "u32 \<Rightarrow> mutex_sys \<Rightarrow> mutex_sys" where
  "wait_enter i x = goto i Wait_Block (set_waiters (snd (atomic_add_u32 (waiter_count (cond_queue (condition (mutex x)))) 1)) x)"

definition wait_block :: "u32 \<Rightarrow> cpu_env \<Rightarrow> u32 \<Rightarrow> mutex_sys \<Rightarrow> mutex_sys" where
  "wait_block ch e i x =
     (if ch = 0 \<or> wait_ticks (locals x i) = 0 \<or> scheduler_current_task e (sched x) = None
      then goto i Wait_Leave (set_locals i (\<lambda>l. l\<lparr>woke := False\<rparr>) x)
      else goto i Wait_Yield (x\<lparr>sched := wait_section e ch (wait_ticks (locals x i)) (sched x)\<rparr>))"

definition wait_yield :: "cpu_env \<Rightarrow> u32 \<Rightarrow> u32 \<Rightarrow> mutex_sys \<Rightarrow> mutex_sys option" where
  "wait_yield e fr i x =
     (case scheduler_on_yield e fr (sched x) of
        None \<Rightarrow> None
      | Some (r, s') \<Rightarrow> Some (goto i Wait_Result (x\<lparr>sched := s'\<rparr>)))"

definition wait_result_step :: "cpu_env \<Rightarrow> u32 \<Rightarrow> mutex_sys \<Rightarrow> mutex_sys option" where
  "wait_result_step e i x =
     (case scheduler_current_task e (sched x) of
        None \<Rightarrow> None
      | Some t \<Rightarrow> Some (goto i Wait_Leave (set_locals i (\<lambda>l. l\<lparr>woke := wait_result (tasks (sched x) t)\<rparr>) x)))"

definition wait_leave :: "u32 \<Rightarrow> mutex_sys \<Rightarrow> mutex_sys" where
  "wait_leave i x =
     (let (after, v) = atomic_sub_u32 (waiter_count (cond_queue (condition (mutex x)))) 1
      in goto i (if after = UINT_MAX then Panicked else Wait_Woke) (set_waiters v x))"

definition wait_woke :: "u32 \<Rightarrow> mutex_sys \<Rightarrow> mutex_sys" where
  "wait_woke i x =
     (let l = locals x i
      in if woke l then goto i Wait_Check x
         else goto i (Spin Wait_Return) (set_locals i (\<lambda>l. l\<lparr>signaled := (cond_sequence (condition (mutex x)) \<noteq> observed_sequence l)\<rparr>) x))"

definition unlock_test :: "u32 \<Rightarrow> mutex_sys \<Rightarrow> mutex_sys" where
  "unlock_test i x =
     (if \<not> locked (mutex x) then goto i (Unspin Panicked) x
      else if owner_task_id (mutex x) \<noteq> call_id (locals x i) then goto i (Unspin Panicked) x
      else goto i Unlock_Owner x)"

definition unlock_owner :: "u32 \<Rightarrow> mutex_sys \<Rightarrow> mutex_sys" where
  "unlock_owner i x = goto i Unlock_Clear (set_mutex (\<lambda>m. m\<lparr>owner_task_id := 0\<rparr>) x)"

definition unlock_clear :: "u32 \<Rightarrow> mutex_sys \<Rightarrow> mutex_sys" where
  "unlock_clear i x = goto i Unlock_Signal (set_mutex (\<lambda>m. m\<lparr>locked := False\<rparr>) x)"

definition unlock_signal :: "u32 \<Rightarrow> mutex_sys \<Rightarrow> mutex_sys" where
  "unlock_signal i x = goto i Unlock_Wake (set_mutex (\<lambda>m. m\<lparr>condition := advance_sequence (condition m)\<rparr>) x)"

definition unlock_wake :: "u32 \<Rightarrow> cpu_env \<Rightarrow> u32 \<Rightarrow> mutex_sys \<Rightarrow> mutex_sys option" where
  "unlock_wake ch e i x =
     (case kwait_wake_one e ch (sched x) of
        None \<Rightarrow> None
      | Some (n, s') \<Rightarrow> Some (goto i (Unspin Outside) (x\<lparr>sched := s'\<rparr>)))"

text \<open>The next step of task \<open>i\<close>, which runs on the CPU of \<open>e\<close>. There is none in a panic, nor outside of a call.\<close>

fun mutex_exec :: "u32 \<Rightarrow> cpu_env \<Rightarrow> u32 \<Rightarrow> mutex_pc \<Rightarrow> u32 \<Rightarrow> mutex_sys \<Rightarrow> mutex_sys option" where
  "mutex_exec ch e fr Outside i x = None"
| "mutex_exec ch e fr Inside i x = None"
| "mutex_exec ch e fr Panicked i x = None"
| "mutex_exec ch e fr (Spin k) i x = Some (spin_step k i x)"
| "mutex_exec ch e fr (Pause k) i x = Some (pause_step k i x)"
| "mutex_exec ch e fr (Unspin k) i x = Some (unspin_step k i x)"
| "mutex_exec ch e fr (Return b) i x = Some (lock_return b i x)"
| "mutex_exec ch e fr Try_Start i x = Some (call_start e Try_Test i x)"
| "mutex_exec ch e fr Try_Test i x = Some (try_test i x)"
| "mutex_exec ch e fr Lock_Start i x = Some (call_start e Lock_Loop i x)"
| "mutex_exec ch e fr Lock_Loop i x = Some (lock_loop i x)"
| "mutex_exec ch e fr Lock_Take i x = Some (lock_take i x)"
| "mutex_exec ch e fr Lock_Owner i x = Some (lock_owner i x)"
| "mutex_exec ch e fr Wait_Read i x = Some (wait_read i x)"
| "mutex_exec ch e fr Wait_Check i x = Some (wait_check i x)"
| "mutex_exec ch e fr Wait_Enter i x = Some (wait_enter i x)"
| "mutex_exec ch e fr Wait_Block i x = Some (wait_block ch e i x)"
| "mutex_exec ch e fr Wait_Yield i x = wait_yield e fr i x"
| "mutex_exec ch e fr Wait_Result i x = wait_result_step e i x"
| "mutex_exec ch e fr Wait_Leave i x = Some (wait_leave i x)"
| "mutex_exec ch e fr Wait_Woke i x = Some (wait_woke i x)"
| "mutex_exec ch e fr Wait_Return i x = Some (wait_return i x)"
| "mutex_exec ch e fr Unlock_Start i x = Some (call_start e Unlock_Test i x)"
| "mutex_exec ch e fr Unlock_Test i x = Some (unlock_test i x)"
| "mutex_exec ch e fr Unlock_Owner i x = Some (unlock_owner i x)"
| "mutex_exec ch e fr Unlock_Clear i x = Some (unlock_clear i x)"
| "mutex_exec ch e fr Unlock_Signal i x = Some (unlock_signal i x)"
| "mutex_exec ch e fr Unlock_Wake i x = unlock_wake ch e i x"

text \<open>The calls a task may open.\<close>

datatype mutex_call = Call_Try | Call_Lock | Call_Lock_Timeout u32 | Call_Unlock

fun mutex_open :: "mutex_call \<Rightarrow> u32 \<Rightarrow> mutex_sys \<Rightarrow> mutex_sys" where
  "mutex_open Call_Try i x = goto i Try_Start (set_locals i (\<lambda>l. l\<lparr>must_lock := False\<rparr>) x)"
| "mutex_open Call_Lock i x = goto i Lock_Start (set_locals i (\<lambda>l. l\<lparr>must_lock := True, timeout_ticks := WAIT_FOREVER\<rparr>) x)"
| "mutex_open (Call_Lock_Timeout n) i x = goto i Lock_Start (set_locals i (\<lambda>l. l\<lparr>must_lock := False, timeout_ticks := n\<rparr>) x)"
| "mutex_open Call_Unlock i x = goto i Unlock_Start x"

text \<open>A call with a \<open>NULL\<close> mutex ends at once with this result; \<open>kmutex_lock\<close> panics.\<close>

fun mutex_null :: "mutex_call \<Rightarrow> bool option" where
  "mutex_null Call_Try = Some False"
| "mutex_null Call_Lock = None"
| "mutex_null (Call_Lock_Timeout n) = Some False"
| "mutex_null Call_Unlock = Some True"

end
