(* ===== verification/Sync_Inv.thy ===== *)
theory Sync_Inv
  imports Sync
begin

text \<open>
  Interleaved runs of mutex calls and the scheduler, the invariant of the mutex that every step keeps, and the
  invariant of disciplined tasks, under which no step panics.
\<close>

section \<open>Runs\<close>

text \<open>A system step on the mutex whose wait queue has address \<open>ch\<close>: the task that runs on some CPU takes the next step
  of its call or opens a call, or the scheduler makes a step. With \<open>d\<close> the tasks are disciplined: a task that holds the
  mutex may only unlock it, another may not.\<close>

definition runs :: "cpu_env \<Rightarrow> mutex_sys \<Rightarrow> bool" where
  "runs e x = (case scheduler_current_task e (sched x) of None \<Rightarrow> False | Some t \<Rightarrow> state (tasks (sched x) t) = TASK_RUNNING)"

inductive mutex_step :: "bool \<Rightarrow> u32 \<Rightarrow> mutex_sys \<Rightarrow> mutex_sys \<Rightarrow> bool" for d ch where
  exec: "i = scheduler_current_task_id e (sched x) \<Longrightarrow> i \<noteq> 0 \<Longrightarrow> runs e x \<or> pc x i = Wait_Yield \<Longrightarrow>
     mutex_exec ch e fr (pc x i) i x = Some x' \<Longrightarrow> mutex_step d ch x x'"
| open_call: "i = scheduler_current_task_id e (sched x) \<Longrightarrow> i \<noteq> 0 \<Longrightarrow> runs e x \<Longrightarrow> pc x i \<in> {Outside, Inside} \<Longrightarrow>
     (d \<longrightarrow> (pc x i = Inside \<longleftrightarrow> call = Call_Unlock)) \<Longrightarrow> mutex_step d ch x (mutex_open call i x)"
| sched: "sched_step (sched x) s' \<Longrightarrow> mutex_step d ch x (x\<lparr>sched := s'\<rparr>)"

inductive mutex_reachable :: "bool \<Rightarrow> u32 \<Rightarrow> mutex_sys \<Rightarrow> bool" for d ch where
  init: "sched_inv s \<Longrightarrow> mutex_reachable d ch \<lparr>mutex = the (kmutex_init (Some m)), sched = s, pc = (\<lambda>i. Outside), locals = l\<rparr>"
| step: "mutex_reachable d ch x \<Longrightarrow> mutex_step d ch x x' \<Longrightarrow> mutex_reachable d ch x'"

section \<open>The invariant\<close>

fun holds_spin :: "mutex_pc \<Rightarrow> bool" where
  "holds_spin (Unspin k) = True"
| "holds_spin Try_Test = True"
| "holds_spin Lock_Loop = True"
| "holds_spin Lock_Take = True"
| "holds_spin Lock_Owner = True"
| "holds_spin Wait_Read = True"
| "holds_spin Wait_Return = True"
| "holds_spin Unlock_Test = True"
| "holds_spin Unlock_Owner = True"
| "holds_spin Unlock_Clear = True"
| "holds_spin Unlock_Signal = True"
| "holds_spin Unlock_Wake = True"
| "holds_spin _ = False"

fun well_formed :: "mutex_pc \<Rightarrow> bool" where
  "well_formed (Spin k) = (k \<in> {Try_Test, Lock_Loop, Wait_Return, Unlock_Test})"
| "well_formed (Pause k) = (k \<in> {Try_Test, Lock_Loop, Wait_Return, Unlock_Test})"
| "well_formed (Unspin k) = (k \<in> {Panicked, Outside, Wait_Check, Return True, Return False})"
| "well_formed p = True"

fun in_mutex :: "mutex_pc \<Rightarrow> bool" where
  "in_mutex (Unspin k) = (k = Return True)"
| "in_mutex (Return b) = b"
| "in_mutex Inside = True"
| "in_mutex Lock_Owner = True"
| "in_mutex Unlock_Owner = True"
| "in_mutex Unlock_Clear = True"
| "in_mutex _ = False"

fun id_read :: "mutex_pc \<Rightarrow> bool" where
  "id_read Outside = False"
| "id_read Inside = False"
| "id_read Panicked = False"
| "id_read Try_Start = False"
| "id_read Lock_Start = False"
| "id_read Unlock_Start = False"
| "id_read _ = True"

definition pc_ok :: "u32 option \<Rightarrow> u32 option \<Rightarrow> bool \<Rightarrow> u32 \<Rightarrow> mutex_locals \<Rightarrow> mutex_pc \<Rightarrow> bool" where
  "pc_ok l h lk i ls p =
     (well_formed p \<and> (holds_spin p \<longleftrightarrow> l = Some i) \<and> (in_mutex p \<longrightarrow> h = Some i) \<and> (id_read p \<longrightarrow> call_id ls = i) \<and>
      (p = Lock_Take \<longrightarrow> \<not> lk))"

definition mutex_inv :: "u32 option \<Rightarrow> u32 option \<Rightarrow> mutex_sys \<Rightarrow> bool" where
  "mutex_inv l h x =
     (lock_value (mutex_lock (mutex x)) = (if l = None then 0 else 1) \<and>
      (locked (mutex x) \<longleftrightarrow> h \<noteq> None) \<and>
      (\<forall>i. h = Some i \<longrightarrow> owner_task_id (mutex x) = i \<or> pc x i \<in> {Lock_Owner, Unlock_Clear}) \<and>
      (\<forall>i. pc_ok l h (locked (mutex x)) i (locals x i) (pc x i)))"

lemma mutex_inv_goto:
  assumes inv: "mutex_inv l h x"
    and pc: "pc x' = (pc x)(i := p)" and loc: "\<And>j. j \<noteq> i \<Longrightarrow> locals x' j = locals x j"
    and lv: "lock_value (mutex_lock (mutex x')) = (if l' = None then 0 else 1)"
    and lk: "locked (mutex x') \<longleftrightarrow> h' \<noteq> None"
    and own: "\<And>j. h' = Some j \<Longrightarrow> owner_task_id (mutex x') = j \<or> (if j = i then p else pc x j) \<in> {Lock_Owner, Unlock_Clear}"
    and ok: "pc_ok l' h' (locked (mutex x')) i (locals x' i) p"
    and l: "l' = l \<or> (l \<in> {None, Some i} \<and> l' \<in> {None, Some i})"
    and h: "h' = h \<or> (h \<in> {None, Some i} \<and> h' \<in> {None, Some i} \<and> l = Some i)"
  shows "\<exists>l h. mutex_inv l h x'"
proof -
  have "pc_ok l' h' (locked (mutex x')) j (locals x' j) (pc x' j)" for j
  proof (cases "j = i")
    case False
    have o: "pc_ok l h (locked (mutex x)) j (locals x j) (pc x j)" and k: "locked (mutex x) \<longleftrightarrow> h \<noteq> None"
      using inv by (auto simp: mutex_inv_def)
    then show ?thesis using False pc loc l h lk
      by (auto simp: pc_ok_def)
  qed (use ok pc in simp)
  then have "mutex_inv l' h' x'" using lv lk own pc by (auto simp: mutex_inv_def)
  then show ?thesis by blast
qed

lemma mutex_invD:
  assumes "mutex_inv l h x"
  shows "lock_value (mutex_lock (mutex x)) = (if l = None then 0 else 1)" "locked (mutex x) \<longleftrightarrow> h \<noteq> None"
    "h = Some i \<Longrightarrow> owner_task_id (mutex x) = i \<or> pc x i = Lock_Owner \<or> pc x i = Unlock_Clear"
    "pc_ok l h (locked (mutex x)) i (locals x i) (pc x i)"
  using assms by (auto simp: mutex_inv_def)

lemma owner_held:
  assumes inv: "mutex_inv l h x" and l: "l = Some i" and p: "pc x i \<notin> {Lock_Owner, Unlock_Clear}" and h: "h = Some j"
  shows "owner_task_id (mutex x) = j"
proof -
  have "pc x j \<notin> {Lock_Owner, Unlock_Clear}"
  proof
    assume "pc x j \<in> {Lock_Owner, Unlock_Clear}"
    then have "l = Some j" using mutex_invD(4) [OF inv, of j] by (auto simp: pc_ok_def)
    with l p \<open>pc x j \<in> _\<close> show False by simp
  qed
  then show ?thesis using mutex_invD(3) [OF inv h] by auto
qed

lemmas step_fields = goto_def set_locals_def set_mutex_def set_spin_def set_waiters_def Let_def

section \<open>Every step keeps the invariant\<close>

lemma mutex_inv_same:
  assumes inv: "mutex_inv l h x" and pc: "pc x' = (pc x)(i := p)" and loc: "\<And>j. j \<noteq> i \<Longrightarrow> locals x' j = locals x j"
    and m: "mutex_lock (mutex x') = mutex_lock (mutex x)" "locked (mutex x') = locked (mutex x)"
      "owner_task_id (mutex x') = owner_task_id (mutex x)"
    and ne: "pc x i \<noteq> Lock_Owner" "pc x i \<noteq> Unlock_Clear" and ok: "pc_ok l h (locked (mutex x)) i (locals x' i) p"
  shows "\<exists>l h. mutex_inv l h x'"
proof (rule mutex_inv_goto [OF inv pc loc, where l' = l and h' = h])
  show "owner_task_id (mutex x') = j \<or> (if j = i then p else pc x j) \<in> {Lock_Owner, Unlock_Clear}" if "h = Some j" for j
    using mutex_invD(3) [OF inv that] m ne by auto
qed (use mutex_invD [OF inv] m ok in simp_all)

lemma spin_inv:
  assumes inv: "mutex_inv l h x" and p: "pc x i = Spin k \<or> pc x i = Pause k"
  shows "\<exists>l h. mutex_inv l h (spin_step k i x)" "\<exists>l h. mutex_inv l h (pause_step k i x)"
proof -
  have ok: "pc_ok l h (locked (mutex x)) i (locals x i) (pc x i)" by (rule mutex_invD(4) [OF inv])
  then have k: "k \<in> {Try_Test, Lock_Loop, Wait_Return, Unlock_Test}" and l: "l \<noteq> Some i" and id: "call_id (locals x i) = i"
    using p by (auto simp: pc_ok_def)
  have own: "owner_task_id (mutex x) = j \<or> (if j = i then q else pc x j) \<in> {Lock_Owner, Unlock_Clear}" if "h = Some j" for j q
    using mutex_invD(3) [OF inv that] p by auto
  show "\<exists>l h. mutex_inv l h (pause_step k i x)"
    by (rule mutex_inv_same [OF inv, where i = i and p = "if lock_value (mutex_lock (mutex x)) \<noteq> 0 then Pause k else Spin k"])
      (use p k l id in \<open>auto simp: pause_step_def step_fields pc_ok_def\<close>)
  show "\<exists>l h. mutex_inv l h (spin_step k i x)"
  proof (rule mutex_inv_goto [OF inv, where i = i and l' = "if l = None then Some i else l" and h' = h and
        p = "if l = None then k else Pause k"])
    show "pc (spin_step k i x) = (pc x)(i := if l = None then k else Pause k)"
      using mutex_invD(1) [OF inv] by (auto simp: spin_step_def step_fields atomic_try_lock_u32_def)
    show "owner_task_id (mutex (spin_step k i x)) = j \<or> (if j = i then if l = None then k else Pause k else pc x j) \<in> {Lock_Owner, Unlock_Clear}"
      if "h = Some j" for j using own [OF that] by (auto simp: spin_step_def step_fields atomic_try_lock_u32_def)
    show "pc_ok (if l = None then Some i else l) h (locked (mutex (spin_step k i x))) i (locals (spin_step k i x) i) (if l = None then k else Pause k)"
      using k l id by (auto simp: spin_step_def step_fields atomic_try_lock_u32_def pc_ok_def)
  qed (use mutex_invD(2) [OF inv] in \<open>auto simp: spin_step_def step_fields atomic_try_lock_u32_def\<close>)
qed

lemma unspin_inv:
  assumes inv: "mutex_inv l h x" and p: "pc x i = Unspin k"
  shows "\<exists>l h. mutex_inv l h (unspin_step k i x)"
proof (rule mutex_inv_goto [OF inv, where i = i and l' = None and h' = h and p = k])
  have ok: "pc_ok l h (locked (mutex x)) i (locals x i) (pc x i)" by (rule mutex_invD(4) [OF inv])
  show "pc_ok None h (locked (mutex (unspin_step k i x))) i (locals (unspin_step k i x) i) k"
    using ok p by (auto simp: unspin_step_def step_fields pc_ok_def)
  show "owner_task_id (mutex (unspin_step k i x)) = j \<or> (if j = i then k else pc x j) \<in> {Lock_Owner, Unlock_Clear}"
    if "h = Some j" for j using mutex_invD(3) [OF inv that] p by (auto simp: unspin_step_def step_fields)
  show "None = l \<or> l \<in> {None, Some i} \<and> None \<in> {None, Some i}" using ok p by (auto simp: pc_ok_def)
qed (use mutex_invD(2) [OF inv] in \<open>auto simp: unspin_step_def step_fields kspin_unlock_def\<close>)

lemma take_inv:
  assumes inv: "mutex_inv l h x"
  shows "pc x i = Lock_Take \<Longrightarrow> \<exists>l h. mutex_inv l h (lock_take i x)"
    "pc x i = Lock_Owner \<Longrightarrow> \<exists>l h. mutex_inv l h (lock_owner i x)"
    "pc x i = Unlock_Owner \<Longrightarrow> \<exists>l h. mutex_inv l h (unlock_owner i x)"
    "pc x i = Unlock_Clear \<Longrightarrow> \<exists>l h. mutex_inv l h (unlock_clear i x)"
proof -
  have ok: "pc_ok l h (locked (mutex x)) i (locals x i) (pc x i)" by (rule mutex_invD(4) [OF inv])
  note m = mutex_invD(1,2) [OF inv] and own = mutex_invD(3) [OF inv, of i]
  show "\<exists>l h. mutex_inv l h (lock_take i x)" if p: "pc x i = Lock_Take"
    by (rule mutex_inv_goto [OF inv, where i = i and l' = l and h' = "Some i" and p = Lock_Owner])
      (use ok m p in \<open>auto simp: lock_take_def step_fields pc_ok_def\<close>)
  show "\<exists>l h. mutex_inv l h (lock_owner i x)" if p: "pc x i = Lock_Owner"
    by (rule mutex_inv_goto [OF inv, where i = i and l' = l and h' = h and p = "Unspin (Return True)"])
      (use ok m p in \<open>auto simp: lock_owner_def step_fields pc_ok_def\<close>)
  show "\<exists>l h. mutex_inv l h (unlock_owner i x)" if p: "pc x i = Unlock_Owner"
    by (rule mutex_inv_goto [OF inv, where i = i and l' = l and h' = h and p = Unlock_Clear])
      (use ok m p in \<open>auto simp: unlock_owner_def step_fields pc_ok_def\<close>)
  show "\<exists>l h. mutex_inv l h (unlock_clear i x)" if p: "pc x i = Unlock_Clear"
    by (rule mutex_inv_goto [OF inv, where i = i and l' = l and h' = None and p = Unlock_Signal])
      (use ok m p in \<open>auto simp: unlock_clear_def step_fields pc_ok_def\<close>)
qed

lemma unlock_test_inv:
  assumes inv: "mutex_inv l h x" and p: "pc x i = Unlock_Test"
  shows "\<exists>l h. mutex_inv l h (unlock_test i x)"
proof -
  have ok: "pc_ok l h (locked (mutex x)) i (locals x i) (pc x i)" by (rule mutex_invD(4) [OF inv])
  have h: "h = Some i" if lk: "locked (mutex x)" and o: "owner_task_id (mutex x) = call_id (locals x i)"
  proof -
    obtain j where j: "h = Some j" using lk mutex_invD(2) [OF inv] by auto
    moreover have "owner_task_id (mutex x) = j" by (rule owner_held [OF inv _ _ j, of i]) (use ok p in \<open>auto simp: pc_ok_def\<close>)
    ultimately show ?thesis using o ok p by (simp add: pc_ok_def)
  qed
  show ?thesis
    by (rule mutex_inv_same [OF inv, where i = i and p = "pc (unlock_test i x) i"])
      (use ok p h in \<open>auto simp: unlock_test_def step_fields pc_ok_def\<close>)
qed

lemma test_inv:
  assumes inv: "mutex_inv l h x"
  shows "pc x i = Try_Test \<Longrightarrow> \<exists>l h. mutex_inv l h (try_test i x)"
    "pc x i = Lock_Loop \<Longrightarrow> \<exists>l h. mutex_inv l h (lock_loop i x)"
    "pc x i = Wait_Return \<Longrightarrow> \<exists>l h. mutex_inv l h (wait_return i x)"
    "pc x i = Return b \<Longrightarrow> \<exists>l h. mutex_inv l h (lock_return b i x)"
    "pc x i = Wait_Read \<Longrightarrow> \<exists>l h. mutex_inv l h (wait_read i x)"
    "pc x i = Unlock_Signal \<Longrightarrow> \<exists>l h. mutex_inv l h (unlock_signal i x)"
proof -
  have ok: "pc_ok l h (locked (mutex x)) i (locals x i) (pc x i)" by (rule mutex_invD(4) [OF inv])
  show "\<exists>l h. mutex_inv l h (try_test i x)" if "pc x i = Try_Test"
    by (rule mutex_inv_same [OF inv, where i = i and p = "pc (try_test i x) i"])
      (use ok that in \<open>auto simp: try_test_def step_fields pc_ok_def\<close>)
  show "\<exists>l h. mutex_inv l h (lock_loop i x)" if "pc x i = Lock_Loop"
    by (rule mutex_inv_same [OF inv, where i = i and p = "pc (lock_loop i x) i"])
      (use ok that in \<open>auto simp: lock_loop_def step_fields pc_ok_def\<close>)
  show "\<exists>l h. mutex_inv l h (wait_return i x)" if "pc x i = Wait_Return"
    by (rule mutex_inv_same [OF inv, where i = i and p = "pc (wait_return i x) i"])
      (use ok that in \<open>auto simp: wait_return_def step_fields pc_ok_def\<close>)
  show "\<exists>l h. mutex_inv l h (lock_return b i x)" if "pc x i = Return b"
    by (rule mutex_inv_same [OF inv, where i = i and p = "pc (lock_return b i x) i"])
      (use ok that in \<open>auto simp: lock_return_def step_fields pc_ok_def\<close>)
  show "\<exists>l h. mutex_inv l h (wait_read i x)" if "pc x i = Wait_Read"
    by (rule mutex_inv_same [OF inv, where i = i and p = "pc (wait_read i x) i"])
      (use ok that in \<open>auto simp: wait_read_def step_fields pc_ok_def\<close>)
  show "\<exists>l h. mutex_inv l h (unlock_signal i x)" if "pc x i = Unlock_Signal"
    by (rule mutex_inv_same [OF inv, where i = i and p = "pc (unlock_signal i x) i"])
      (use ok that in \<open>auto simp: unlock_signal_def step_fields pc_ok_def\<close>)
qed

lemma wait_inv:
  assumes inv: "mutex_inv l h x"
  shows "pc x i = Wait_Check \<Longrightarrow> \<exists>l h. mutex_inv l h (wait_check i x)"
    "pc x i = Wait_Enter \<Longrightarrow> \<exists>l h. mutex_inv l h (wait_enter i x)"
    "pc x i = Wait_Block \<Longrightarrow> \<exists>l h. mutex_inv l h (wait_block ch e i x)"
    "pc x i = Wait_Leave \<Longrightarrow> \<exists>l h. mutex_inv l h (wait_leave i x)"
    "pc x i = Wait_Woke \<Longrightarrow> \<exists>l h. mutex_inv l h (wait_woke i x)"
proof -
  have ok: "pc_ok l h (locked (mutex x)) i (locals x i) (pc x i)" by (rule mutex_invD(4) [OF inv])
  show "\<exists>l h. mutex_inv l h (wait_check i x)" if "pc x i = Wait_Check"
    by (rule mutex_inv_same [OF inv, where i = i and p = "pc (wait_check i x) i"])
      (use ok that in \<open>auto simp: wait_check_def step_fields pc_ok_def\<close>)
  show "\<exists>l h. mutex_inv l h (wait_enter i x)" if "pc x i = Wait_Enter"
    by (rule mutex_inv_same [OF inv, where i = i and p = "pc (wait_enter i x) i"])
      (use ok that in \<open>auto simp: wait_enter_def step_fields pc_ok_def\<close>)
  show "\<exists>l h. mutex_inv l h (wait_block ch e i x)" if "pc x i = Wait_Block"
    by (rule mutex_inv_same [OF inv, where i = i and p = "pc (wait_block ch e i x) i"])
      (use ok that in \<open>auto simp: wait_block_def step_fields pc_ok_def\<close>)
  show "\<exists>l h. mutex_inv l h (wait_leave i x)" if "pc x i = Wait_Leave"
    by (rule mutex_inv_same [OF inv, where i = i and p = "pc (wait_leave i x) i"])
      (use ok that in \<open>auto simp: wait_leave_def step_fields pc_ok_def split: prod.splits\<close>)
  show "\<exists>l h. mutex_inv l h (wait_woke i x)" if "pc x i = Wait_Woke"
    by (rule mutex_inv_same [OF inv, where i = i and p = "pc (wait_woke i x) i"])
      (use ok that in \<open>auto simp: wait_woke_def step_fields pc_ok_def\<close>)
qed

lemma sched_change_inv:
  assumes inv: "mutex_inv l h x" and p: "pc x i = Wait_Yield \<and> q = Wait_Result \<or> pc x i = Wait_Result \<and> q = Wait_Leave \<or> pc x i = Unlock_Wake \<and> q = Unspin Outside"
    and f: "call_id (f (locals x i)) = call_id (locals x i)"
  shows "\<exists>l h. mutex_inv l h (goto i q (set_locals i f (x\<lparr>sched := s\<rparr>)))"
proof -
  have ok: "pc_ok l h (locked (mutex x)) i (locals x i) (pc x i)" by (rule mutex_invD(4) [OF inv])
  show ?thesis
    by (rule mutex_inv_same [OF inv, where i = i and p = q]) (use ok p f in \<open>auto simp: step_fields pc_ok_def\<close>)
qed

lemma call_inv:
  assumes inv: "mutex_inv l h x" and i: "i = scheduler_current_task_id e (sched x)"
    and p: "pc x i \<in> {Try_Start, Lock_Start, Unlock_Start}" and k: "k \<in> {Try_Test, Lock_Loop, Unlock_Test}"
  shows "\<exists>l h. mutex_inv l h (call_start e k i x)"
proof -
  have ok: "pc_ok l h (locked (mutex x)) i (locals x i) (pc x i)" by (rule mutex_invD(4) [OF inv])
  show ?thesis
    by (rule mutex_inv_same [OF inv, where i = i and p = "Spin k"]) (use ok p k i in \<open>auto simp: call_start_def step_fields pc_ok_def\<close>)
qed

lemma open_inv:
  assumes inv: "mutex_inv l h x" and p: "pc x i \<in> {Outside, Inside}"
  shows "\<exists>l h. mutex_inv l h (mutex_open call i x)"
proof -
  have ok: "pc_ok l h (locked (mutex x)) i (locals x i) (pc x i)" by (rule mutex_invD(4) [OF inv])
  show ?thesis
    by (rule mutex_inv_same [OF inv, where i = i and p = "pc (mutex_open call i x) i"])
      (use ok p in \<open>cases call; auto simp: step_fields pc_ok_def\<close>)+
qed

lemma exec_inv:
  assumes inv: "mutex_inv l h x" and i: "i = scheduler_current_task_id e (sched x)" and ex: "mutex_exec ch e fr (pc x i) i x = Some x'"
  shows "\<exists>l h. mutex_inv l h x'"
proof (cases "pc x i \<in> {Wait_Yield, Wait_Result, Unlock_Wake}")
  case True
  have u: "set_locals i (\<lambda>l. l) y = y" for y by (simp add: set_locals_def)
  from True show ?thesis
  proof (elim insertE emptyE)
    assume p: "pc x i = Wait_Yield"
    then obtain r s' where "x' = goto i Wait_Result (x\<lparr>sched := s'\<rparr>)" using ex by (auto simp: wait_yield_def split: option.splits)
    then show ?thesis using sched_change_inv [OF inv, of i Wait_Result "\<lambda>l. l" s'] p u by simp
  next
    assume p: "pc x i = Wait_Result"
    then obtain w where w: "x' = goto i Wait_Leave (set_locals i (\<lambda>l. l\<lparr>woke := w\<rparr>) x)"
      using ex by (auto simp: wait_result_step_def split: option.splits)
    have "x\<lparr>sched := sched x\<rparr> = x" by simp
    then show ?thesis using sched_change_inv [OF inv, of i Wait_Leave "\<lambda>l. l\<lparr>woke := w\<rparr>" "sched x"] p w by simp
  next
    assume p: "pc x i = Unlock_Wake"
    then obtain n s' where "x' = goto i (Unspin Outside) (x\<lparr>sched := s'\<rparr>)" using ex by (auto simp: unlock_wake_def split: option.splits)
    then show ?thesis using sched_change_inv [OF inv, of i "Unspin Outside" "\<lambda>l. l" s'] p u by simp
  qed
next
  case False
  note r = spin_inv [OF inv] unspin_inv [OF inv] take_inv [OF inv] unlock_test_inv [OF inv] test_inv [OF inv] wait_inv [OF inv] call_inv [OF inv i]
  show ?thesis using ex False by (cases "pc x i") (auto intro: r)
qed

lemma mutex_step_inv: "mutex_step d ch x x' \<Longrightarrow> mutex_inv l h x \<Longrightarrow> \<exists>l h. mutex_inv l h x'"
proof (induction rule: mutex_step.induct)
  case (exec i e x fr x')
  then show ?case by (blast intro: exec_inv)
next
  case (open_call i e x call)
  then show ?case by (blast intro: open_inv)
next
  case (sched x s')
  then have "mutex_inv l h (x\<lparr>sched := s'\<rparr>)" by (auto simp: mutex_inv_def)
  then show ?case by blast
qed

lemma mutex_reachable_inv: "mutex_reachable d ch x \<Longrightarrow> \<exists>l h. mutex_inv l h x"
proof (induction rule: mutex_reachable.induct)
  case (init s m l)
  have "mutex_inv None None \<lparr>mutex = the (kmutex_init (Some m)), sched = s, pc = (\<lambda>i. Outside), locals = l\<rparr>"
    by (simp add: mutex_inv_def pc_ok_def kmutex_init_def kspinlock_init_def)
  then show ?case by blast
next
  case (step x x')
  then show ?case using mutex_step_inv by blast
qed

section \<open>Disciplined tasks\<close>

fun holder :: "mutex_pc \<Rightarrow> bool" where
  "holder (Spin k) = (k = Unlock_Test)"
| "holder (Pause k) = (k = Unlock_Test)"
| "holder (Unspin k) = (k = Return True)"
| "holder (Return b) = b"
| "holder Inside = True"
| "holder Lock_Owner = True"
| "holder Unlock_Start = True"
| "holder Unlock_Test = True"
| "holder Unlock_Owner = True"
| "holder Unlock_Clear = True"
| "holder _ = False"

fun waiting :: "mutex_pc \<Rightarrow> bool" where
  "waiting Wait_Block = True"
| "waiting Wait_Yield = True"
| "waiting Wait_Result = True"
| "waiting Wait_Leave = True"
| "waiting _ = False"

definition pc_good :: "mutex_locals \<Rightarrow> mutex_pc \<Rightarrow> bool" where
  "pc_good ls p =
     (p \<noteq> Panicked \<and> p \<noteq> Unspin Panicked \<and> (p \<noteq> Outside \<and> must_lock ls \<longrightarrow> timeout_ticks ls = WAIT_FOREVER) \<and>
      (p \<in> {Return False, Unspin (Return False), Try_Start, Try_Test, Spin Try_Test, Pause Try_Test} \<longrightarrow> \<not> must_lock ls))"

definition waiters :: "mutex_sys \<Rightarrow> u32 set" where
  "waiters x = {i. waiting (pc x i)}"

definition disciplined :: "mutex_sys \<Rightarrow> bool" where
  "disciplined x =
     ((\<forall>i j. holder (pc x i) \<longrightarrow> holder (pc x j) \<longrightarrow> i = j) \<and> ((\<exists>i. holder (pc x i)) \<longleftrightarrow> locked (mutex x)) \<and>
      (\<forall>i. holder (pc x i) \<longrightarrow> owner_task_id (mutex x) = i \<or> pc x i \<in> {Lock_Owner, Unlock_Clear}) \<and>
      (\<forall>i. pc_good (locals x i) (pc x i)) \<and> pc x 0 = Outside \<and>
      waiter_count (cond_queue (condition (mutex x))) = of_nat (card (waiters x)))"

lemma disciplinedD:
  assumes "disciplined x"
  shows "holder (pc x i) \<Longrightarrow> holder (pc x j) \<Longrightarrow> i = j" "locked (mutex x) \<longleftrightarrow> (\<exists>i. holder (pc x i))"
    "holder (pc x i) \<Longrightarrow> owner_task_id (mutex x) = i \<or> pc x i = Lock_Owner \<or> pc x i = Unlock_Clear"
    "pc_good (locals x i) (pc x i)" "pc x 0 = Outside"
    "waiter_count (cond_queue (condition (mutex x))) = of_nat (card (waiters x))"
  using assms by (auto simp: disciplined_def)

lemma waiters_goto:
  assumes pc: "pc x' = (pc x)(i := p)"
  shows "waiting (pc x i) \<longleftrightarrow> waiting p \<Longrightarrow> waiters x' = waiters x"
    "\<not> waiting (pc x i) \<Longrightarrow> waiting p \<Longrightarrow> card (waiters x') = Suc (card (waiters x))"
    "waiting (pc x i) \<Longrightarrow> \<not> waiting p \<Longrightarrow> card (waiters x) = Suc (card (waiters x'))"
proof -
  show "waiters x' = waiters x" if "waiting (pc x i) \<longleftrightarrow> waiting p" using that pc by (auto simp: waiters_def)
  show "card (waiters x') = Suc (card (waiters x))" if "\<not> waiting (pc x i)" "waiting p"
  proof -
    have "waiters x' = insert i (waiters x)" "i \<notin> waiters x" using that pc by (auto simp: waiters_def)
    then show ?thesis by simp
  qed
  show "card (waiters x) = Suc (card (waiters x'))" if "waiting (pc x i)" "\<not> waiting p"
  proof -
    have "waiters x = insert i (waiters x')" "i \<notin> waiters x'" using that pc by (auto simp: waiters_def)
    then show ?thesis by simp
  qed
qed

text \<open>A step of task \<open>i\<close> to \<open>p\<close> that changes neither who holds the mutex nor the lock itself.\<close>

lemma disciplined_goto:
  assumes d: "disciplined x" and i: "i \<noteq> 0" and pc: "pc x' = (pc x)(i := p)" and loc: "\<And>j. j \<noteq> i \<Longrightarrow> locals x' j = locals x j"
    and m: "locked (mutex x') = locked (mutex x)" "owner_task_id (mutex x') = owner_task_id (mutex x)"
    and ne: "pc x i \<noteq> Lock_Owner" "pc x i \<noteq> Unlock_Clear" and h: "holder p \<longleftrightarrow> holder (pc x i)"
    and ok: "pc_good (locals x' i) p" and w: "waiter_count (cond_queue (condition (mutex x'))) = of_nat (card (waiters x'))"
  shows "disciplined x'"
proof -
  have hold: "holder (pc x' j) \<longleftrightarrow> holder (pc x j)" for j using h pc by simp
  have good: "pc_good (locals x' j) (pc x' j)" for j using ok pc loc disciplinedD(4) [OF d, of j] by (cases "j = i") auto
  have own: "owner_task_id (mutex x') = j \<or> pc x' j \<in> {Lock_Owner, Unlock_Clear}" if "holder (pc x' j)" for j
    using disciplinedD(3) [OF d, of j] that hold [of j] m ne pc by (cases "j = i") auto
  have z: "pc x' 0 = Outside" using disciplinedD(5) [OF d] pc i by simp
  show ?thesis unfolding disciplined_def
    using disciplinedD(1) [OF d] disciplinedD(2) [OF d] good own m(1) w z by (simp only: hold) blast
qed

text \<open>A step of task \<open>i\<close>, after which it alone holds the mutex, or nobody.\<close>

lemma disciplined_change:
  assumes d: "disciplined x" and i: "i \<noteq> 0" and pc: "pc x' = (pc x)(i := p)" and loc: "locals x' = locals x"
    and oth: "\<And>j. j \<noteq> i \<Longrightarrow> \<not> holder (pc x j)" and lk: "locked (mutex x') = holder p"
    and own: "holder p \<Longrightarrow> owner_task_id (mutex x') = i \<or> p \<in> {Lock_Owner, Unlock_Clear}"
    and ok: "pc_good (locals x i) p" and w: "\<not> waiting (pc x i)" "\<not> waiting p"
      "waiter_count (cond_queue (condition (mutex x'))) = waiter_count (cond_queue (condition (mutex x)))"
  shows "disciplined x'"
proof -
  have "waiters x' = waiters x" using waiters_goto(1) [OF pc] w by blast
  then have "waiter_count (cond_queue (condition (mutex x'))) = of_nat (card (waiters x'))" using disciplinedD(6) [OF d] w(3) by simp
  moreover have "pc_good (locals x' j) (pc x' j)" for j using ok pc loc disciplinedD(4) [OF d, of j] by simp
  moreover have "holder (pc x' j) \<longleftrightarrow> j = i \<and> holder p" for j using oth [of j] pc by auto
  ultimately show ?thesis using lk own disciplinedD(5) [OF d] pc i by (auto simp: disciplined_def)
qed

lemma spin_excludes:
  assumes inv: "mutex_inv l h x" and i: "holds_spin (pc x i)" and j: "holds_spin (pc x j)"
  shows "i = j"
  using mutex_invD(4) [OF inv, of i] mutex_invD(4) [OF inv, of j] i j by (auto simp: pc_ok_def)

lemma owner_of_holder:
  assumes inv: "mutex_inv l h x" and d: "disciplined x" and i: "holds_spin (pc x i)" "pc x i \<noteq> Lock_Owner" "pc x i \<noteq> Unlock_Clear"
    and j: "holder (pc x j)"
  shows "owner_task_id (mutex x) = j"
  using disciplinedD(3) [OF d j] spin_excludes [OF inv i(1), of j] i(2,3) by auto

lemmas good_simps = pc_good_def step_fields

lemma disciplined_same:
  assumes d: "disciplined x" and i: "i \<noteq> 0" and pc: "pc x' = (pc x)(i := p)" and loc: "\<And>j. j \<noteq> i \<Longrightarrow> locals x' j = locals x j"
    and m: "locked (mutex x') = locked (mutex x)" "owner_task_id (mutex x') = owner_task_id (mutex x)"
      "cond_queue (condition (mutex x')) = cond_queue (condition (mutex x))"
    and ne: "pc x i \<noteq> Lock_Owner" "pc x i \<noteq> Unlock_Clear" and h: "holder p \<longleftrightarrow> holder (pc x i)" and w: "waiting p \<longleftrightarrow> waiting (pc x i)"
    and ok: "pc_good (locals x' i) p"
  shows "disciplined x'"
  by (rule disciplined_goto [OF d i pc loc m(1,2) ne h ok]) (use waiters_goto(1) [OF pc] w m(3) disciplinedD(6) [OF d] in auto)

lemma lock_steps_good:
  assumes inv: "mutex_inv l h x" and d: "disciplined x" and i: "i \<noteq> 0"
  shows "pc x i = Spin k \<Longrightarrow> disciplined (spin_step k i x)" "pc x i = Pause k \<Longrightarrow> disciplined (pause_step k i x)"
    "pc x i = Unspin k \<Longrightarrow> disciplined (unspin_step k i x)" "pc x i = Return b \<Longrightarrow> disciplined (lock_return b i x)"
    "pc x i = Try_Test \<Longrightarrow> disciplined (try_test i x)" "pc x i = Lock_Loop \<Longrightarrow> disciplined (lock_loop i x)"
    "pc x i = Unlock_Test \<Longrightarrow> disciplined (unlock_test i x)"
proof -
  have g: "pc_good (locals x i) (pc x i)" by (rule disciplinedD(4) [OF d])
  have ok: "pc_ok l h (locked (mutex x)) i (locals x i) (pc x i)" by (rule mutex_invD(4) [OF inv])
  have ot: "owner_task_id (mutex x) \<noteq> i" if lk: "locked (mutex x)" and sp: "holds_spin (pc x i)" and nh: "\<not> holder (pc x i)"
  proof -
    obtain j where j: "holder (pc x j)" using lk disciplinedD(2) [OF d] by auto
    have "owner_task_id (mutex x) = j" by (rule owner_of_holder [OF inv d sp _ _ j]) (use nh in auto)
    then show ?thesis using j nh by auto
  qed
  show "disciplined (spin_step k i x)" if "pc x i = Spin k"
    by (rule disciplined_same [OF d i, where p = "pc (spin_step k i x) i"])
      (use ok g that in \<open>auto simp: spin_step_def atomic_try_lock_u32_def good_simps pc_ok_def\<close>)
  show "disciplined (pause_step k i x)" if "pc x i = Pause k"
    by (rule disciplined_same [OF d i, where p = "pc (pause_step k i x) i"])
      (use ok g that in \<open>auto simp: pause_step_def good_simps pc_ok_def\<close>)
  show "disciplined (unspin_step k i x)" if "pc x i = Unspin k"
    by (rule disciplined_same [OF d i, where p = k]) (use ok g that in \<open>auto simp: unspin_step_def good_simps pc_ok_def\<close>)
  show "disciplined (lock_return b i x)" if "pc x i = Return b"
    by (rule disciplined_same [OF d i, where p = "if b then Inside else Outside"])
      (use ok g that in \<open>cases b; auto simp: lock_return_def good_simps pc_ok_def\<close>)+
  show "disciplined (try_test i x)" if "pc x i = Try_Test"
    by (rule disciplined_same [OF d i, where p = "if locked (mutex x) then Unspin (Return False) else Lock_Take"])
      (use ok g that ot in \<open>auto simp: try_test_def good_simps pc_ok_def\<close>)
  show "disciplined (lock_loop i x)" if "pc x i = Lock_Loop"
    by (rule disciplined_same [OF d i, where p = "pc (lock_loop i x) i"])
      (use ok g that ot in \<open>auto simp: lock_loop_def good_simps pc_ok_def\<close>)
  have lk: "locked (mutex x)" "owner_task_id (mutex x) = i" if "pc x i = Unlock_Test"
    using disciplinedD(2) [OF d] owner_of_holder [OF inv d, of i i] that by (auto intro: exI [of _ i])
  show "disciplined (unlock_test i x)" if "pc x i = Unlock_Test"
    by (rule disciplined_same [OF d i, where p = Unlock_Owner])
      (use ok g that lk in \<open>auto simp: unlock_test_def good_simps pc_ok_def\<close>)
qed

lemma hold_steps_good:
  assumes inv: "mutex_inv l h x" and d: "disciplined x" and i: "i \<noteq> 0"
  shows "pc x i = Lock_Take \<Longrightarrow> disciplined (lock_take i x)" "pc x i = Lock_Owner \<Longrightarrow> disciplined (lock_owner i x)"
    "pc x i = Unlock_Owner \<Longrightarrow> disciplined (unlock_owner i x)" "pc x i = Unlock_Clear \<Longrightarrow> disciplined (unlock_clear i x)"
proof -
  have g: "pc_good (locals x i) (pc x i)" by (rule disciplinedD(4) [OF d])
  have ok: "pc_ok l h (locked (mutex x)) i (locals x i) (pc x i)" by (rule mutex_invD(4) [OF inv])
  have no: "\<not> holder (pc x j)" if "pc x i = Lock_Take" for j using ok that disciplinedD(2) [OF d] by (auto simp: pc_ok_def)
  have un: "\<not> holder (pc x j)" if "holder (pc x i)" "j \<noteq> i" for j using disciplinedD(1) [OF d that(1), of j] that(2) by auto
  have lk: "locked (mutex x)" if "holder (pc x i)" using that disciplinedD(2) [OF d] by auto
  show "disciplined (lock_take i x)" if "pc x i = Lock_Take"
    by (rule disciplined_change [OF d i, where p = Lock_Owner]) (use no that g in \<open>auto simp: lock_take_def good_simps\<close>)
  show "disciplined (lock_owner i x)" if "pc x i = Lock_Owner"
    by (rule disciplined_change [OF d i, where p = "Unspin (Return True)"]) (use un that g ok lk in \<open>auto simp: lock_owner_def good_simps pc_ok_def\<close>)
  show "disciplined (unlock_owner i x)" if "pc x i = Unlock_Owner"
    by (rule disciplined_change [OF d i, where p = Unlock_Clear]) (use un that g ok lk in \<open>auto simp: unlock_owner_def good_simps pc_ok_def\<close>)
  show "disciplined (unlock_clear i x)" if "pc x i = Unlock_Clear"
    by (rule disciplined_change [OF d i, where p = Unlock_Signal]) (use un that g ok lk in \<open>auto simp: unlock_clear_def good_simps pc_ok_def\<close>)
qed

lemma wait_steps_good:
  assumes d: "disciplined x" and i: "i \<noteq> 0"
  shows "pc x i = Wait_Read \<Longrightarrow> disciplined (wait_read i x)" "pc x i = Wait_Check \<Longrightarrow> disciplined (wait_check i x)"
    "pc x i = Wait_Woke \<Longrightarrow> disciplined (wait_woke i x)" "pc x i = Wait_Block \<Longrightarrow> disciplined (wait_block ch e i x)"
    "pc x i = Wait_Return \<Longrightarrow> disciplined (wait_return i x)" "pc x i = Unlock_Signal \<Longrightarrow> disciplined (unlock_signal i x)"
proof -
  have g: "pc_good (locals x i) (pc x i)" by (rule disciplinedD(4) [OF d])
  show "disciplined (wait_read i x)" if "pc x i = Wait_Read"
    by (rule disciplined_same [OF d i, where p = "Unspin Wait_Check"]) (use g that in \<open>auto simp: wait_read_def good_simps\<close>)
  show "disciplined (wait_check i x)" if "pc x i = Wait_Check"
    by (rule disciplined_same [OF d i, where p = "pc (wait_check i x) i"]) (use g that in \<open>auto simp: wait_check_def good_simps\<close>)
  show "disciplined (wait_woke i x)" if "pc x i = Wait_Woke"
    by (rule disciplined_same [OF d i, where p = "pc (wait_woke i x) i"]) (use g that in \<open>auto simp: wait_woke_def good_simps\<close>)
  show "disciplined (wait_block ch e i x)" if "pc x i = Wait_Block"
    by (rule disciplined_same [OF d i, where p = "pc (wait_block ch e i x) i"]) (use g that in \<open>auto simp: wait_block_def good_simps\<close>)
  show "disciplined (wait_return i x)" if "pc x i = Wait_Return"
    by (rule disciplined_same [OF d i, where p = "pc (wait_return i x) i"]) (use g that in \<open>auto simp: wait_return_def good_simps\<close>)
  show "disciplined (unlock_signal i x)" if "pc x i = Unlock_Signal"
    by (rule disciplined_same [OF d i, where p = Unlock_Wake]) (use g that in \<open>auto simp: unlock_signal_def advance_sequence_def good_simps\<close>)
qed

lemma waiters_lt:
  assumes "disciplined x"
  shows "card (waiters x) < 2 ^ 32"
proof -
  have "0 \<notin> waiters x" using disciplinedD(5) [OF assms] by (simp add: waiters_def)
  then have "waiters x \<subset> UNIV" by auto
  then have "card (waiters x) < card (UNIV :: u32 set)" by (intro psubset_card_mono) auto
  then show ?thesis by (simp add: card_word)
qed

lemma count_steps_good:
  assumes d: "disciplined x" and i: "i \<noteq> 0"
  shows "pc x i = Wait_Enter \<Longrightarrow> disciplined (wait_enter i x)" "pc x i = Wait_Leave \<Longrightarrow> disciplined (wait_leave i x)"
proof -
  have g: "pc_good (locals x i) (pc x i)" by (rule disciplinedD(4) [OF d])
  show "disciplined (wait_enter i x)" if p: "pc x i = Wait_Enter"
  proof (rule disciplined_goto [OF d i, where p = Wait_Block])
    show pc: "pc (wait_enter i x) = (pc x)(i := Wait_Block)" by (simp add: wait_enter_def step_fields)
    show "waiter_count (cond_queue (condition (mutex (wait_enter i x)))) = of_nat (card (waiters (wait_enter i x)))"
      using waiters_goto(2) [OF pc] p disciplinedD(6) [OF d]
      by (simp add: wait_enter_def step_fields atomic_add_u32_def atomic_xadd_u32_def add.commute)
  qed (use g p in \<open>auto simp: wait_enter_def good_simps\<close>)
  show "disciplined (wait_leave i x)" if p: "pc x i = Wait_Leave"
  proof -
    let ?n = "waiter_count (cond_queue (condition (mutex x)))"
    have pc0: "waiting (pc x i)" using p by simp
    then have "i \<in> waiters x" by (simp add: waiters_def)
    then have c0: "card (waiters x) > 0" by (auto simp: card_gt_0_iff)
    then have n: "?n \<noteq> 0" using waiters_lt [OF d] disciplinedD(6) [OF d]
      by (auto simp: word_eq_iff_unsigned unat_of_nat unsigned_of_nat take_bit_nat_eq_self simp flip: unat_eq_0)
    then have np: "?n - 1 \<noteq> UINT_MAX" by (auto simp: diff_eq_eq)
    have e: "wait_leave i x = goto i Wait_Woke (set_waiters (?n - 1) x)"
      using np by (simp add: wait_leave_def Let_def atomic_sub_u32_def atomic_xadd_u32_def)
    have pc: "pc (wait_leave i x) = (pc x)(i := Wait_Woke)" by (simp add: e step_fields)
    have lhs: "waiter_count (cond_queue (condition (mutex (wait_leave i x)))) = ?n - 1" by (simp add: e step_fields)
    have w: "waiter_count (cond_queue (condition (mutex (wait_leave i x)))) = of_nat (card (waiters (wait_leave i x)))"
      unfolding lhs using waiters_goto(3) [OF pc pc0] disciplinedD(6) [OF d] by simp
    show ?thesis
      by (rule disciplined_goto [OF d i pc _ _ _ _ _ _ _ w]) (use g p in \<open>auto simp: e good_simps\<close>)
  qed
qed

lemma other_steps_good:
  assumes d: "disciplined x" and i: "i \<noteq> 0"
  shows "pc x i = Wait_Yield \<Longrightarrow> wait_yield e fr i x = Some x' \<Longrightarrow> disciplined x'"
    "pc x i = Wait_Result \<Longrightarrow> wait_result_step e i x = Some x' \<Longrightarrow> disciplined x'"
    "pc x i = Unlock_Wake \<Longrightarrow> unlock_wake ch e i x = Some x' \<Longrightarrow> disciplined x'"
    "pc x i = Try_Start \<Longrightarrow> disciplined (call_start e Try_Test i x)" "pc x i = Lock_Start \<Longrightarrow> disciplined (call_start e Lock_Loop i x)"
    "pc x i = Unlock_Start \<Longrightarrow> disciplined (call_start e Unlock_Test i x)"
    "pc x i \<in> {Outside, Inside} \<Longrightarrow> (pc x i = Inside \<longleftrightarrow> call = Call_Unlock) \<Longrightarrow> disciplined (mutex_open call i x)"
proof -
  have g: "pc_good (locals x i) (pc x i)" by (rule disciplinedD(4) [OF d])
  show "disciplined x'" if "pc x i = Wait_Yield" "wait_yield e fr i x = Some x'"
    by (rule disciplined_same [OF d i, where p = Wait_Result]) (use g that in \<open>auto simp: wait_yield_def good_simps split: option.splits\<close>)
  show "disciplined x'" if "pc x i = Wait_Result" "wait_result_step e i x = Some x'"
    by (rule disciplined_same [OF d i, where p = Wait_Leave]) (use g that in \<open>auto simp: wait_result_step_def good_simps split: option.splits\<close>)
  show "disciplined x'" if "pc x i = Unlock_Wake" "unlock_wake ch e i x = Some x'"
    by (rule disciplined_same [OF d i, where p = "Unspin Outside"]) (use g that in \<open>auto simp: unlock_wake_def good_simps split: option.splits\<close>)
  show "disciplined (call_start e Try_Test i x)" if "pc x i = Try_Start"
    by (rule disciplined_same [OF d i, where p = "Spin Try_Test"]) (use g that in \<open>auto simp: call_start_def good_simps\<close>)
  show "disciplined (call_start e Lock_Loop i x)" if "pc x i = Lock_Start"
    by (rule disciplined_same [OF d i, where p = "Spin Lock_Loop"]) (use g that in \<open>auto simp: call_start_def good_simps\<close>)
  show "disciplined (call_start e Unlock_Test i x)" if "pc x i = Unlock_Start"
    by (rule disciplined_same [OF d i, where p = "Spin Unlock_Test"]) (use g that in \<open>auto simp: call_start_def good_simps\<close>)
  show "disciplined (mutex_open call i x)" if "pc x i \<in> {Outside, Inside}" "pc x i = Inside \<longleftrightarrow> call = Call_Unlock"
    by (rule disciplined_same [OF d i, where p = "pc (mutex_open call i x) i"]) (use g that in \<open>cases call; auto simp: good_simps\<close>)+
qed

lemma exec_good:
  assumes "mutex_inv l h x" "disciplined x" "i \<noteq> 0" "mutex_exec ch e fr (pc x i) i x = Some x'"
  shows "disciplined x'"
proof -
  note r = lock_steps_good [OF assms(1-3)] hold_steps_good [OF assms(1-3)] wait_steps_good [OF assms(2,3)] count_steps_good [OF assms(2,3)]
    other_steps_good [OF assms(2,3)]
  show ?thesis using assms(4) by (cases "pc x i") (auto intro: r)
qed

lemma reachable_disciplined: "mutex_reachable True ch x \<Longrightarrow> disciplined x"
proof (induction rule: mutex_reachable.induct)
  case (init s m l)
  show ?case by (auto simp: disciplined_def pc_good_def waiters_def kmutex_init_def kcondition_init_def kwait_queue_init_def)
next
  case (step x x')
  obtain l h where inv: "mutex_inv l h x" using mutex_reachable_inv [OF step(1)] by blast
  from step(2) show ?case
  proof cases
    case (exec i e fr)
    then show ?thesis using exec_good [OF inv step(3)] by simp
  next
    case (open_call i e call)
    then show ?thesis using other_steps_good(7) [OF step(3)] by simp
  next
    case (sched s')
    then show ?thesis using step(3) by (simp add: disciplined_def waiters_def)
  qed
qed

end
