(* ===== verification/Sync_Props.thy ===== *)
theory Sync_Props
  imports Sync_Inv Sched_Demo
begin

text \<open>
  The properties of the mutex, and a run that loses a wakeup.
\<close>

section \<open>The scheduler below the mutex\<close>


lemma open_sched [simp]: "sched (mutex_open call i x) = sched x"
  by (cases call) (simp_all add: step_fields)


section \<open>Properties\<close>



section \<open>A run\<close>

text \<open>A run of given steps: the CPU that moves, and the call it opens, if it opens one.\<close>

fun mutex_run :: "u32 \<Rightarrow> (cpu_env \<times> mutex_call option) list \<Rightarrow> mutex_sys \<Rightarrow> mutex_sys option" where
  "mutex_run ch [] x = Some x"
| "mutex_run ch ((e, c) # es) x =
     (let i = scheduler_current_task_id e (sched x)
      in if i = 0 \<or> \<not> runs e x then None
         else case c of
                None \<Rightarrow> Option.bind (mutex_exec ch e 0 (pc x i) i x) (mutex_run ch es)
              | Some call \<Rightarrow>
                  if pc x i = Outside \<and> call \<noteq> Call_Unlock \<or> pc x i = Inside \<and> call = Call_Unlock
                  then mutex_run ch es (mutex_open call i x) else None)"

lemma mutex_run_reachable: "mutex_run ch es x = Some y \<Longrightarrow> mutex_reachable True ch x \<Longrightarrow> mutex_reachable True ch y"
proof (induction es arbitrary: x)
  case (Cons a es)
  obtain e c where a: "a = (e, c)" by (cases a)
  let ?i = "scheduler_current_task_id e (sched x)"
  have r: "?i \<noteq> 0" "runs e x" using Cons.prems(1) a by (auto simp: Let_def split: if_splits)
  show ?case
  proof (cases c)
    case None
    then obtain x' where x': "mutex_exec ch e 0 (pc x ?i) ?i x = Some x'" "mutex_run ch es x' = Some y"
      using Cons.prems(1) a r by (auto simp: Let_def bind_eq_Some_conv)
    have "mutex_step True ch x x'" by (rule mutex_step.exec [OF refl r(1) _ x'(1)]) (use r in simp)
    then show ?thesis using Cons.IH [OF x'(2)] mutex_reachable.step [OF Cons.prems(2)] by blast
  next
    case (Some call)
    then have c: "pc x ?i \<in> {Outside, Inside}" "pc x ?i = Inside \<longleftrightarrow> call = Call_Unlock" "mutex_run ch es (mutex_open call ?i x) = Some y"
      using Cons.prems(1) a r by (auto simp: Let_def split: if_splits)
    have "mutex_step True ch x (mutex_open call ?i x)" by (rule mutex_step.open_call [OF refl r c(1)]) (use c(2) in simp)
    then show ?thesis using Cons.IH [OF c(3)] mutex_reachable.step [OF Cons.prems(2)] by blast
  qed
qed simp

definition demo_locals :: mutex_locals where
  "demo_locals = \<lparr>call_id = 0, start_tick = 0, timeout_ticks = 0, must_lock = False, wait_ticks = 0, observed_sequence = 0,
     woke = False, signaled = False\<rparr>"

definition demo_mutex :: kmutex where
  "demo_mutex = \<lparr>mutex_lock = \<lparr>lock_value = 0\<rparr>, condition = \<lparr>cond_queue = \<lparr>waiter_count = 0\<rparr>, cond_sequence = 0\<rparr>,
     locked = False, owner_task_id = 0\<rparr>"

definition demo_sys :: mutex_sys where
  "demo_sys = \<lparr>mutex = the (kmutex_init (Some demo_mutex)), sched = demo, pc = (\<lambda>i. Outside), locals = (\<lambda>i. demo_locals)\<rparr>"

lemma demo_sys_reachable: "mutex_reachable d ch demo_sys"
  unfolding demo_sys_def by (rule mutex_reachable.init [OF demo_inv])

lemma demo_current_task: "scheduler_current_task (demo_env 0) demo = Some 0" "scheduler_current_task (demo_env 1) demo = Some 1"
  by (simp_all add: scheduler_current_task_def demo_cpu_def)

lemma demo_current_id: "scheduler_current_task_id (demo_env 0) demo = 1" "scheduler_current_task_id (demo_env 1) demo = 2"
  by (simp_all add: scheduler_current_task_id_def demo_current_task demo_place)

lemma demo_next: "list_next (demo_task 4) = Some 5" "list_next (demo_task 5) = None"
  by (simp_all add: demo_task_def Let_def task_reset_def)

lemma demo_wake: "scheduler_wake_channel e 8 1 demo = Some (0, demo)"
proof -
  have "wake_loop e 8 1 None 0 demo = Some (0, demo)" by (subst wake_loop.simps) simp
  then have "wake_loop e 8 1 (Some 5) 0 demo = Some (0, demo)" by (subst wake_loop.simps) (simp add: demo_place demo_next)
  then have "wake_loop e 8 1 (Some 4) 0 demo = Some (0, demo)" by (subst wake_loop.simps) (simp add: demo_place demo_next)
  then show ?thesis by (simp add: scheduler_wake_channel_def)
qed

lemmas run_steps = step_fields spin_step_def pause_step_def unspin_step_def call_start_def lock_loop_def
  lock_take_def lock_owner_def lock_return_def wait_read_def wait_check_def wait_enter_def wait_block_def
  unlock_test_def unlock_owner_def unlock_clear_def unlock_signal_def unlock_wake_def kwait_wake_one_def
  atomic_try_lock_u32_def atomic_add_u32_def atomic_xadd_u32_def kspin_unlock_def advance_sequence_def

lemma demo_sys_runs: "runs (demo_env 0) x \<longleftrightarrow> True" "runs (demo_env 1) x \<longleftrightarrow> True" if "sched x = demo"
  by (simp_all add: runs_def that demo_current_task demo_state)

lemma demo_run:
  assumes "sched x = demo"
  shows "mutex_run ch ((demo_env 0, None) # es) x = Option.bind (mutex_exec ch (demo_env 0) 0 (pc x 1) 1 x) (mutex_run ch es)"
    "mutex_run ch ((demo_env 1, None) # es) x = Option.bind (mutex_exec ch (demo_env 1) 0 (pc x 2) 2 x) (mutex_run ch es)"
    "pc x 1 = Outside \<Longrightarrow> mutex_run ch ((demo_env 0, Some Call_Lock) # es) x = mutex_run ch es (mutex_open Call_Lock 1 x)"
    "pc x 2 = Outside \<Longrightarrow> mutex_run ch ((demo_env 1, Some Call_Lock) # es) x = mutex_run ch es (mutex_open Call_Lock 2 x)"
    "pc x 2 = Inside \<Longrightarrow> mutex_run ch ((demo_env 1, Some Call_Unlock) # es) x = mutex_run ch es (mutex_open Call_Unlock 2 x)"
  by (simp_all add: assms demo_sys_runs demo_current_id Let_def)

text \<open>Task 2 locks the mutex on CPU 1. Then task 1 tries to lock it on CPU 0, and is past its check of the sequence when
  task 2 unlocks the mutex; only then it blocks.\<close>

definition lock_run :: "(cpu_env \<times> mutex_call option) list" where
  "lock_run = [(demo_env 1, Some Call_Lock), (demo_env 1, None), (demo_env 1, None), (demo_env 1, None),
     (demo_env 1, None), (demo_env 1, None), (demo_env 1, None), (demo_env 1, None)]"

definition lost_run :: "(cpu_env \<times> mutex_call option) list" where
  "lost_run = lock_run @
     [(demo_env 0, Some Call_Lock), (demo_env 0, None), (demo_env 0, None), (demo_env 0, None), (demo_env 0, None), (demo_env 0, None), (demo_env 0, None),
      (demo_env 1, Some Call_Unlock), (demo_env 1, None), (demo_env 1, None), (demo_env 1, None), (demo_env 1, None),
      (demo_env 1, None), (demo_env 1, None), (demo_env 1, None), (demo_env 1, None), (demo_env 0, None), (demo_env 0, None)]"

lemmas demo_steps = demo_sys_def demo_run run_steps kmutex_init_def kspinlock_init_def kcondition_init_def kwait_queue_init_def
  demo_mutex_def demo_current_id demo_locals_def




lemma wait_section_blocks:
  assumes "scheduler_current_task e s = Some t"
  shows "state (tasks (wait_section e ch WAIT_FOREVER s) t) = TASK_BLOCKED" "wakeup_tick (tasks (wait_section e ch WAIT_FOREVER s) t) = 0"
    "task_id (tasks (wait_section e ch WAIT_FOREVER s) t) = task_id (tasks s t)"
  by (simp_all add: wait_section_def assms Let_def)

lemma lost_run_ends:
  "\<exists>x. mutex_run 8 lost_run demo_sys = Some x \<and> \<not> locked (mutex x) \<and> lock_value (mutex_lock (mutex x)) = 0 \<and>
     pc x = (\<lambda>i. Outside)(1 := Wait_Yield) \<and> observed_sequence (locals x 1) \<noteq> cond_sequence (condition (mutex x)) \<and>
     sched x = wait_section (demo_env 0) 8 WAIT_FOREVER demo"
  by (simp add: lost_run_def lock_run_def demo_steps demo_wake demo_current_task del: mutex_run.simps(2))
    (auto simp: fun_eq_iff)

text \<open>C34: A wakeup is lost. There is a run of disciplined tasks that ends with the mutex free and one task blocked on it without
  timeout, though the mutex was unlocked after the task found it locked: \<open>kcondition_wait\<close> checks the sequence before
  \<open>kwait_wait\<close> puts the task on the list of the waiters, and the signal between the two wakes nobody. No other task is
  in a call that would wake it.\<close>

theorem kmutex_lost_wakeup:
  "\<exists>x. mutex_reachable True 8 x \<and> \<not> locked (mutex x) \<and> lock_value (mutex_lock (mutex x)) = 0 \<and>
     pc x = (\<lambda>i. Outside)(1 := Wait_Yield) \<and> observed_sequence (locals x 1) \<noteq> cond_sequence (condition (mutex x)) \<and>
     task_id (tasks (sched x) 0) = 1 \<and> state (tasks (sched x) 0) = TASK_BLOCKED \<and>
     wakeup_tick (tasks (sched x) 0) = 0"
proof -
  obtain x where x: "mutex_run 8 lost_run demo_sys = Some x" "\<not> locked (mutex x)" "lock_value (mutex_lock (mutex x)) = 0"
     "pc x = (\<lambda>i. Outside)(1 := Wait_Yield)" "observed_sequence (locals x 1) \<noteq> cond_sequence (condition (mutex x))"
     "sched x = wait_section (demo_env 0) 8 WAIT_FOREVER demo"
    using lost_run_ends by blast
  show ?thesis
    by (rule exI [of _ x]) (use x mutex_run_reachable [OF x(1) demo_sys_reachable] wait_section_blocks [OF demo_current_task(1), of 8] in \<open>simp add: demo_place\<close>)
qed

end
