(* ===== verification/Libc.thy ===== *)
theory Libc
  imports Kernel_Prelude
begin

text \<open>
  The string functions of \<^verbatim>\<open>libc/string\<close> on a byte memory, loop for loop, and what they do.
\<close>

section \<open>Memory and strings\<close>

text \<open>The memory is a function from addresses to bytes; an \<open>int\<close> result is a signed number.\<close>

function memcmp_loop :: "u32 \<Rightarrow> u32 \<Rightarrow> u32 \<Rightarrow> u32 \<Rightarrow> (u32 \<Rightarrow> u8) \<Rightarrow> int" where
  "memcmp_loop a b sz i m =
     (if i < sz then
        (if m (a + i) < m (b + i) then -1 else if m (b + i) < m (a + i) then 1 else memcmp_loop a b sz (i + 1) m)
      else 0)"
  by auto
termination by (relation "measure (\<lambda>(a, b, sz, i, m). unat sz - unat i)") (auto intro: word_loop_measure)

definition memcmp :: "u32 \<Rightarrow> u32 \<Rightarrow> u32 \<Rightarrow> (u32 \<Rightarrow> u8) \<Rightarrow> int" where
  "memcmp aptr bptr sz m = memcmp_loop aptr bptr sz 0 m"

function copy_up :: "u32 \<Rightarrow> u32 \<Rightarrow> u32 \<Rightarrow> u32 \<Rightarrow> (u32 \<Rightarrow> u8) \<Rightarrow> u32 \<Rightarrow> u8" where
  "copy_up dst src sz i m = (if i < sz then copy_up dst src sz (i + 1) (m(dst + i := m (src + i))) else m)"
  by auto
termination by (relation "measure (\<lambda>(dst, src, sz, i, m). unat sz - unat i)") (auto intro: word_loop_measure)

function copy_down :: "u32 \<Rightarrow> u32 \<Rightarrow> u32 \<Rightarrow> (u32 \<Rightarrow> u8) \<Rightarrow> u32 \<Rightarrow> u8" where
  "copy_down dst src i m = (if i \<noteq> 0 then copy_down dst src (i - 1) (m(dst + (i - 1) := m (src + (i - 1)))) else m)"
  by auto
termination by (relation "measure (\<lambda>(dst, src, i, m). unat i)") (auto simp: unat_minus_one unat_gt_0)

definition memcpy :: "u32 \<Rightarrow> u32 \<Rightarrow> u32 \<Rightarrow> (u32 \<Rightarrow> u8) \<Rightarrow> u32 \<times> (u32 \<Rightarrow> u8)" where
  "memcpy dstptr srcptr sz m = (dstptr, copy_up dstptr srcptr sz 0 m)"

definition memmove :: "u32 \<Rightarrow> u32 \<Rightarrow> u32 \<Rightarrow> (u32 \<Rightarrow> u8) \<Rightarrow> u32 \<times> (u32 \<Rightarrow> u8)" where
  "memmove dstptr srcptr sz m =
     (dstptr, if dstptr < srcptr then copy_up dstptr srcptr sz 0 m else copy_down dstptr srcptr sz m)"

function memset_loop :: "u32 \<Rightarrow> u8 \<Rightarrow> u32 \<Rightarrow> u32 \<Rightarrow> (u32 \<Rightarrow> u8) \<Rightarrow> u32 \<Rightarrow> u8" where
  "memset_loop buf v sz i m = (if i < sz then memset_loop buf v sz (i + 1) (m(buf + i := v)) else m)"
  by auto
termination by (relation "measure (\<lambda>(buf, v, sz, i, m). unat sz - unat i)") (auto intro: word_loop_measure)

definition memset :: "u32 \<Rightarrow> u32 \<Rightarrow> u32 \<Rightarrow> (u32 \<Rightarrow> u8) \<Rightarrow> u32 \<times> (u32 \<Rightarrow> u8)" where
  "memset bufptr v sz m = (bufptr, memset_loop bufptr (ucast v) sz 0 m)"

text \<open>The loops over a string end at its NUL; without one they have no result.\<close>

partial_function (option) strlen_loop :: "u32 \<Rightarrow> u32 \<Rightarrow> (u32 \<Rightarrow> u8) \<Rightarrow> u32 option" where
  "strlen_loop str len m = (if m (str + len) \<noteq> 0 then strlen_loop str (len + 1) m else Some len)"

definition strlen :: "u32 \<Rightarrow> (u32 \<Rightarrow> u8) \<Rightarrow> u32 option" where
  "strlen str m = strlen_loop str 0 m"

partial_function (option) strcmp :: "u32 \<Rightarrow> u32 \<Rightarrow> (u32 \<Rightarrow> u8) \<Rightarrow> int option" where
  "strcmp l r m =
     (if m l \<noteq> 0 \<and> m l = m r then strcmp (l + 1) (r + 1) m else Some (uint (m l) - uint (m r)))"

function strncmp_loop :: "u32 \<Rightarrow> u32 \<Rightarrow> u32 \<Rightarrow> u32 \<Rightarrow> (u32 \<Rightarrow> u8) \<Rightarrow> int" where
  "strncmp_loop l r n i m =
     (if i < n then
        (if m (l + i) \<noteq> m (r + i) \<or> m (l + i) = 0 \<or> m (r + i) = 0 then uint (m (l + i)) - uint (m (r + i))
         else strncmp_loop l r n (i + 1) m)
      else 0)"
  by auto
termination by (relation "measure (\<lambda>(l, r, n, i, m). unat n - unat i)") (auto intro: word_loop_measure)

definition strncmp :: "u32 \<Rightarrow> u32 \<Rightarrow> u32 \<Rightarrow> (u32 \<Rightarrow> u8) \<Rightarrow> int" where
  "strncmp l r n m = strncmp_loop l r n 0 m"

declare memcmp_loop.simps [simp del] copy_up.simps [simp del] copy_down.simps [simp del] memset_loop.simps [simp del]
  strncmp_loop.simps [simp del]

section \<open>What they do\<close>

text \<open>\<open>copied m dst src i n\<close>: bytes \<open>i\<close> up to \<open>n\<close> of the source of \<open>m\<close> are at the destination.\<close>

definition copied :: "(u32 \<Rightarrow> u8) \<Rightarrow> u32 \<Rightarrow> u32 \<Rightarrow> nat \<Rightarrow> nat \<Rightarrow> u32 \<Rightarrow> u8" where
  "copied m dst src i n a =
     (if unat dst + i \<le> unat a \<and> unat a < unat dst + n then m (src + (a - dst)) else m a)"

lemma unat_add_bound: "unat (a::u32) + unat i < 2 ^ 32 \<Longrightarrow> unat (a + i) = unat a + unat i"
  by (simp add: unat_word_ariths)

lemma sub_add: "unat dst + unat i < 2 ^ 32 \<Longrightarrow> unat (x::u32) = unat dst + unat i \<longleftrightarrow> x = dst + i"
  by (simp add: word_unat_eq_iff unat_add_bound)

lemma copied_step_up:
  assumes i: "i < sz" and d: "unat dst + unat sz \<le> 2 ^ 32" and s: "unat src + unat sz \<le> 2 ^ 32" and le: "dst < src"
  shows "copied (m(dst + i := m (src + i))) dst src (unat (i + 1)) (unat sz) = copied m dst src (unat i) (unat sz)"
proof
  fix a
  have i': "unat i < unat sz" using i by (simp add: word_less_nat_alt)
  have i1: "unat (i + 1) = unat i + 1" using unat_succ_less [OF i] by simp
  have di: "unat (dst + i) = unat dst + unat i" using i' d by (intro unat_add_bound) simp
  consider "a = dst + i" | "unat dst + unat i < unat a" "unat a < unat dst + unat sz" | "unat a < unat dst + unat i" | "unat dst + unat sz \<le> unat a"
    using di by (metis linorder_neqE_nat not_le word_unat_eq_iff)
  then show "copied (m(dst + i := m (src + i))) dst src (unat (i + 1)) (unat sz) a = copied m dst src (unat i) (unat sz) a"
  proof cases
    case 1
    then show ?thesis using di i' i1 by (simp add: copied_def)
  next
    case 2
    have "unat (a - dst) = unat a - unat dst" using 2 by (intro unat_sub) (simp add: word_le_nat_alt)
    then have "unat (src + (a - dst)) = unat src + (unat a - unat dst)" using 2 s by (subst unat_add_bound) auto
    then have "src + (a - dst) \<noteq> dst + i" using 2 le di by (auto simp: word_unat_eq_iff word_less_nat_alt)
    then show ?thesis using 2 i1 by (auto simp: copied_def di word_unat_eq_iff)
  qed (use di i' i1 in \<open>auto simp: copied_def word_unat_eq_iff\<close>)
qed

lemma copy_up_eq:
  assumes "unat dst + unat sz \<le> 2 ^ 32" "unat src + unat sz \<le> 2 ^ 32" "dst < src"
  shows "copy_up dst src sz i m = copied m dst src (unat i) (unat sz)"
  using assms
proof (induction dst src sz i m rule: copy_up.induct)
  case (1 dst src sz i m)
  show ?case
  proof (cases "i < sz")
    case True
    have "copy_up dst src sz (i + 1) (m(dst + i := m (src + i))) = copied (m(dst + i := m (src + i))) dst src (unat (i + 1)) (unat sz)"
      by (rule 1(1) [OF True 1(2-4)])
    then show ?thesis using True copied_step_up [OF True 1(2-4), of m] by (subst copy_up.simps) (simp del: fun_upd_apply)
  next
    case False
    then show ?thesis by (subst copy_up.simps) (auto simp: copied_def word_less_nat_alt fun_eq_iff)
  qed
qed

lemma copied_step_down:
  assumes i: "i \<noteq> 0" and d: "unat dst + unat i \<le> 2 ^ 32" and s: "unat src + unat i \<le> 2 ^ 32" and le: "src \<le> dst"
  shows "copied (m(dst + (i - 1) := m (src + (i - 1)))) dst src 0 (unat (i - 1)) = copied m dst src 0 (unat i)"
proof
  fix a
  have i1: "unat (i - 1) = unat i - 1" "0 < unat i" using i by (auto simp: unat_minus_one unat_gt_0)
  have di: "unat (dst + (i - 1)) = unat dst + (unat i - 1)" using i1 d by (subst unat_add_bound) auto
  consider "a = dst + (i - 1)" | "unat dst \<le> unat a" "unat a < unat dst + (unat i - 1)" | "unat a < unat dst" | "unat dst + unat i \<le> unat a"
  proof -
    have "unat a = unat (dst + (i - 1)) \<or> unat dst \<le> unat a \<and> unat a < unat dst + (unat i - 1) \<or> unat a < unat dst \<or> unat dst + unat i \<le> unat a"
      using di i1 by linarith
    then show thesis using that by (metis word_unat_eq_iff)
  qed
  then show "copied (m(dst + (i - 1) := m (src + (i - 1)))) dst src 0 (unat (i - 1)) a = copied m dst src 0 (unat i) a"
  proof cases
    case 1
    have "unat dst \<le> unat a" "unat a < unat dst + unat i" "\<not> unat a < unat dst + unat (i - 1)" "src + (a - dst) = src + (i - 1)"
      using 1 di i1 by auto
    then show ?thesis using 1 by (simp add: copied_def)
  next
    case 2
    have "unat (a - dst) = unat a - unat dst" using 2 by (intro unat_sub) (simp add: word_le_nat_alt)
    then have "unat (src + (a - dst)) = unat src + (unat a - unat dst)" using 2 s by (subst unat_add_bound) auto
    then have "src + (a - dst) \<noteq> dst + (i - 1)" using 2 le di by (auto simp: word_unat_eq_iff word_le_nat_alt)
    then show ?thesis using 2 i1 by (auto simp: copied_def di word_unat_eq_iff)
  qed (use di i1 in \<open>auto simp: copied_def word_unat_eq_iff\<close>)
qed

lemma copy_down_eq:
  assumes "unat dst + unat i \<le> 2 ^ 32" "unat src + unat i \<le> 2 ^ 32" "src \<le> dst"
  shows "copy_down dst src i m = copied m dst src 0 (unat i)"
  using assms
proof (induction dst src i m rule: copy_down.induct)
  case (1 dst src i m)
  show ?case
  proof (cases "i = 0")
    case False
    have "unat (i - 1) \<le> unat i" using False by (simp add: unat_minus_one)
    then have "copy_down dst src (i - 1) (m(dst + (i - 1) := m (src + (i - 1)))) =
        copied (m(dst + (i - 1) := m (src + (i - 1)))) dst src 0 (unat (i - 1))"
      using 1(2-4) by (intro 1(1) [OF False]) auto
    then show ?thesis using False copied_step_down [OF False 1(2-4), of m] by (subst copy_down.simps) (simp del: fun_upd_apply)
  next
    case True
    then show ?thesis by (subst copy_down.simps) (auto simp: copied_def fun_eq_iff)
  qed
qed

text \<open>Moving a block, wherever source and destination overlap, gives the destination the bytes the source had, and
  changes nothing else.\<close>

theorem memmove_spec:
  assumes "unat dst + unat sz \<le> 2 ^ 32" "unat src + unat sz \<le> 2 ^ 32"
  shows "memmove dst src sz m = (dst, \<lambda>a. if unat dst \<le> unat a \<and> unat a < unat dst + unat sz then m (src + (a - dst)) else m a)"
proof -
  have "copied m dst src 0 (unat sz) = (\<lambda>a. if unat dst \<le> unat a \<and> unat a < unat dst + unat sz then m (src + (a - dst)) else m a)"
    by (simp add: copied_def fun_eq_iff)
  then show ?thesis using copy_up_eq [OF assms, of 0 m] copy_down_eq [OF assms, of m] by (cases "dst < src") (simp_all add: memmove_def)
qed

lemma memset_loop_eq:
  assumes "unat buf + unat sz \<le> 2 ^ 32"
  shows "memset_loop buf v sz i m = (\<lambda>a. if unat buf + unat i \<le> unat a \<and> unat a < unat buf + unat sz then v else m a)"
  using assms
proof (induction buf v sz i m rule: memset_loop.induct)
  case (1 buf v sz i m)
  show ?case
  proof (cases "i < sz")
    case True
    have i: "unat i < unat sz" "unat (i + 1) = unat i + 1" using True unat_succ_less [OF True] by (auto simp: word_less_nat_alt)
    have b: "unat (buf + i) = unat buf + unat i" using i 1(2) by (intro unat_add_bound) simp
    have e: "a = buf + i \<longleftrightarrow> unat a = unat buf + unat i" for a unfolding b [symmetric] by (rule word_unat_eq_iff)
    have "memset_loop buf v sz i m = memset_loop buf v sz (i + 1) (m(buf + i := v))" using True by (subst memset_loop.simps) simp
    also have "\<dots> = (\<lambda>a. if unat buf + unat (i + 1) \<le> unat a \<and> unat a < unat buf + unat sz then v else (m(buf + i := v)) a)"
      by (rule 1(1) [OF True 1(2)])
    also have "\<dots> = (\<lambda>a. if unat buf + unat i \<le> unat a \<and> unat a < unat buf + unat sz then v else m a)"
      unfolding fun_upd_def e i(2) using i(1) by (intro ext) auto
    finally show ?thesis .
  next
    case False
    then show ?thesis by (subst memset_loop.simps) (auto simp: fun_eq_iff word_less_nat_alt)
  qed
qed

lemma strlen_loop_end:
  assumes "\<And>k. k < n \<Longrightarrow> m (str + len + of_nat k) \<noteq> 0" "m (str + len + of_nat n) = 0"
  shows "strlen_loop str len m = Some (len + of_nat n)"
  using assms
proof (induction n arbitrary: len)
  case 0
  then show ?case by (subst strlen_loop.simps) simp
next
  case (Suc n)
  have "m (str + len) \<noteq> 0" using Suc.prems(1) [of 0] by simp
  moreover have "strlen_loop str (len + 1) m = Some (len + 1 + of_nat n)"
  proof (rule Suc.IH)
    have e: "str + (len + 1) + of_nat k = str + len + of_nat (Suc k)" for k by (simp add: algebra_simps)
    show "m (str + (len + 1) + of_nat k) \<noteq> 0" if "k < n" for k using Suc.prems(1) [of "Suc k"] that unfolding e by simp
    show "m (str + (len + 1) + of_nat n) = 0" using Suc.prems(2) unfolding e .
  qed
  ultimately show ?case by (subst strlen_loop.simps) (simp add: algebra_simps)
qed

end
