(* ===== verification/Printf.thy ===== *)
theory Printf
  imports Kernel_Prelude
begin

text \<open>
  \<^verbatim>\<open>libc/stdio/printf.c\<close>: the sink, the conversion of numbers, and the interpreter of format strings.
\<close>

section \<open>The output\<close>

text \<open>A sink writes into a buffer, or to the console if the buffer is \<open>NULL\<close> (\<open>None\<close>). The buffer is the memory from its
  address on, so that a write beyond its capacity would show.\<close>

abbreviation NUL :: char where "NUL \<equiv> CHR 0x00"

definition EOF :: int where
  "EOF = -1"

definition INT_MAX :: u32 where
  "INT_MAX = 0x7FFFFFFF"

record format_sink =
  sink_buffer :: "(u32 \<Rightarrow> char) option"
  sink_capacity :: u32
  sink_length :: u32
  sink_failed :: bool
  sink_console :: string

text \<open>\<open>putchar\<close> writes to the console and returns its argument.\<close>

definition putchar :: "int \<Rightarrow> string \<Rightarrow> int \<times> string" where
  "putchar ic console = (ic, console @ [char_of (nat ic)])"

definition sink_putc :: "char \<Rightarrow> format_sink \<Rightarrow> format_sink" where
  "sink_putc c sink =
     (let sink1 =
        (case sink_buffer sink of
           Some b \<Rightarrow>
             if sink_capacity sink \<noteq> 0 \<and> sink_length sink + 1 < sink_capacity sink
             then sink\<lparr>sink_buffer := Some (b(sink_length sink := c))\<rparr> else sink
         | None \<Rightarrow>
             let (r, out) = putchar (int (of_char c)) (sink_console sink)
             in if r = EOF then sink\<lparr>sink_console := out, sink_failed := True\<rparr> else sink\<lparr>sink_console := out\<rparr>)
      in sink1\<lparr>sink_length := sink_length sink1 + 1\<rparr>)"

fun sink_write :: "string \<Rightarrow> format_sink \<Rightarrow> format_sink" where
  "sink_write [] sink = sink"
| "sink_write (c # data) sink = sink_write data (sink_putc c sink)"

section \<open>Numbers\<close>

definition digit_chars :: "bool \<Rightarrow> string" where
  "digit_chars upper = (if upper then ''0123456789ABCDEF'' else ''0123456789abcdef'')"

text \<open>The digits from the last to the first; a base less than 2 does not end.\<close>

partial_function (option) digit_loop :: "u32 \<Rightarrow> u32 \<Rightarrow> bool \<Rightarrow> string \<Rightarrow> string option" where
  "digit_loop value base upper buffer =
     (if value \<noteq> 0 then digit_loop (value div base) base upper (buffer @ [digit_chars upper ! unat (value mod base)])
      else Some buffer)"

text \<open>The loop that reverses the buffer in place.\<close>

function reverse_loop :: "nat \<Rightarrow> nat \<Rightarrow> string \<Rightarrow> string" where
  "reverse_loop l r buffer =
     (if l < r then reverse_loop (l + 1) (r - 1) (buffer[l := buffer ! r, r := buffer ! l]) else buffer)"
  by auto
termination by (relation "measure (\<lambda>(l, r, buffer). r - l)") auto

definition uint_to_string :: "u32 \<Rightarrow> u32 \<Rightarrow> bool \<Rightarrow> nat \<Rightarrow> string option" where
  "uint_to_string value base upper buffer_size =
     (if buffer_size = 0 then Some []
      else if value = 0 then Some ''0''
      else case digit_loop value base upper [] of
             None \<Rightarrow> None
           | Some buffer \<Rightarrow> Some (reverse_loop 0 (if length buffer = 0 then 0 else length buffer - 1) buffer))"

section \<open>Formats\<close>

text \<open>
  A string is the memory from its address on; to read past the memory given, or an argument of another type
  than the conversion asks for, has no result. A \<open>va_list\<close> is the list of the remaining arguments.
\<close>

datatype va_arg = Word_Arg u32 | String_Arg "string option"

record format_flags =
  left_justify :: bool
  zero_pad :: bool
  alternate :: bool
  sign_char :: char

definition no_flags :: format_flags where
  "no_flags = \<lparr>left_justify = False, zero_pad = False, alternate = False, sign_char = NUL\<rparr>"

fun parse_flags :: "string \<Rightarrow> format_flags \<Rightarrow> (format_flags \<times> string) option" where
  "parse_flags [] f = None"
| "parse_flags (c # format) f =
     (if c = CHR ''-'' then parse_flags format (f\<lparr>left_justify := True\<rparr>)
      else if c = CHR ''0'' then parse_flags format (f\<lparr>zero_pad := True\<rparr>)
      else if c = CHR ''#'' then parse_flags format (f\<lparr>alternate := True\<rparr>)
      else if c = CHR ''+'' then parse_flags format (f\<lparr>sign_char := CHR ''+''\<rparr>)
      else if c = CHR '' '' then parse_flags format (if sign_char f = NUL then f\<lparr>sign_char := CHR '' ''\<rparr> else f)
      else Some (f, c # format))"

fun parse_width :: "string \<Rightarrow> u32 \<Rightarrow> (u32 \<times> string) option" where
  "parse_width [] width = None"
| "parse_width (c # format) width =
     (if (of_char c :: nat) \<ge> of_char CHR ''0'' \<and> (of_char c :: nat) \<le> of_char CHR ''9''
      then parse_width format (width * 10 + of_nat (of_char c - of_char CHR ''0''))
      else Some (width, c # format))"

text \<open>One conversion: its prefix, its text and the remaining arguments. \<open>Unknown\<close> is the default case of the switch.\<close>

datatype conversion = Converted string string "va_arg list" | Unknown

definition magnitude :: "u32 \<Rightarrow> u32" where
  "magnitude value = (if value <s 0 then - (value + 1) + 1 else value)"

fun convert :: "char \<Rightarrow> format_flags \<Rightarrow> va_arg list \<Rightarrow> conversion option" where
  "convert c f args =
     (if c = CHR ''c'' then
        (case args of Word_Arg v # rest \<Rightarrow> Some (Converted [] [char_of (unat v)] rest) | _ \<Rightarrow> None)
      else if c = CHR ''s'' then
        (case args of
           String_Arg None # rest \<Rightarrow> Some (Converted [] ''(null)'' rest)
         | String_Arg (Some text) # rest \<Rightarrow>
             if NUL \<in> set text then Some (Converted [] (takeWhile (\<lambda>x. x \<noteq> NUL) text) rest) else None
         | _ \<Rightarrow> None)
      else if c = CHR ''d'' \<or> c = CHR ''i'' then
        (case args of
           Word_Arg v # rest \<Rightarrow>
             map_option (\<lambda>text. Converted (if v <s 0 then ''-'' else if sign_char f \<noteq> NUL then [sign_char f] else []) text rest)
               (uint_to_string (magnitude v) 10 False 32)
         | _ \<Rightarrow> None)
      else if c = CHR ''u'' then
        (case args of Word_Arg v # rest \<Rightarrow> map_option (\<lambda>text. Converted [] text rest) (uint_to_string v 10 False 32) | _ \<Rightarrow> None)
      else if c = CHR ''o'' then
        (case args of
           Word_Arg v # rest \<Rightarrow>
             map_option (\<lambda>text. Converted (if alternate f \<and> text ! 0 \<noteq> CHR ''0'' then ''0'' else []) text rest) (uint_to_string v 8 False 32)
         | _ \<Rightarrow> None)
      else if c = CHR ''x'' \<or> c = CHR ''X'' then
        (case args of
           Word_Arg v # rest \<Rightarrow>
             map_option (\<lambda>text. Converted (if alternate f \<and> v \<noteq> 0 then [CHR ''0'', c] else []) text rest)
               (uint_to_string v 16 (c = CHR ''X'') 32)
         | _ \<Rightarrow> None)
      else if c = CHR ''p'' then
        (case args of Word_Arg v # rest \<Rightarrow> map_option (\<lambda>text. Converted ''0x'' text rest) (uint_to_string v 16 False 32) | _ \<Rightarrow> None)
      else Some Unknown)"

definition padding_of :: "u32 \<Rightarrow> string \<Rightarrow> string \<Rightarrow> u32" where
  "padding_of width prefix text =
     (let total_length = of_nat (length prefix) + of_nat (length text)
      in if width > total_length then width - total_length else 0)"

fun pad_loop :: "nat \<Rightarrow> char \<Rightarrow> format_sink \<Rightarrow> format_sink" where
  "pad_loop 0 c sink = sink"
| "pad_loop (Suc n) c sink = pad_loop n c (sink_putc c sink)"

definition emit_field :: "format_flags \<Rightarrow> u32 \<Rightarrow> string \<Rightarrow> string \<Rightarrow> format_sink \<Rightarrow> format_sink" where
  "emit_field f width prefix text sink =
     (let padding = unat (padding_of width prefix text);
          pad_char = (if zero_pad f \<and> \<not> left_justify f then CHR ''0'' else CHR '' '');
          s1 = (if \<not> left_justify f \<and> pad_char = CHR '' '' then pad_loop padding (CHR '' '') sink else sink);
          s2 = (if length prefix \<noteq> 0 then sink_write prefix s1 else s1);
          s3 = (if \<not> left_justify f \<and> pad_char = CHR ''0'' then pad_loop padding (CHR ''0'') s2 else s2);
          s4 = sink_write text s3
      in if left_justify f then pad_loop padding (CHR '' '') s4 else s4)"

lemma parse_flags_length: "parse_flags format f = Some (f', rest) \<Longrightarrow> length rest \<le> length format"
  by (induction format f rule: parse_flags.induct) (auto split: if_splits)

lemma parse_width_length: "parse_width format w = Some (w', rest) \<Longrightarrow> length rest \<le> length format"
  by (induction format w rule: parse_width.induct) (auto split: if_splits)

text \<open>The loop over the format, with the sink when it ends and whether it has returned for a failure.\<close>

function format_loop :: "format_sink \<Rightarrow> string \<Rightarrow> va_arg list \<Rightarrow> (bool \<times> format_sink) option" where
  "format_loop sink format args =
     (case format of
        [] \<Rightarrow> None
      | c # format1 \<Rightarrow>
          if c = NUL then Some (False, sink)
          else if c \<noteq> CHR ''%'' then format_loop (sink_putc c sink) format1 args
          else case format1 of
            [] \<Rightarrow> None
          | d # format2 \<Rightarrow>
              if d = CHR ''%'' then format_loop (sink_putc (CHR ''%'') sink) format2 args
              else case parse_flags format1 no_flags of
                None \<Rightarrow> None
              | Some (f, format3) \<Rightarrow>
                  (case parse_width format3 0 of
                     None \<Rightarrow> None
                   | Some (width, []) \<Rightarrow> None
                   | Some (width, conv # format4) \<Rightarrow>
                       (case convert conv f args of
                          None \<Rightarrow> None
                        | Some Unknown \<Rightarrow> format_loop (sink_putc conv (sink_putc (CHR ''%'') sink)) format4 args
                        | Some (Converted prefix text args1) \<Rightarrow>
                            let sink1 = emit_field f width prefix text sink
                            in if sink_failed sink1 then Some (True, sink1) else format_loop sink1 format4 args1)))"
  by pat_completeness auto
termination
  by (relation "measure (\<lambda>(sink, format, args). length format)")
    (auto simp del: parse_flags.simps parse_width.simps convert.simps dest!: parse_flags_length parse_width_length)

definition format_string :: "format_sink \<Rightarrow> string \<Rightarrow> va_arg list \<Rightarrow> (int \<times> format_sink) option" where
  "format_string sink format args =
     (case format_loop sink format args of
        None \<Rightarrow> None
      | Some (True, s1) \<Rightarrow> Some (-1, s1)
      | Some (False, s1) \<Rightarrow>
          let s2 = (case sink_buffer s1 of
                      Some b \<Rightarrow>
                        if sink_capacity s1 \<noteq> 0
                        then s1\<lparr>sink_buffer := Some (b((if sink_length s1 < sink_capacity s1 then sink_length s1 else sink_capacity s1 - 1) := NUL))\<rparr>
                        else s1
                    | None \<Rightarrow> s1)
          in if sink_failed s2 \<or> sink_length s2 > INT_MAX then Some (-1, s2) else Some (uint (sink_length s2), s2))"

definition vprintf :: "string \<Rightarrow> va_arg list \<Rightarrow> string \<Rightarrow> (int \<times> string) option" where
  "vprintf format args console =
     map_option (\<lambda>(r, s). (r, sink_console s))
       (format_string \<lparr>sink_buffer = None, sink_capacity = 0, sink_length = 0, sink_failed = False, sink_console = console\<rparr> format args)"

text \<open>A \<open>NULL\<close> buffer writes to the console.\<close>

definition vsnprintf :: "(u32 \<Rightarrow> char) option \<Rightarrow> u32 \<Rightarrow> string \<Rightarrow> va_arg list \<Rightarrow> string \<Rightarrow> (int \<times> (u32 \<Rightarrow> char) option \<times> string) option" where
  "vsnprintf buffer buffer_size format args console =
     map_option (\<lambda>(r, s). (r, sink_buffer s, sink_console s))
       (format_string \<lparr>sink_buffer = buffer, sink_capacity = buffer_size, sink_length = 0, sink_failed = False, sink_console = console\<rparr> format args)"

definition snprintf :: "(u32 \<Rightarrow> char) option \<Rightarrow> u32 \<Rightarrow> string \<Rightarrow> va_arg list \<Rightarrow> string \<Rightarrow> (int \<times> (u32 \<Rightarrow> char) option \<times> string) option" where
  "snprintf buffer buffer_size format args console = vsnprintf buffer buffer_size format args console"

definition printf :: "string \<Rightarrow> va_arg list \<Rightarrow> string \<Rightarrow> (int \<times> string) option" where
  "printf format args console = vprintf format args console"

definition puts :: "string option \<Rightarrow> string \<Rightarrow> (int \<times> string) option" where
  "puts text console = printf (''%s'' @ [CHR 0x0A, NUL]) [String_Arg text] console"

end
