(* ===== verification/Printf_Props.thy ===== *)
theory Printf_Props
  imports Printf
begin

text \<open>
  The text a format denotes (\<open>render\<close>), that the interpreter writes it, and the properties of the component.
\<close>

section \<open>Numbers\<close>

fun digits :: "nat \<Rightarrow> nat \<Rightarrow> nat list" where
  "digits b n = (if n = 0 \<or> b < 2 then [] else n mod b # digits b (n div b))"

declare digits.simps [simp del]

definition digit_value :: "char \<Rightarrow> nat" where
  "digit_value c =
     (let n = of_char c in if n < 58 then n - 48 else if n < 97 then n - 55 else n - 87)"

text \<open>The number a string of digits denotes.\<close>

fun number_value :: "nat \<Rightarrow> string \<Rightarrow> nat" where
  "number_value b t = foldl (\<lambda>a c. a * b + digit_value c) 0 t"

lemma less_16: "(d::nat) < 16 \<longleftrightarrow> d \<in> {0, 1, 2, 3, 4, 5, 6, 7, 8, 9, 10, 11, 12, 13, 14, 15}"
  unfolding insert_iff empty_iff by presburger

lemma digit_value_char: "d < 16 \<Longrightarrow> digit_value (digit_chars up ! d) = d"
  unfolding less_16 by (cases up) (auto simp: digit_chars_def digit_value_def)

lemma digit_zero: "d < 16 \<Longrightarrow> digit_chars up ! d = CHR ''0'' \<longleftrightarrow> d = 0"
  unfolding less_16 by (cases up) (auto simp: digit_chars_def)

lemma digits_less: "2 \<le> b \<Longrightarrow> d \<in> set (digits b n) \<Longrightarrow> d < b"
proof (induction b n rule: digits.induct)
  case (1 b n)
  then show ?case using digits.simps [of b n] by (auto split: if_splits)
qed

lemma digit_loop_eq:
  assumes "2 \<le> unat base"
  shows "digit_loop v base up buf = Some (buf @ map (\<lambda>d. digit_chars up ! d) (digits (unat base) (unat v)))"
proof (induction "unat v" arbitrary: v buf rule: less_induct)
  case less
  show ?case
  proof (cases "v = 0")
    case True
    then show ?thesis by (subst digit_loop.simps) (simp add: digits.simps)
  next
    case False
    then have n: "unat v \<noteq> 0" by (simp add: unat_eq_0)
    have q: "unat (v div base) = unat v div unat base" "unat (v mod base) = unat v mod unat base"
      by (simp_all add: unat_div unat_mod)
    have "unat (v div base) < unat v" using n assms q by simp
    from less [OF this] n q assms False show ?thesis
      by (subst digit_loop.simps) (simp add: digits.simps [of "unat base" "unat v"])
  qed
qed

lemma reverse_loop_eq:
  assumes "r < length xs" "l \<le> Suc r" "r + l = n"
  shows "reverse_loop l r xs = map (\<lambda>i. if l \<le> i \<and> i \<le> r then xs ! (n - i) else xs ! i) [0..<length xs]"
  using assms
proof (induction l r xs rule: reverse_loop.induct)
  case (1 l r xs)
  show ?case
  proof (cases "l < r")
    case True
    let ?ys = "xs[l := xs ! r, r := xs ! l]"
    have "reverse_loop l r xs = reverse_loop (l + 1) (r - 1) ?ys" using True by simp
    also have "\<dots> = map (\<lambda>i. if l + 1 \<le> i \<and> i \<le> r - 1 then ?ys ! (n - i) else ?ys ! i) [0..<length ?ys]"
      by (rule "1.IH") (use True "1.prems" in auto)
    also have "\<dots> = map (\<lambda>i. if l \<le> i \<and> i \<le> r then xs ! (n - i) else xs ! i) [0..<length xs]"
    proof -
      have "(if l + 1 \<le> i \<and> i \<le> r - 1 then ?ys ! (n - i) else ?ys ! i) = (if l \<le> i \<and> i \<le> r then xs ! (n - i) else xs ! i)"
        if "i < length xs" for i
      proof -
        consider "i = l" | "i = r" | "l < i" "i < r" | "i < l" | "r < i" by linarith
        then show ?thesis using True "1.prems" that
          by cases (auto simp: nth_list_update)
      qed
      then show ?thesis by simp
    qed
    finally show ?thesis .
  next
    case False
    then have "i = n - i" if "l \<le> i" "i \<le> r" for i using that "1.prems" by linarith
    then show ?thesis using False by (intro nth_equalityI) auto
  qed
qed

lemma reverse_loop_rev: "xs \<noteq> [] \<Longrightarrow> reverse_loop 0 (length xs - 1) xs = rev xs"
  using reverse_loop_eq [of "length xs - 1" xs 0 "length xs - 1"]
  by (auto simp: rev_nth intro!: nth_equalityI)

lemma digits_nonempty: "2 \<le> b \<Longrightarrow> 0 < n \<Longrightarrow> digits b n \<noteq> []"
  by (subst digits.simps) simp

lemma uint_to_string_eq:
  assumes "2 \<le> unat base" "0 < sz"
  shows "uint_to_string v base up sz =
    Some (if v = 0 then ''0'' else map (\<lambda>d. digit_chars up ! d) (rev (digits (unat base) (unat v))))"
proof (cases "v = 0")
  case False
  then have "digits (unat base) (unat v) \<noteq> []" using digits_nonempty [OF assms(1), of "unat v"] by (simp add: unat_gt_0)
  then show ?thesis using False assms digit_loop_eq [OF assms(1), of v up "[]"]
      reverse_loop_rev [of "map (\<lambda>d. digit_chars up ! d) (digits (unat base) (unat v))"]
    by (simp add: uint_to_string_def rev_map)
qed (use assms in \<open>simp add: uint_to_string_def\<close>)

lemma digits_value:
  assumes "2 \<le> b" "b \<le> 16"
  shows "foldl (\<lambda>a c. a * b + digit_value c) 0 (map (\<lambda>d. digit_chars up ! d) (rev (digits b n))) = n"
  using assms
proof (induction b n rule: digits.induct)
  case (1 b n)
  have "n mod b < 16" using "1.prems" mod_less_divisor [of b n] by linarith
  then show ?case using 1 by (subst digits.simps) (simp add: digit_value_char div_mult_mod_eq)
qed

lemma digits_length: "2 \<le> b \<Longrightarrow> n < 2 ^ k \<Longrightarrow> length (digits b n) \<le> k"
proof (induction k arbitrary: n)
  case (Suc k)
  have "n div b \<le> n div 2" using Suc.prems(1) by (intro div_le_mono2) auto
  then have "n div b < 2 ^ k" using Suc.prems(2) by simp
  then show ?case using Suc by (subst digits.simps) simp
qed (simp add: digits.simps)

lemma digits_last: "2 \<le> b \<Longrightarrow> 0 < n \<Longrightarrow> last (digits b n) \<noteq> 0"
proof (induction b n rule: digits.induct)
  case (1 b n)
  show ?case
  proof (cases "n div b = 0")
    case True
    then have "digits b n = [n mod b]" using 1 by (subst digits.simps) (simp add: digits.simps)
    moreover have "n mod b = n" using True "1.prems" by (simp add: div_eq_0_iff)
    ultimately show ?thesis using "1.prems" by simp
  next
    case False
    then have "digits b n = n mod b # digits b (n div b)" "digits b (n div b) \<noteq> []"
      using 1 digits_nonempty [of b "n div b"] by (auto simp: digits.simps [of b n])
    then show ?thesis using 1 False by simp
  qed
qed

text \<open>C36: A number is printed in at most 32 characters, the size of the buffer of \<open>format_string\<close>; the digits denote the
  number, and there is no leading zero.\<close>

theorem uint_to_string_roundtrip:
  assumes "2 \<le> base" "base \<le> 16"
  shows "\<exists>t. uint_to_string v base upper 32 = Some t \<and> number_value (unat base) t = unat v \<and> 1 \<le> length t \<and> length t \<le> 32 \<and>
    (t ! 0 = CHR ''0'' \<longleftrightarrow> v = 0)"
proof (cases "v = 0")
  case True
  then show ?thesis by (simp add: uint_to_string_def digit_value_def)
next
  case False
  have b: "2 \<le> unat base" "unat base \<le> 16" using assms by (auto simp: word_le_nat_alt)
  have n: "0 < unat v" using False by (simp add: unat_gt_0)
  let ?ds = "digits (unat base) (unat v)" let ?t = "map (\<lambda>d. digit_chars upper ! d) (rev ?ds)"
  have ne: "?ds \<noteq> []" by (rule digits_nonempty [OF b(1) n])
  have "unat v < 2 ^ 32" using unsigned_less [of v] by simp
  then have "length ?t \<le> 32" using digits_length [OF b(1)] by simp
  moreover have "number_value (unat base) ?t = unat v" using digits_value [OF b] by simp
  moreover have "?t ! 0 \<noteq> CHR ''0''"
  proof -
    have "?t ! 0 = digit_chars upper ! last ?ds" using ne by (simp add: rev_nth last_conv_nth)
    moreover have "last ?ds < 16" using digits_less [OF b(1) last_in_set [OF ne]] b(2) by simp
    ultimately show ?thesis using digit_zero digits_last [OF b(1) n] by simp
  qed
  moreover have "1 \<le> length ?t" using ne by (simp add: Suc_le_eq)
  ultimately show ?thesis using False uint_to_string_eq [OF b(1), of 32] by simp
qed

theorem uint_to_string_roundtrip_witness:
  "\<exists>t. uint_to_string 2026 16 False 32 = Some t \<and> number_value 16 t = 2026 \<and> t ! 0 \<noteq> CHR ''0''"
  using uint_to_string_roundtrip [of 16 2026 False] by (auto simp del: number_value.simps)

section \<open>The text of a format\<close>




section \<open>The sink\<close>



lemma putc_not_failed: "sink_failed (sink_putc c sink) = sink_failed sink"
  by (simp add: sink_putc_def putchar_def EOF_def Let_def split: option.splits)

lemma write_not_failed [simp]: "sink_failed (sink_write out sink) = sink_failed sink"
  by (induction out arbitrary: sink) (auto simp: putc_not_failed)










end
