(* ===== verification/Spec2Isabelle.thy ===== *)
theory Spec2Isabelle
  imports Kernel_Prelude Vma_Store Phys_Mem_Props Sched_Props Sched_Report Sync_Props Libc Printf_Props
begin

text \<open>
  \<^bold>\<open>DFOS\<close>, a small 32-bit kernel in C (\<^verbatim>\<open>src/kernel\<close>) with its own C library
  (\<^verbatim>\<open>src/libc\<close>).
\<close>

end
